(* ===== verification/Prelude.thy ===== *)
theory Prelude
  imports Main "HOL-Library.Word"
begin

text \<open>
  What every component of the development shares: the machine types, byte buffers, the
  representation of integers in memory under either host byte order, and C strings.

  \<^item> A byte is \<open>8 word\<close>; the unsigned C types are words of their width.
  \<^item> A buffer is a list of its cells. \<^term>\<open>put_bytes\<close> is \<open>memcpy\<close> into a buffer at an offset.
  \<^item> The byte order of the host is a parameter \<open>be\<close> (true on a big-endian host), since the
    code tests it at run time. \<open>mem16 be w\<close>, \<open>mem32 be w\<close> and \<open>mem64 be w\<close> are the bytes a
    \<open>memcpy\<close> from a variable holding \<open>w\<close> reads; \<open>load16\<close>, \<open>load32\<close> and \<open>load64\<close> go the other way.
  \<^item> A C string is the list of its characters before the terminating NUL.
  The collection \<open>byte_order\<close> holds the facts that turn a store of a converted integer into
  big-endian bytes, whatever the host.
\<close>

unbundle bit_operations_syntax

named_theorems byte_order \<open>memory images of converted integers\<close>

type_synonym byte = "8 word"
type_synonym u16 = "16 word"
type_synonym u32 = "32 word"
type_synonym u64 = "64 word"

section \<open>Buffers\<close>

definition put_bytes :: "nat \<Rightarrow> 'a list \<Rightarrow> 'a list \<Rightarrow> 'a list" where
  "put_bytes off bs buf = take off buf @ bs @ drop (off + length bs) buf"

lemma length_put_bytes [simp]:
  "off + length bs \<le> length buf \<Longrightarrow> length (put_bytes off bs buf) = length buf"
  by (simp add: put_bytes_def)

lemma put_bytes_0: "put_bytes 0 bs buf = bs @ drop (length bs) buf"
  by (simp add: put_bytes_def)

lemma put_bytes_append:
  "length xs = off \<Longrightarrow> put_bytes off bs (xs @ ys) = xs @ bs @ drop (length bs) ys"
  by (simp add: put_bytes_def)

lemma list_update_as_put_bytes: "i < length xs \<Longrightarrow> xs[i := x] = put_bytes i [x] xs"
  by (simp add: put_bytes_def upd_conv_take_nth_drop)

section \<open>Integers in memory\<close>

definition be16 :: "u16 \<Rightarrow> byte list" where
  "be16 w = [ucast (drop_bit 8 w), ucast w]"

definition be32 :: "u32 \<Rightarrow> byte list" where
  "be32 w = [ucast (drop_bit 24 w), ucast (drop_bit 16 w), ucast (drop_bit 8 w), ucast w]"

definition be64 :: "u64 \<Rightarrow> byte list" where
  "be64 w = be32 (ucast (drop_bit 32 w)) @ be32 (ucast w)"

definition mem16 :: "bool \<Rightarrow> u16 \<Rightarrow> byte list" where
  "mem16 be w = (if be then be16 w else rev (be16 w))"

definition mem32 :: "bool \<Rightarrow> u32 \<Rightarrow> byte list" where
  "mem32 be w = (if be then be32 w else rev (be32 w))"

definition mem64 :: "bool \<Rightarrow> u64 \<Rightarrow> byte list" where
  "mem64 be w = (if be then be64 w else rev (be64 w))"

fun of_be16 :: "byte list \<Rightarrow> u16" where
  "of_be16 [a, b] = push_bit 8 (ucast a) OR ucast b"
| "of_be16 _ = 0"

fun of_be32 :: "byte list \<Rightarrow> u32" where
  "of_be32 [a, b, c, d] =
     push_bit 24 (ucast a) OR push_bit 16 (ucast b) OR push_bit 8 (ucast c) OR ucast d"
| "of_be32 _ = 0"

definition of_be64 :: "byte list \<Rightarrow> u64" where
  "of_be64 bs = push_bit 32 (ucast (of_be32 (take 4 bs))) OR ucast (of_be32 (drop 4 bs))"

definition load16 :: "bool \<Rightarrow> byte list \<Rightarrow> u16" where
  "load16 be bs = of_be16 (if be then bs else rev bs)"

definition load32 :: "bool \<Rightarrow> byte list \<Rightarrow> u32" where
  "load32 be bs = of_be32 (if be then bs else rev bs)"

definition load64 :: "bool \<Rightarrow> byte list \<Rightarrow> u64" where
  "load64 be bs = of_be64 (if be then bs else rev bs)"

lemma length_be [simp]:
  "length (be16 w) = 2" "length (be32 v) = 4" "length (be64 u) = 8"
  by (simp_all add: be16_def be32_def be64_def)

lemma length_mem [simp]:
  "length (mem16 be w) = 2" "length (mem32 be v) = 4" "length (mem64 be u) = 8"
  by (simp_all add: mem16_def mem32_def mem64_def)

lemma byte_bit_high [simp]:
  "\<not> bit (b :: byte) (8 + n)" "\<not> bit (b :: byte) (16 + n)" "\<not> bit (b :: byte) (24 + n)"
  by (auto dest: bit_imp_le_length)

lemma byte_cases: "n < 8 \<or> 8 \<le> n \<and> n < 16 \<or> 16 \<le> n \<and> n < 24 \<or> 24 \<le> (n::nat)"
  by arith

lemma of_be16_be16 [simp]: "of_be16 (be16 w) = w"
  by (rule bit_word_eqI) (auto simp: be16_def bit_simps)

lemma of_be32_be32 [simp]: "of_be32 (be32 w) = w"
proof (rule bit_word_eqI)
  fix n assume "n < LENGTH(32)"
  then show "bit (of_be32 (be32 w)) n = bit w n"
    using byte_cases [of n] by (elim disjE) (auto simp: be32_def bit_simps)
qed

lemma of_be64_be64 [simp]: "of_be64 (be64 w) = w"
  by (rule bit_word_eqI) (auto simp: of_be64_def be64_def bit_simps)

lemma be16_of_be16: "length bs = 2 \<Longrightarrow> be16 (of_be16 bs) = bs"
  by (cases bs rule: of_be16.cases) (auto simp: be16_def bit_simps intro!: bit_word_eqI)

lemma be32_of_be32: "length bs = 4 \<Longrightarrow> be32 (of_be32 bs) = bs"
  by (cases bs rule: of_be32.cases) (auto simp: be32_def bit_simps intro!: bit_word_eqI)

lemma load_mem [simp]:
  "load16 be (mem16 be w) = w" "load32 be (mem32 be v) = v" "load64 be (mem64 be u) = u"
  by (simp_all add: load16_def mem16_def load32_def mem32_def load64_def mem64_def)

section \<open>Conversions of the C library\<close>

text \<open>\<open>htons\<close> and \<open>htonl\<close> of \<open>arpa/inet.h\<close>: the identity on a big-endian host, the
  byte-reversed value on a little-endian one.\<close>

definition c_htons :: "bool \<Rightarrow> u16 \<Rightarrow> u16" where
  "c_htons be w = of_be16 (mem16 be w)"

definition c_htonl :: "bool \<Rightarrow> u32 \<Rightarrow> u32" where
  "c_htonl be w = of_be32 (mem32 be w)"

lemma mem_c_htons [byte_order]: "mem16 be (c_htons be w) = be16 w"
  by (cases be) (simp_all add: mem16_def c_htons_def be16_of_be16)

lemma mem_c_htonl [byte_order]: "mem32 be (c_htonl be w) = be32 w"
  by (cases be) (simp_all add: mem32_def c_htonl_def be32_of_be32)

lemma c_htons_load [byte_order]: "c_htons be (load16 be bs) = of_be16 bs" if "length bs = 2"
  using that by (cases be) (simp_all add: c_htons_def load16_def mem16_def be16_of_be16)

lemma c_htonl_load [byte_order]: "c_htonl be (load32 be bs) = of_be32 bs" if "length bs = 4"
  using that by (cases be) (simp_all add: c_htonl_def load32_def mem32_def be32_of_be32)

section \<open>C strings\<close>

abbreviation NUL :: char where "NUL \<equiv> CHR 0x00"

text \<open>The string at the start of a buffer.\<close>

definition c_str :: "string \<Rightarrow> string" where
  "c_str buf = takeWhile (\<lambda>c. c \<noteq> NUL) buf"

lemma NUL_notin_c_str [simp]: "NUL \<notin> set (c_str s)"
  by (auto simp: c_str_def dest: set_takeWhileD)

lemma c_str_id: "NUL \<notin> set s \<Longrightarrow> c_str s = s"
  by (auto simp: c_str_def takeWhile_eq_all_conv)

text \<open>\<open>isspace\<close>, \<open>tolower\<close> and \<open>toupper\<close> in the C locale.\<close>

definition c_isspace :: "char \<Rightarrow> bool" where
  "c_isspace c \<longleftrightarrow> c \<in> {CHR '' '', CHR 0x09, CHR 0x0A, CHR 0x0B, CHR 0x0C, CHR 0x0D}"

definition c_tolower :: "char \<Rightarrow> char" where
  "c_tolower c = (if 65 \<le> (of_char c :: nat) \<and> (of_char c :: nat) \<le> 90
                  then char_of ((of_char c :: nat) + 32) else c)"

definition c_toupper :: "char \<Rightarrow> char" where
  "c_toupper c = (if 97 \<le> (of_char c :: nat) \<and> (of_char c :: nat) \<le> 122
                  then char_of ((of_char c :: nat) - 32) else c)"

text \<open>\<open>strcasecmp (a, b) == 0\<close>.\<close>

definition c_strcaseeq :: "string \<Rightarrow> string \<Rightarrow> bool" where
  "c_strcaseeq a b \<longleftrightarrow> map c_tolower a = map c_tolower b"

text \<open>A \<open>char\<close> as an \<open>unsigned\<close>; whether \<open>char\<close> is signed depends on the host.\<close>

definition char_u32 :: "bool \<Rightarrow> char \<Rightarrow> u32" where
  "char_u32 schar c = (if schar then scast (of_char c :: byte) else ucast (of_char c :: byte))"

text \<open>\<open>strncpy\<close> into a character array: at most \<open>n\<close> characters, filled up with NULs to \<open>n\<close>.\<close>

definition c_strncpy :: "string \<Rightarrow> string \<Rightarrow> nat \<Rightarrow> string" where
  "c_strncpy dst src n = put_bytes 0 (take n (c_str src @ replicate n NUL)) dst"

lemma length_c_strncpy [simp]: "n \<le> length dst \<Longrightarrow> length (c_strncpy dst src n) = length dst"
  by (simp add: c_strncpy_def)

lemma c_str_append_NUL: "NUL \<notin> set s \<Longrightarrow> c_str (s @ NUL # r) = s"
  by (induction s) (auto simp: c_str_def)

lemma c_strncpy_fits:
  assumes "length (c_str src) < n" "n \<le> length dst"
  shows "c_str (c_strncpy dst src n) = c_str src"
proof -
  obtain k where "n - length (c_str src) = Suc k" using assms(1) by (metis Suc_diff_Suc)
  then show ?thesis
    using assms by (simp add: c_strncpy_def put_bytes_0 c_str_append_NUL)
qed

lemma c_strncpy_cut:
  assumes "n \<le> length (c_str src)" "n < length dst" "dst ! n = NUL"
  shows "c_str (c_strncpy dst src n) = take n (c_str src)"
proof -
  have "drop n dst = NUL # drop (Suc n) dst" using assms(2,3) by (metis Cons_nth_drop_Suc)
  moreover have "NUL \<notin> set (take n (c_str src))"
    using NUL_notin_c_str [of src] by (meson in_set_takeD)
  ultimately show ?thesis
    using assms(1) by (simp add: c_strncpy_def put_bytes_0 c_str_append_NUL)
qed

text \<open>Decimal notation.\<close>

fun dec_digits :: "nat \<Rightarrow> string" where
  "dec_digits n = (if n < 10 then [char_of (48 + n)]
                   else dec_digits (n div 10) @ [char_of (48 + n mod 10)])"

declare dec_digits.simps [simp del]

text \<open>The bytes of a string.\<close>

definition bytes_of :: "string \<Rightarrow> byte list" where
  "bytes_of s = map of_char s"

lemma length_bytes_of [simp]: "length (bytes_of s) = length s"
  by (simp add: bytes_of_def)

end
