(* ===== verification/Codec.thy ===== *)
theory Codec
  imports Prelude "HOL-Library.Sublist"
begin

text \<open>
  The interface between a message codec and the code that reads a byte stream with it. A decoder
  looks at the bytes received so far and says that a message is complete (with the number of bytes
  it takes), that more bytes are needed, or that the bytes are corrupt. The laws are what a
  provider of the interface promises; the lemmas are what a reader of a stream may rely on: no
  message is a prefix of another, and a stream of messages can be cut in one way only. A second
  interface, \<open>frame_source\<close>, extends it by an operation that reads one message from a connection; its lemmas
  are about any number of reads, and theory Lucp_Net provides it with \<open>lucp_net_recv\<close>.
\<close>

datatype 'f decoded = Complete nat 'f | Incomplete | Corrupt

locale frame_codec =
  fixes enc :: "'f \<Rightarrow> byte list"
    and dec :: "byte list \<Rightarrow> 'f decoded"
    and ok :: "'f \<Rightarrow> bool"
  assumes dec_enc: "ok f \<Longrightarrow> dec (enc f @ rest) = Complete (length (enc f)) f"
    and dec_prefix: "ok f \<Longrightarrow> enc f = p @ s \<Longrightarrow> s \<noteq> [] \<Longrightarrow> dec p = Incomplete"
    and dec_sound: "dec bs = Complete n f \<Longrightarrow> ok f \<and> take n bs = enc f \<and> n \<le> length bs"
begin

lemma dec_length: "dec bs = Complete n f \<Longrightarrow> n = length (enc f)"
  by (metis dec_sound length_take min.absorb2)

lemma dec_iff: "dec bs = Complete n f \<longleftrightarrow> ok f \<and> (\<exists>rest. bs = enc f @ rest) \<and> n = length (enc f)"
proof
  assume "dec bs = Complete n f"
  then show "ok f \<and> (\<exists>rest. bs = enc f @ rest) \<and> n = length (enc f)"
    using dec_sound [of bs n f] dec_length [of bs n f] by (metis append_take_drop_id)
qed (auto simp: dec_enc)

lemma enc_prefix_free:
  assumes "ok f" "ok g" "enc f @ xs = enc g @ ys"
  shows "f = g \<and> xs = ys"
proof -
  have "Complete (length (enc f)) f = Complete (length (enc g)) g"
    using assms by (metis dec_enc)
  then show ?thesis using assms(3) by simp
qed

lemma enc_nonempty: "ok f \<Longrightarrow> ok g \<Longrightarrow> f \<noteq> g \<Longrightarrow> enc f \<noteq> []"
  using enc_prefix_free [of f g "enc g" "[]"] by auto

lemma stream_unique:
  assumes "list_all ok fs" "list_all ok gs" "length fs = length gs"
    and "concat (map enc fs) @ xs = concat (map enc gs) @ ys"
  shows "fs = gs \<and> xs = ys"
  using assms(3,1,2,4)
proof (induction fs gs rule: list_induct2)
  case (Cons f fs g gs)
  then show ?case
    using enc_prefix_free [of f g "concat (map enc fs) @ xs" "concat (map enc gs) @ ys"] by auto
qed simp

end

text \<open>
  The interface of a reader: what code that receives messages one by one may rely on. A read gives a result
  code and a new state; after a result of 0, \<open>got\<close> is the message in the state. \<open>unread\<close> is what the
  reader has in its buffer and what is still on its way, \<open>live\<close> says that the connection is neither at
  its end nor broken. \<open>view\<close> is the part of a message that is transmitted.
\<close>

fun read_all :: "('s \<Rightarrow> (int \<times> 's) option) \<Rightarrow> ('s \<Rightarrow> 'g) \<Rightarrow> nat \<Rightarrow> 's \<Rightarrow> ('g list \<times> 's) option" where
  "read_all read got 0 s = Some ([], s)"
| "read_all read got (Suc n) s =
     (case read s of
        None \<Rightarrow> None
      | Some (r, s') \<Rightarrow>
          if r = 0 then map_option (\<lambda>(gs, s''). (got s' # gs, s'')) (read_all read got n s') else Some ([], s'))"

locale frame_source = frame_codec enc dec ok
  for enc :: "'f \<Rightarrow> byte list" and dec :: "byte list \<Rightarrow> 'f decoded" and ok :: "'f \<Rightarrow> bool" +
  fixes read :: "'s \<Rightarrow> (int \<times> 's) option"
    and got :: "'s \<Rightarrow> 'g"
    and view :: "'g \<Rightarrow> 'f"
    and unread :: "'s \<Rightarrow> byte list"
    and inv :: "'s \<Rightarrow> bool"
    and live :: "'s \<Rightarrow> bool"
  assumes enc_not_nil: "ok f \<Longrightarrow> enc f \<noteq> []"
    and read_front: "inv s \<Longrightarrow> live s \<Longrightarrow> ok f \<Longrightarrow> unread s = enc f @ rest \<Longrightarrow>
      \<exists>s'. read s = Some (0, s') \<and> live s' \<and> unread s' = rest \<and> view (got s') = f"
    and read_inv: "inv s \<Longrightarrow> read s = Some (r, s') \<Longrightarrow> inv s'"
    and read_sound: "inv s \<Longrightarrow> read s = Some (0, s') \<Longrightarrow> ok (view (got s')) \<and> unread s = enc (view (got s')) @ unread s'"
begin

lemma read_all_stream:
  assumes "inv s" "live s" "list_all ok fs" "unread s = concat (map enc fs) @ rest"
  shows "\<exists>gs s'. read_all read got (length fs) s = Some (gs, s') \<and> map view gs = fs \<and> inv s' \<and> live s' \<and> unread s' = rest"
  using assms
proof (induction fs arbitrary: s)
  case (Cons f fs)
  then obtain s1 where r: "read s = Some (0, s1)" "live s1" "unread s1 = concat (map enc fs) @ rest" "view (got s1) = f"
    using read_front [of s f "concat (map enc fs) @ rest"] by auto
  with Cons.IH [of s1] Cons.prems read_inv show ?case by force
qed simp

lemma read_all_sound:
  assumes "inv s" "read_all read got n s = Some (gs, s')"
  shows "inv s' \<and> list_all ok (map view gs) \<and> (\<exists>rest. unread s = concat (map enc (map view gs)) @ rest)"
  using assms
proof (induction n arbitrary: s gs)
  case (Suc n)
  then obtain r s1 where r: "read s = Some (r, s1)" by (auto split: option.splits)
  show ?case
  proof (cases "r = 0")
    case True
    then obtain hs where "gs = got s1 # hs" "read_all read got n s1 = Some (hs, s')" using Suc.prems(2) r by auto
    then show ?thesis using Suc.IH [of s1 hs] read_inv [OF Suc.prems(1) r] read_sound [of s s1] Suc.prems(1) r True by auto
  qed (use Suc.prems r read_inv in auto)
qed (use assms in simp)

text \<open>No message is lost, doubled, changed or made up, whatever the connection does: what is read
  before the first failure is a front part of what was sent, if the bytes are a front part of the bytes sent.\<close>

lemma read_all_prefix:
  assumes "inv s" "prefix (unread s) (concat (map enc fs))" "list_all ok fs" "read_all read got n s = Some (gs, s')"
  shows "prefix (map view gs) fs"
proof -
  have "prefix hs fs" if "list_all ok hs" "list_all ok fs" "concat (map enc fs) = concat (map enc hs) @ rest" for hs rest
    using that
  proof (induction hs arbitrary: fs)
    case (Cons h hs)
    show ?case
    proof (cases fs)
      case Nil
      then show ?thesis using Cons.prems enc_not_nil [of h] by simp
    next
      case (Cons f fs')
      then show ?thesis using Cons.prems enc_prefix_free [of f h "concat (map enc fs')" "concat (map enc hs) @ rest"] Cons.IH [of fs'] by auto
    qed
  qed simp
  moreover obtain r1 where "concat (map enc fs) = unread s @ r1" using assms(2) by (auto simp: prefix_def)
  moreover note read_all_sound [OF assms(1,4)]
  ultimately show ?thesis using assms(3) by auto
qed

end

end
