(* ===== verification/Lucp_Frame.thy ===== *)
theory Lucp_Frame
  imports Codec
begin

text \<open>
  The LUCP frame and its codec: \<open>lucplib/lucp.h\<close> (constants, \<open>lucp_frame_t\<close>) and the part of
  \<open>lucplib/lucp.c\<close> that works on one frame (\<open>htonl_c\<close>, \<open>htons_c\<close>, \<open>lucp_frame_pack\<close>,
  \<open>lucp_frame_unpack\<close>, \<open>lucp_frame_make\<close>).

  A pointer argument is an \<open>option\<close> (\<open>None\<close> is \<open>NULL\<close>); a buffer is the list of its cells and the
  functions return its new contents with the C return value. The field \<open>textInfo\<close> is the whole
  array of 1010 bytes, so what a \<open>memcpy\<close> leaves behind in it stays visible. Log calls are left
  out. \<open>wire\<close> is the specification: the bytes that stand for a frame on the network.
\<close>

section \<open>Constants and data\<close>

definition LUCP_MAGIC :: u32 where "LUCP_MAGIC = 0x4C554350"
definition LUCP_VER_MAJOR :: byte where "LUCP_VER_MAJOR = 1"
definition LUCP_VER_MINOR :: byte where "LUCP_VER_MINOR = 0"
definition LUCP_MAX_TEXTINFO_LEN :: nat where "LUCP_MAX_TEXTINFO_LEN = 1010"

definition LUCP_MTYP_DEFAULT :: byte where "LUCP_MTYP_DEFAULT = 0x00"
definition LUCP_MTYP_UPLOAD_REQUEST :: byte where "LUCP_MTYP_UPLOAD_REQUEST = 0x01"
definition LUCP_MTYP_ACK_START :: byte where "LUCP_MTYP_ACK_START = 0x02"
definition LUCP_MTYP_NOTIFY_DONE :: byte where "LUCP_MTYP_NOTIFY_DONE = 0x03"
definition LUCP_MTYP_FTP_LOGIN_RESULT :: byte where "LUCP_MTYP_FTP_LOGIN_RESULT = 0x04"
definition LUCP_MTYP_FTP_DOWNLOAD_RESULT :: byte where "LUCP_MTYP_FTP_DOWNLOAD_RESULT = 0x05"

definition LUCP_STAT_FAILED :: byte where "LUCP_STAT_FAILED = 0x00"
definition LUCP_STAT_SUCCESS :: byte where "LUCP_STAT_SUCCESS = 0x01"
definition LUCP_STAT_ARCHIVE_FAILED :: byte where "LUCP_STAT_ARCHIVE_FAILED = 0x10"
definition LUCP_STAT_FTP_UPLOAD_FAILED :: byte where "LUCP_STAT_FTP_UPLOAD_FAILED = 0x11"

lemmas lucp_consts =
  LUCP_MAGIC_def LUCP_VER_MAJOR_def LUCP_VER_MINOR_def LUCP_MAX_TEXTINFO_LEN_def
  LUCP_MTYP_DEFAULT_def LUCP_MTYP_UPLOAD_REQUEST_def LUCP_MTYP_ACK_START_def
  LUCP_MTYP_NOTIFY_DONE_def LUCP_MTYP_FTP_LOGIN_RESULT_def LUCP_MTYP_FTP_DOWNLOAD_RESULT_def
  LUCP_STAT_FAILED_def LUCP_STAT_SUCCESS_def LUCP_STAT_ARCHIVE_FAILED_def
  LUCP_STAT_FTP_UPLOAD_FAILED_def

record lucp_frame =
  magic :: u32
  version_major :: byte
  version_minor :: byte
  seq_num :: u32
  msgType :: byte
  status :: byte
  textInfo_len :: u16
  textInfo :: "byte list"

section \<open>Byte order\<close>

text \<open>The test at run time: the first byte in memory of a known integer.\<close>

definition is_big_endian :: "bool \<Rightarrow> bool" where
  "is_big_endian be \<longleftrightarrow> mem32 be 0x01020304 ! 0 = 0x01"

lemma is_big_endian_host [simp]: "is_big_endian be = be"
  by (cases be) (simp_all add: is_big_endian_def mem32_def be32_def)

definition htonl_c :: "bool \<Rightarrow> u32 \<Rightarrow> u32" where
  "htonl_c be host32 =
     (if is_big_endian be then host32
      else drop_bit 24 (host32 AND 0xFF000000) OR drop_bit 8 (host32 AND 0x00FF0000) OR
           push_bit 8 (host32 AND 0x0000FF00) OR push_bit 24 (host32 AND 0x000000FF))"

definition ntohl_c :: "bool \<Rightarrow> u32 \<Rightarrow> u32" where
  "ntohl_c be net32 = htonl_c be net32"

definition htons_c :: "bool \<Rightarrow> u16 \<Rightarrow> u16" where
  "htons_c be host16 = (if is_big_endian be then host16 else drop_bit 8 host16 OR push_bit 8 host16)"

definition ntohs_c :: "bool \<Rightarrow> u16 \<Rightarrow> u16" where
  "ntohs_c be net16 = htons_c be net16"

lemma byte_masks:
  "(0xFF000000 :: u32) = push_bit 24 (mask 8)"
  "(0x00FF0000 :: u32) = push_bit 16 (mask 8)"
  "(0x0000FF00 :: u32) = push_bit 8 (mask 8)"
  "(0x000000FF :: u32) = mask 8"
  by (simp_all add: mask_eq_exp_minus_1 push_bit_eq_mult)

lemma mem32_htonl_c [byte_order]: "mem32 be (htonl_c be w) = be32 w"
proof (cases be)
  case True
  then show ?thesis by (simp add: mem32_def htonl_c_def)
next
  case False
  then show ?thesis
    unfolding mem32_def be32_def htonl_c_def byte_masks
    by (auto simp: bit_simps simp del: mask_numeral intro!: bit_word_eqI)
qed

lemma mem16_htons_c [byte_order]: "mem16 be (htons_c be w) = be16 w"
  by (auto simp: mem16_def be16_def htons_c_def bit_simps intro!: bit_word_eqI)

lemma htonl_c_is_htonl: "htonl_c be w = c_htonl be w"
  using arg_cong [OF mem32_htonl_c [of be w], of "load32 be"]
  by (simp flip: mem_c_htonl [of be w])

lemma htons_c_is_htons: "htons_c be w = c_htons be w"
  using arg_cong [OF mem16_htons_c [of be w], of "load16 be"]
  by (simp flip: mem_c_htons [of be w])

lemma ntoh_load [byte_order]:
  "length bs = 4 \<Longrightarrow> ntohl_c be (load32 be bs) = of_be32 bs"
  "length cs = 2 \<Longrightarrow> ntohs_c be (load16 be cs) = of_be16 cs"
  by (simp_all add: ntohl_c_def ntohs_c_def htonl_c_is_htonl htons_c_is_htons
      c_htonl_load c_htons_load)

section \<open>Pack, unpack, make\<close>

definition lucp_frame_pack ::
  "bool \<Rightarrow> lucp_frame option \<Rightarrow> byte list option \<Rightarrow> nat \<Rightarrow> int \<times> byte list option" where
  "lucp_frame_pack be frame buf buflen =
     (case (frame, buf) of
        (Some f, Some b) \<Rightarrow>
          let n = unat (textInfo_len f) in
          if buflen < 14 + n then (-1, Some b)
          else if LUCP_MAX_TEXTINFO_LEN < n then (-1, Some b)
          else
            let m = htonl_c be (magic f);
                seq = htonl_c be (seq_num f);
                plen = htons_c be (textInfo_len f);
                b = put_bytes 0 (mem32 be m) b;
                b = b[4 := version_major f];
                b = b[5 := version_minor f];
                b = put_bytes 6 (mem32 be seq) b;
                b = b[10 := msgType f];
                b = b[11 := status f];
                b = put_bytes 12 (mem16 be plen) b;
                b = (if 0 < n then put_bytes 14 (take n (textInfo f)) b else b)
            in (int (14 + n), Some b)
      | _ \<Rightarrow> (-1, buf))"

definition lucp_frame_unpack ::
  "bool \<Rightarrow> lucp_frame option \<Rightarrow> byte list option \<Rightarrow> nat \<Rightarrow> int \<times> lucp_frame option" where
  "lucp_frame_unpack be frame buf buflen =
     (case (frame, buf) of
        (Some f, Some b) \<Rightarrow>
          if buflen < 14 then (0, Some f)
          else
            let m = ntohl_c be (load32 be (take 4 b)) in
            if m \<noteq> LUCP_MAGIC then (-1, Some f)
            else
              let f = f\<lparr>magic := m, version_major := b ! 4, version_minor := b ! 5\<rparr>;
                  f = f\<lparr>seq_num := ntohl_c be (load32 be (take 4 (drop 6 b)))\<rparr>;
                  f = f\<lparr>msgType := b ! 10, status := b ! 11\<rparr>;
                  f = f\<lparr>textInfo_len := ntohs_c be (load16 be (take 2 (drop 12 b)))\<rparr>;
                  n = unat (textInfo_len f)
              in if LUCP_MAX_TEXTINFO_LEN < n then (-1, Some f)
                 else if buflen < 14 + n then (0, Some f)
                 else
                   let f = (if 0 < n \<and> n \<le> LUCP_MAX_TEXTINFO_LEN
                            then f\<lparr>textInfo := put_bytes 0 (take n (drop 14 b)) (textInfo f)\<rparr>
                            else f)
                   in (int (14 + n), Some f)
      | _ \<Rightarrow> (-1, frame))"

definition lucp_frame_make ::
  "lucp_frame option \<Rightarrow> u32 \<Rightarrow> byte \<Rightarrow> byte \<Rightarrow> byte list option \<Rightarrow> u16 \<Rightarrow> lucp_frame option" where
  "lucp_frame_make frame seq mt st text text_len =
     (case frame of
        None \<Rightarrow> None
      | Some f \<Rightarrow>
          let len = (if LUCP_MAX_TEXTINFO_LEN < unat text_len
                     then of_nat LUCP_MAX_TEXTINFO_LEN else text_len);
              f = f\<lparr>magic := LUCP_MAGIC, version_major := LUCP_VER_MAJOR,
                    version_minor := LUCP_VER_MINOR, seq_num := seq, msgType := mt,
                    status := st, textInfo_len := len\<rparr>
          in case text of
               Some t \<Rightarrow> Some (if 0 < unat len
                               then f\<lparr>textInfo := put_bytes 0 (take (unat len) t) (textInfo f)\<rparr>
                               else f)
             | None \<Rightarrow> Some f)"

section \<open>The frame on the wire\<close>

definition wire :: "lucp_frame \<Rightarrow> byte list" where
  "wire f = be32 (magic f) @ [version_major f, version_minor f] @ be32 (seq_num f) @
            [msgType f, status f] @ be16 (textInfo_len f) @
            take (unat (textInfo_len f)) (textInfo f)"

text \<open>A frame the protocol allows: the text array has its size, the length field fits it.\<close>

definition wf_frame :: "lucp_frame \<Rightarrow> bool" where
  "wf_frame f \<longleftrightarrow> length (textInfo f) = LUCP_MAX_TEXTINFO_LEN
               \<and> unat (textInfo_len f) \<le> LUCP_MAX_TEXTINFO_LEN"

definition valid_frame :: "lucp_frame \<Rightarrow> bool" where
  "valid_frame f \<longleftrightarrow> wf_frame f \<and> magic f = LUCP_MAGIC"

text \<open>The frame a receiver holds after reading \<open>f\<close> into \<open>g\<close>: the cells of the text array past the
  length keep what they held.\<close>

definition received :: "lucp_frame \<Rightarrow> lucp_frame \<Rightarrow> lucp_frame" where
  "received f g = f\<lparr>textInfo := take (unat (textInfo_len f)) (textInfo f) @
                                drop (unat (textInfo_len f)) (textInfo g)\<rparr>"

definition text_of :: "lucp_frame \<Rightarrow> byte list" where
  "text_of f = take (unat (textInfo_len f)) (textInfo f)"

lemma length_wire: "wf_frame f \<Longrightarrow> length (wire f) = 14 + unat (textInfo_len f)"
  by (simp add: wire_def wf_frame_def)

lemma length_wire_le: "wf_frame f \<Longrightarrow> length (wire f) \<le> 1024"
  by (simp add: length_wire) (simp add: wf_frame_def lucp_consts)

section \<open>Packing and unpacking against the wire form\<close>

lemma take_load [byte_order]:
  "n + 4 \<le> length b \<Longrightarrow> ntohl_c be (load32 be (take 4 (drop n b))) = of_be32 (take 4 (drop n b))"
  "n + 2 \<le> length b \<Longrightarrow> ntohs_c be (load16 be (take 2 (drop n b))) = of_be16 (take 2 (drop n b))"
  "4 \<le> length b \<Longrightarrow> ntohl_c be (load32 be (take 4 b)) = of_be32 (take 4 b)"
  by (simp_all add: byte_order)

text \<open>The bytes that precede the text.\<close>

definition header :: "lucp_frame \<Rightarrow> byte list" where
  "header f = be32 (magic f) @ [version_major f, version_minor f] @ be32 (seq_num f) @
              [msgType f, status f] @ be16 (textInfo_len f)"

lemma length_header [simp]: "length (header f) = 14" by (simp add: header_def)
lemma wire_header: "wire f = header f @ text_of f" by (simp add: header_def wire_def text_of_def)

lemma header_layout:
  assumes "14 \<le> length b"
  shows "put_bytes 12 (be16 (textInfo_len f)) ((put_bytes 6 (be32 (seq_num f))
           ((put_bytes 0 (be32 (magic f)) b)[4 := version_major f, 5 := version_minor f]))
             [10 := msgType f, 11 := status f]) = header f @ drop 14 b"
proof -
  have "put_bytes 12 C ((put_bytes 6 B ((put_bytes 0 A b)[4 := v, 5 := w]))[10 := m, 11 := s]) =
        A @ [v, w] @ B @ [m, s] @ C @ drop 14 b"
    if lA: "length A = 4" and lB: "length B = 4" and lC: "length C = 2" for A B C and v w m s :: byte
  proof -
    obtain a0 a1 a2 a3 where A: "A = [a0, a1, a2, a3]"
      using lA by (auto simp: length_Suc_conv numeral_eq_Suc)
    obtain b0 b1 b2 b3 where B: "B = [b0, b1, b2, b3]"
      using lB by (auto simp: length_Suc_conv numeral_eq_Suc)
    obtain c0 c1 where C: "C = [c0, c1]"
      using lC by (auto simp: length_Suc_conv numeral_eq_Suc)
    obtain r0 r1 r2 r3 r4 r5 r6 r7 r8 r9 r10 r11 r12 r13 r
      where "b = [r0, r1, r2, r3, r4, r5, r6, r7, r8, r9, r10, r11, r12, r13] @ r"
      using assms by (auto simp: Suc_le_length_iff numeral_eq_Suc)
    then show ?thesis by (simp add: A B C put_bytes_def)
  qed
  then show ?thesis by (simp add: header_def)
qed

lemma lucp_frame_pack_fits:
  assumes "wf_frame f" "14 + unat (textInfo_len f) \<le> n" "n \<le> length b"
  shows "lucp_frame_pack be (Some f) (Some b) n =
           (int (14 + unat (textInfo_len f)), Some (wire f @ drop (14 + unat (textInfo_len f)) b))"
proof -
  let ?k = "unat (textInfo_len f)"
  have "14 \<le> length b" "length (text_of f) = ?k" "?k \<le> LUCP_MAX_TEXTINFO_LEN"
    using assms by (auto simp: wf_frame_def text_of_def)
  moreover from this have "put_bytes 14 (text_of f) (header f @ drop 14 b) = wire f @ drop (14 + ?k) b"
    by (simp add: put_bytes_append wire_header add.commute)
  ultimately show ?thesis using assms(2)
    by (auto simp: lucp_frame_pack_def Let_def byte_order header_layout wire_header text_of_def
        simp flip: text_of_def)
qed

lemma lucp_frame_pack_overflow:
  "n < 14 + unat (textInfo_len f) \<or> LUCP_MAX_TEXTINFO_LEN < unat (textInfo_len f) \<Longrightarrow>
   lucp_frame_pack be (Some f) (Some b) n = (-1, Some b)"
  by (auto simp: lucp_frame_pack_def Let_def)

lemma header_fields:
  assumes "take 14 b = header f"
  shows "of_be32 (take 4 b) = magic f" "b ! 4 = version_major f" "b ! 5 = version_minor f"
    "of_be32 (take 4 (drop 6 b)) = seq_num f" "b ! 10 = msgType f" "b ! 11 = status f"
    "of_be16 (take 2 (drop 12 b)) = textInfo_len f" "14 \<le> length b"
proof -
  show l: "14 \<le> length b" using arg_cong [OF assms, of length] by simp
  have b: "b = header f @ drop 14 b" using assms by (metis append_take_drop_id)
  have "take 4 b = be32 (magic f)" "take 4 (drop 6 b) = be32 (seq_num f)" 
     "take 2 (drop 12 b) = be16 (textInfo_len f)"
    by (subst b, simp add: header_def)+
  then show "of_be32 (take 4 b) = magic f" "of_be32 (take 4 (drop 6 b)) = seq_num f"
    "of_be16 (take 2 (drop 12 b)) = textInfo_len f" by simp_all
  show "b ! 4 = version_major f" "b ! 5 = version_minor f" "b ! 10 = msgType f" "b ! 11 = status f"
    by (subst b, simp add: header_def nth_append)+
qed

text \<open>What unpacking does once the header is complete.\<close>

lemma lucp_frame_unpack_header:
  assumes "take 14 b = header f" "valid_frame f" "14 \<le> n" 
    "length (textInfo g) = LUCP_MAX_TEXTINFO_LEN"
  shows "lucp_frame_unpack be (Some g) (Some b) n =
     (if n < length (wire f) then (0, Some (f\<lparr>textInfo := textInfo g\<rparr>))
      else (int (length (wire f)),
            Some (f\<lparr>textInfo := put_bytes 0 (take (unat (textInfo_len f)) (drop 14 b)) (textInfo g)\<rparr>)))"
proof -
  note h = header_fields [OF assms(1)]
  have k: "unat (textInfo_len f) \<le> LUCP_MAX_TEXTINFO_LEN" "magic f = LUCP_MAGIC" "wf_frame f"
    using assms(2) by (auto simp: valid_frame_def wf_frame_def)
  show ?thesis using assms(3,4) h k
    by (auto simp: lucp_frame_unpack_def Let_def take_load length_wire put_bytes_def)
qed

lemma lucp_frame_unpack_wire:
  assumes "valid_frame f" "length (textInfo g) = LUCP_MAX_TEXTINFO_LEN"
    "take n b = wire f @ rest" "n \<le> length b"
  shows "lucp_frame_unpack be (Some g) (Some b) n = (int (length (wire f)), Some (received f g))"
proof -
  have len: "length (wire f) = 14 + unat (textInfo_len f)" "length (text_of f) = unat (textInfo_len f)"
    using assms(1) by (auto simp: valid_frame_def length_wire wf_frame_def text_of_def)
  have n: "length (wire f) \<le> n" using arg_cong [OF assms(3), of length] assms(4) by simp
  have b: "b = wire f @ rest @ drop n b" using assms(3) by (metis append.assoc append_take_drop_id)
  have "take 14 b = header f" by (subst b) (simp add: wire_header)
  moreover have "take (unat (textInfo_len f)) (drop 14 b) = text_of f"
    by (subst b) (simp add: wire_header len)
  ultimately show ?thesis using n len assms
    by (simp add: lucp_frame_unpack_header received_def put_bytes_0 text_of_def)
qed

lemma lucp_frame_unpack_partial:
  assumes "valid_frame f" "length (textInfo g) = LUCP_MAX_TEXTINFO_LEN"
    "take n b @ suff = wire f" "suff \<noteq> []" "n \<le> length b"
  shows "\<exists>g'. lucp_frame_unpack be (Some g) (Some b) n = (0, Some g') \<and> textInfo g' = textInfo g"
proof (cases "n < 14")
  case True
  then show ?thesis using assms by (simp add: lucp_frame_unpack_def)
next
  case False
  have n: "n < length (wire f)"
    using arg_cong [OF assms(3), of length] assms(4,5) by (cases suff) auto
  have "take 14 (take n b @ suff) = header f" using assms(3) by (simp add: wire_header)
  then have "take 14 b = header f" using False assms(5) by simp
  then show ?thesis using False n assms
    by (simp add: lucp_frame_unpack_header)
qed

lemma header_of_fields:
  assumes "14 \<le> length b"
  shows "take 14 b = be32 (of_be32 (take 4 b)) @ [b ! 4, b ! 5] @ be32 (of_be32 (take 4 (drop 6 b))) @ 
         [b ! 10, b ! 11] @ be16 (of_be16 (take 2 (drop 12 b)))"
proof -
    obtain r0 r1 r2 r3 r4 r5 r6 r7 r8 r9 r10 r11 r12 r13 r
      where "b = [r0, r1, r2, r3, r4, r5, r6, r7, r8, r9, r10, r11, r12, r13] @ r"
      using assms by (auto simp: Suc_le_length_iff numeral_eq_Suc)
   then show ?thesis by (simp add: be32_of_be32 be16_of_be16 del: of_be32.simps of_be16.simps)
qed

lemma lucp_frame_unpack_sound:
  assumes "lucp_frame_unpack be (Some g) (Some b) n = (k, Some f)" "0 < k" "n \<le> length b" 
    "length (textInfo g) = LUCP_MAX_TEXTINFO_LEN"
  shows "valid_frame f \<and> k = int (length (wire f)) \<and> k \<le> int n \<and> take (nat k) b = wire f \<and> received f g = f"
proof -
  have n: "14 \<le> n" "14 \<le> length b" using assms by (auto simp: lucp_frame_unpack_def split: if_splits)
  define h where "h = \<lparr>magic = of_be32 (take 4 b), version_major = b ! 4, version_minor = b ! 5,
     seq_num = of_be32 (take 4 (drop 6 b)), msgType = b ! 10, status = b ! 11,
     textInfo_len = of_be16 (take 2 (drop 12 b)), textInfo = textInfo g\<rparr>"
  have hd: "take 14 b = header h" using header_of_fields [OF n(2)] by (simp add: header_def h_def)
  have v: "valid_frame h" 
    using assms(1,2,4) n
    by (auto simp: lucp_frame_unpack_def Let_def take_load valid_frame_def h_def wf_frame_def split: if_splits)
  let ?k = "unat (textInfo_len h)"
  have k: "?k \<le> LUCP_MAX_TEXTINFO_LEN" "length (wire h) = 14 + ?k"
    using v by (simp_all add: valid_frame_def wf_frame_def length_wire)
  from assms(1,2,4) n lucp_frame_unpack_header [OF hd v n(1) assms(4), of be]
  have f: "f = h\<lparr>textInfo := put_bytes 0 (take ?k (drop 14 b)) (textInfo g)\<rparr>"
    "k = int (14 + ?k)" "14 + ?k \<le> n"
    by (auto simp: k split: if_splits)
  have "length (take ?k (drop 14 b)) = ?k" using f(3) assms(3) by simp
  then have t: "text_of f = take ?k (drop 14 b)" "length (textInfo f) = LUCP_MAX_TEXTINFO_LEN"
      "received f g = f"
    using k(1) assms(4) by (simp_all add: f(1) text_of_def put_bytes_0 received_def)
  have "take (14 + ?k) b = take 14 b @ take ?k (drop 14 b)" by (rule take_add)
  also have "\<dots> = header f @ text_of f" by (simp add: hd t(1)) (simp add: f(1) header_def)
  finally have w: "take (14 + ?k) b = wire f" by (simp add: wire_header)
  moreover have "valid_frame f" using v t(2) by (simp add: valid_frame_def wf_frame_def f(1))
  moreover have "length (wire f) = 14 + ?k" using w f(3) assms(3) by (auto simp flip: w)
  moreover have "nat k = 14 + ?k" "k \<le> int n" using f(2,3) by (simp_all only: nat_int of_nat_le_iff)
  ultimately show ?thesis using f(2) t(3) by (simp only: simp_thms)
qed

section \<open>The codec interface\<close>

definition blank_frame :: lucp_frame where
  "blank_frame = \<lparr>magic = 0, version_major = 0, version_minor = 0, seq_num = 0, msgType = 0,
     status = 0, textInfo_len = 0, textInfo = replicate LUCP_MAX_TEXTINFO_LEN 0\<rparr>"

definition clean_frame :: "lucp_frame \<Rightarrow> bool" where
  "clean_frame f \<longleftrightarrow> valid_frame f \<and> received f blank_frame = f"

definition lucp_decode :: "bool \<Rightarrow> byte list \<Rightarrow> lucp_frame decoded" where
  "lucp_decode be bs =
     (case lucp_frame_unpack be (Some blank_frame) (Some bs) (length bs) of
        (k, Some f) \<Rightarrow> if 0 < k then Complete (nat k) f else if k = 0 then Incomplete else Corrupt
      | (k, None) \<Rightarrow> Corrupt)"

lemma blank_text [simp]: "length (textInfo blank_frame) = LUCP_MAX_TEXTINFO_LEN"
  by (simp add: blank_frame_def)

interpretation lucp_codec: frame_codec wire "lucp_decode be" clean_frame for be
proof
  show "lucp_decode be (wire f @ rest) = Complete (length (wire f)) f" if "clean_frame f" for f rest
    using that lucp_frame_unpack_wire [of f blank_frame "length (wire f @ rest)" "wire f @ rest" rest be]
    by (auto simp: lucp_decode_def clean_frame_def wire_header)
next
  show "lucp_decode be p = Incomplete" if "clean_frame f" "wire f = p @ s" "s \<noteq> []" for f p s
    using that lucp_frame_unpack_partial [of f blank_frame "length p" p s be]
    by (auto simp: lucp_decode_def clean_frame_def)
next
  show "clean_frame f \<and> take n bs = wire f \<and> n \<le> length bs" if "lucp_decode be bs = Complete n f" for bs n f
  proof -
    obtain k h where u: "lucp_frame_unpack be (Some blank_frame) (Some bs) (length bs) = (k, h)"
      by (cases "lucp_frame_unpack be (Some blank_frame) (Some bs) (length bs)")
    then have "h = Some f" "0 < k" "n = nat k"
      using that by (auto simp: lucp_decode_def split: option.splits if_splits)
    then show ?thesis using u lucp_frame_unpack_sound [of be blank_frame bs "length bs" k f]
      by (auto simp: clean_frame_def)
  qed
qed

section \<open>Properties\<close>

definition sample_frame :: lucp_frame where
  "sample_frame = blank_frame\<lparr>magic := LUCP_MAGIC, version_major := 1, seq_num := 7,
     msgType := LUCP_MTYP_UPLOAD_REQUEST, textInfo_len := 2,
     textInfo := [104, 105] @ replicate 1008 0\<rparr>"

lemma sample_frame_valid: "valid_frame sample_frame"
  by (simp add: sample_frame_def valid_frame_def wf_frame_def lucp_consts)

text \<open>C25. Packing a frame. On a buffer with at least \<open>buflen\<close> cells, \<open>lucp_frame_pack\<close> fails
  without touching the buffer exactly when the frame does not fit or its text is longer than the
  protocol allows; otherwise it writes the frame's wire form to the front of the buffer, leaves the
  rest of the buffer alone and returns the number of bytes written, on hosts of either byte order.\<close>

theorem lucp_frame_pack_spec:
  assumes "length (textInfo f) = LUCP_MAX_TEXTINFO_LEN" "n \<le> length b"
  shows "lucp_frame_pack be (Some f) (Some b) n =
    (if n < 14 + unat (textInfo_len f) \<or> LUCP_MAX_TEXTINFO_LEN < unat (textInfo_len f)
     then (-1, Some b)
     else (int (length (wire f)), Some (wire f @ drop (length (wire f)) b)))"
proof (cases "n < 14 + unat (textInfo_len f) \<or> LUCP_MAX_TEXTINFO_LEN < unat (textInfo_len f)")
  case False
  then have "wf_frame f" using assms(1) by (simp add: wf_frame_def)
  then show ?thesis
    using False lucp_frame_pack_fits [of f n b be] assms(2) by (simp add: length_wire)
qed (simp add: lucp_frame_pack_overflow)

theorem lucp_frame_pack_spec_witness:
  "lucp_frame_pack False (Some sample_frame) (Some (replicate 20 0)) 20 =
     (16, Some ([0x4C, 0x55, 0x43, 0x50, 1, 0, 0, 0, 0, 7, 1, 0, 0, 2, 104, 105] @ replicate 4 0))
   \<and> lucp_frame_pack False (Some sample_frame) (Some (replicate 20 0)) 15 = (-1, Some (replicate 20 0))"
  using lucp_frame_pack_spec [of sample_frame 20 "replicate 20 0" False]
    lucp_frame_pack_spec [of sample_frame 15 "replicate 20 0" False]
  by (simp add: sample_frame_def blank_frame_def wire_def be32_def be16_def lucp_consts)

text \<open>C23. Round trip. A valid frame packed on one host and unpacked on another comes back with every
  header field and the text intact, and both calls report the same number of bytes, whatever the
  byte orders of the two hosts and whatever the receiving structure held before.\<close>

theorem lucp_roundtrip:
  assumes "valid_frame f" "1024 \<le> length b" "length (textInfo g) = LUCP_MAX_TEXTINFO_LEN"
  shows "\<exists>n b'. lucp_frame_pack be (Some f) (Some b) (length b) = (int n, Some b') \<and>
           lucp_frame_unpack be' (Some g) (Some b') n = (int n, Some (received f g)) \<and>
           text_of (received f g) = text_of f"
proof -
  have n: "length (wire f) \<le> 1024" "wf_frame f"
    using assms(1) length_wire_le by (auto simp: valid_frame_def)
  then have l: "length (wire f) = 14 + unat (textInfo_len f)" by (simp add: length_wire)
  have "lucp_frame_pack be (Some f) (Some b) (length b) =
      (int (length (wire f)), Some (wire f @ drop (length (wire f)) b))"
    using lucp_frame_pack_fits [OF n(2), of "length b" b be] n l assms(2) by simp
  moreover have "lucp_frame_unpack be' (Some g) (Some (wire f @ drop (length (wire f)) b))
      (length (wire f)) = (int (length (wire f)), Some (received f g))"
    by (rule lucp_frame_unpack_wire [where rest = "[]"]) (use assms in auto)
  moreover have "text_of (received f g) = text_of f"
    using n(2) by (simp add: text_of_def received_def wf_frame_def)
  ultimately show ?thesis by blast
qed

theorem lucp_roundtrip_witness:
  "\<exists>n b'. lucp_frame_pack True (Some sample_frame) (Some (replicate 1024 0)) 1024 =
            (int n, Some b') \<and>
          lucp_frame_unpack False (Some blank_frame) (Some b') n =
            (int n, Some (received sample_frame blank_frame)) \<and>
          text_of (received sample_frame blank_frame) = [104, 105]"
  using lucp_roundtrip [OF sample_frame_valid, of "replicate 1024 0" blank_frame True False]
  by (simp add: sample_frame_def text_of_def)

text \<open>C24. Soundness of unpacking. Whatever the bytes, a positive return value of
  \<open>lucp_frame_unpack\<close> means that the buffer starts with the wire form of a valid frame, that this
  frame is the one returned and that the value is its length, within the bytes received.\<close>

theorem lucp_frame_unpack_only_frames:
  assumes "lucp_frame_unpack be (Some g) (Some b) n = (k, Some f)" "0 < k" "n \<le> length b"
    "length (textInfo g) = LUCP_MAX_TEXTINFO_LEN"
  shows "valid_frame f \<and> k = int (length (wire f)) \<and> k \<le> int n \<and> take (nat k) b = wire f"
  using lucp_frame_unpack_sound [OF assms] by blast

theorem lucp_frame_unpack_only_frames_witness:
  "\<exists>f. lucp_frame_unpack True (Some blank_frame) (Some (wire sample_frame)) 16 = (16, Some f) \<and>
       valid_frame f \<and> take (nat 16) (wire sample_frame) = wire f"
proof -
  have "length (wire sample_frame) = 16"
    using sample_frame_valid by (simp add: valid_frame_def length_wire) (simp add: sample_frame_def)
  then have "lucp_frame_unpack True (Some blank_frame) (Some (wire sample_frame)) 16 =
      (16, Some (received sample_frame blank_frame))" "16 \<le> length (wire sample_frame)"
    using lucp_frame_unpack_wire [OF sample_frame_valid, of blank_frame 16 "wire sample_frame" "[]" True]
    by simp_all
  then show ?thesis
    using lucp_frame_unpack_only_frames [of True blank_frame "wire sample_frame" 16 16
        "received sample_frame blank_frame"] by auto
qed

text \<open>Making a frame. With a text of at least the announced length, \<open>lucp_frame_make\<close> gives a
  valid frame of the current version with the given sequence number, type and status, and its text
  is the given one cut to the protocol's 1010 bytes.\<close>

lemma lucp_frame_make_valid:
  assumes "length (textInfo g) = LUCP_MAX_TEXTINFO_LEN" "unat n \<le> length t"
  shows "\<exists>f. lucp_frame_make (Some g) seq mt st (Some t) n = Some f \<and> valid_frame f \<and>
     seq_num f = seq \<and> msgType f = mt \<and> status f = st \<and> version_major f = LUCP_VER_MAJOR \<and>
     text_of f = take (min (unat n) LUCP_MAX_TEXTINFO_LEN) t"
proof -
  have "unat (of_nat LUCP_MAX_TEXTINFO_LEN :: u16) = LUCP_MAX_TEXTINFO_LEN"
    by (simp add: lucp_consts unat_of_nat)
  then show ?thesis using assms
    by (auto simp: lucp_frame_make_def Let_def valid_frame_def wf_frame_def text_of_def
        put_bytes_0 min_def)
qed

lemma lucp_frame_make_valid_witness:
  "\<exists>f. lucp_frame_make (Some blank_frame) 9 LUCP_MTYP_ACK_START LUCP_STAT_FAILED
         (Some (bytes_of ''Bad version'')) 11 = Some f \<and> valid_frame f \<and> seq_num f = 9 \<and>
       msgType f = LUCP_MTYP_ACK_START \<and> status f = LUCP_STAT_FAILED \<and>
       version_major f = LUCP_VER_MAJOR \<and> text_of f = bytes_of ''Bad version''"
  using lucp_frame_make_valid [of blank_frame 11 "bytes_of ''Bad version''" 9
      LUCP_MTYP_ACK_START LUCP_STAT_FAILED]
  by (simp add: lucp_consts)

end
