(* ===== verification/Lucp_Net.thy ===== *)
theory Lucp_Net
  imports Lucp_Frame
begin

text \<open>
  The network layer of \<open>lucplib/lucp.c\<close>: \<open>lucp_net_ctx_t\<close>, \<open>lucp_net_ctx_init\<close>, \<open>full_write\<close>,
  \<open>lucp_net_send\<close>, \<open>lucp_net_recv\<close> and \<open>lucp_net_send_with_retries\<close>.

  The connected socket is the record \<open>sock\<close>: the events that the calls to \<open>read\<close>, \<open>write\<close> and
  \<open>select\<close> still have to deliver, and the bytes written so far. A \<open>read\<close> event is one of the four
  things the call can do; a data event longer than the space asked for leaves its rest for the next
  call, as a stream socket does. A call that finds no event left blocks for ever: the functions
  return \<open>None\<close> then, so \<open>Some\<close> means that the C function returned. \<open>delivered\<close> is the byte stream
  behind a list of read events, \<open>pending\<close> the bytes the context has buffered.
\<close>

section \<open>The socket\<close>

datatype rd_event = Rd_Eintr | Rd_Error | Rd_Eof | Rd_Data "byte list"
datatype wr_event = Wr_Eintr | Wr_Error | Wr_Accept nat
datatype sel_event = Sel_Ready | Sel_Timeout | Sel_Eintr bool | Sel_Error

record sock =
  rx :: "rd_event list"
  wr :: "wr_event list"
  sel :: "sel_event list"
  tx :: "byte list"

record net_ctx =
  fd :: int
  rbuf :: "byte list"
  rbuf_len :: nat

abbreviation RBUF_SIZE :: nat where "RBUF_SIZE \<equiv> 2048"

fun rd_size :: "rd_event \<Rightarrow> nat" where
  "rd_size (Rd_Data bs) = Suc (length bs)"
| "rd_size _ = 1"

fun delivered :: "rd_event list \<Rightarrow> byte list" where
  "delivered [] = []"
| "delivered (Rd_Data bs # es) = bs @ delivered es"
| "delivered (_ # es) = delivered es"

lemma delivered_append [simp]: "delivered (es @ es') = delivered es @ delivered es'"
  by (induction es rule: delivered.induct) simp_all

fun quiet_event :: "rd_event \<Rightarrow> bool" where
  "quiet_event (Rd_Data bs) \<longleftrightarrow> bs \<noteq> []"
| "quiet_event Rd_Eintr \<longleftrightarrow> True"
| "quiet_event _ \<longleftrightarrow> False"

abbreviation quiet :: "rd_event list \<Rightarrow> bool" where
  "quiet \<equiv> list_all quiet_event"

section \<open>Context, write, send\<close>

definition lucp_net_ctx_init :: "net_ctx option \<Rightarrow> int \<Rightarrow> net_ctx option" where
  "lucp_net_ctx_init ctx f =
     map_option (\<lambda>c. c\<lparr>fd := f, rbuf_len := 0, rbuf := replicate RBUF_SIZE 0\<rparr>) ctx"

fun full_write_loop ::
  "byte list \<Rightarrow> nat \<Rightarrow> wr_event list \<Rightarrow> byte list \<Rightarrow> (int \<times> wr_event list \<times> byte list) option" where
  "full_write_loop buf written es out =
     (if written < length buf then
        (case es of
           [] \<Rightarrow> None
         | Wr_Eintr # es' \<Rightarrow> full_write_loop buf written es' out
         | Wr_Error # es' \<Rightarrow> Some (-1, es', out)
         | Wr_Accept k # es' \<Rightarrow>
             let n = min k (length buf - written) in
             if n = 0 then Some (-1, es', out)
             else full_write_loop buf (written + n) es' (out @ take n (drop written buf)))
      else Some (0, es, out))"

declare full_write_loop.simps [simp del]

definition full_write :: "byte list \<Rightarrow> sock \<Rightarrow> (int \<times> sock) option" where
  "full_write buf s =
     map_option (\<lambda>(r, es, out). (r, s\<lparr>wr := es, tx := out\<rparr>)) (full_write_loop buf 0 (wr s) (tx s))"

text \<open>The local buffer of \<open>lucp_net_send\<close> is not initialised; only the cells that
  \<open>lucp_frame_pack\<close> wrote are read (\<open>lucp_frame_pack_fits\<close>).\<close>

definition lucp_net_send ::
  "bool \<Rightarrow> net_ctx option \<Rightarrow> lucp_frame option \<Rightarrow> sock \<Rightarrow> (int \<times> sock) option" where
  "lucp_net_send be ctx frame s =
     (case (ctx, frame) of
        (Some c, Some f) \<Rightarrow>
          (case lucp_frame_pack be (Some f) (Some (replicate (14 + LUCP_MAX_TEXTINFO_LEN) 0))
                  (14 + LUCP_MAX_TEXTINFO_LEN) of
             (len, Some buf) \<Rightarrow>
               if len < 0 then Some (-1, s)
               else (case full_write (take (nat len) buf) s of
                       None \<Rightarrow> None
                     | Some (r, s') \<Rightarrow> if r < 0 then Some (-1, s') else Some (0, s'))
           | (len, None) \<Rightarrow> Some (-1, s))
      | _ \<Rightarrow> Some (-1, s))"

section \<open>Receive\<close>

text \<open>Moving the bytes behind a parsed frame to the front of the buffer.\<close>

definition consume :: "net_ctx \<Rightarrow> nat \<Rightarrow> net_ctx" where
  "consume c parsed =
     (let remain = rbuf_len c - parsed;
          buf = (if 0 < remain then put_bytes 0 (take remain (drop parsed (rbuf c))) (rbuf c)
                 else rbuf c)
      in c\<lparr>rbuf := buf, rbuf_len := remain\<rparr>)"

text \<open>What a \<open>read\<close> of \<open>got\<close> does to the context.\<close>

definition fill :: "net_ctx \<Rightarrow> byte list \<Rightarrow> net_ctx" where
  "fill c got = c\<lparr>rbuf := put_bytes (rbuf_len c) got (rbuf c),
                  rbuf_len := rbuf_len c + length got\<rparr>"

function recv_loop ::
  "bool \<Rightarrow> rd_event list \<Rightarrow> net_ctx \<Rightarrow> lucp_frame \<Rightarrow>
   (int \<times> net_ctx \<times> lucp_frame \<times> rd_event list) option" where
  "recv_loop be es c f =
     (case es of
        [] \<Rightarrow> None
      | Rd_Eintr # es' \<Rightarrow> recv_loop be es' c f
      | Rd_Error # es' \<Rightarrow> Some (-1, c, f, es')
      | Rd_Eof # es' \<Rightarrow> Some (-1, c, f, es)
      | Rd_Data bs # es' \<Rightarrow>
          let cap = RBUF_SIZE - rbuf_len c;
              got = take cap bs;
              es'' = (if length bs \<le> cap then es' else Rd_Data (drop cap bs) # es')
          in if got = [] then Some (-1, c, f, es)
             else
               let c' = fill c got
               in if RBUF_SIZE < rbuf_len c' then Some (-1, c'\<lparr>rbuf_len := 0\<rparr>, f, es'')
                  else
                    (case lucp_frame_unpack be (Some f) (Some (rbuf c')) (rbuf_len c') of
                       (parsed, Some f') \<Rightarrow>
                         if 0 < parsed then Some (0, consume c' (nat parsed), f', es'')
                         else if parsed < 0 then Some (-1, c'\<lparr>rbuf_len := 0\<rparr>, f', es'')
                         else recv_loop be es'' c' f'
                     | (parsed, None) \<Rightarrow> Some (-1, c', f, es'')))"
  by pat_completeness auto
termination
  by (relation "measure (\<lambda>(be, es, c, f). sum_list (map rd_size es))") (auto split: if_splits)

declare recv_loop.simps [simp del]

lemma recv_loop_rules [simp]:
  "recv_loop be [] c f = None"
  "recv_loop be (Rd_Eintr # es) c f = recv_loop be es c f"
  "recv_loop be (Rd_Error # es) c f = Some (-1, c, f, es)"
  "recv_loop be (Rd_Eof # es) c f = Some (-1, c, f, Rd_Eof # es)"
  "recv_loop be (Rd_Data [] # es) c f = Some (-1, c, f, Rd_Data [] # es)"
  by (simp_all add: recv_loop.simps [of be "_ # _"] recv_loop.simps [of be "[]"] Let_def)

definition lucp_net_recv ::
  "bool \<Rightarrow> net_ctx option \<Rightarrow> lucp_frame option \<Rightarrow> sock \<Rightarrow>
   (int \<times> net_ctx option \<times> lucp_frame option \<times> sock) option" where
  "lucp_net_recv be ctx frame s =
     (case (ctx, frame) of
        (Some c, Some f) \<Rightarrow>
          (case lucp_frame_unpack be (Some f) (Some (rbuf c)) (rbuf_len c) of
             (parsed, Some f') \<Rightarrow>
               if 0 < parsed then Some (0, Some (consume c (nat parsed)), Some f', s)
               else if parsed < 0 then Some (-1, Some (c\<lparr>rbuf_len := 0\<rparr>), Some f', s)
               else map_option (\<lambda>(r, c', f'', es). (r, Some c', Some f'', s\<lparr>rx := es\<rparr>))
                      (recv_loop be (rx s) c f')
           | (parsed, None) \<Rightarrow> Some (-1, ctx, frame, s))
      | _ \<Rightarrow> Some (-1, ctx, frame, s))"

section \<open>Send and wait for the reply\<close>

text \<open>The body of the retry loop for the remaining attempts. The time-out argument only reaches
  \<open>select\<close>; what the call answers is an event of the socket. When \<open>select\<close> is interrupted the
  code goes on to look at the descriptor set, whose content is the argument of \<open>Sel_Eintr\<close>.\<close>

fun retry_loop ::
  "bool \<Rightarrow> nat \<Rightarrow> net_ctx \<Rightarrow> lucp_frame \<Rightarrow> lucp_frame \<Rightarrow> byte \<Rightarrow> sock \<Rightarrow>
   (int \<times> net_ctx option \<times> lucp_frame option \<times> sock) option" where
  "retry_loop be 0 c f r cmd s = Some (-1, Some c, Some r, s)"
| "retry_loop be (Suc n) c f r cmd s =
     (case lucp_net_send be (Some c) (Some f) s of
        None \<Rightarrow> None
      | Some (rc, s1) \<Rightarrow>
          if rc < 0 then retry_loop be n c f r cmd s1
          else
            (case sel s1 of
               [] \<Rightarrow> None
             | ev # evs \<Rightarrow>
                 let s2 = s1\<lparr>sel := evs\<rparr> in
                 if ev = Sel_Ready \<or> ev = Sel_Eintr True then
                   (case lucp_net_recv be (Some c) (Some r) s2 of
                      Some (rc, Some c', Some r', s3) \<Rightarrow>
                        if rc = 0 \<and> msgType r' = cmd \<and> seq_num r' = seq_num f
                        then Some (0, Some c', Some r', s3)
                        else retry_loop be n c' f r' cmd s3
                    | _ \<Rightarrow> None)
                 else retry_loop be n c f r cmd s2))"

definition lucp_net_send_with_retries ::
  "bool \<Rightarrow> net_ctx option \<Rightarrow> lucp_frame option \<Rightarrow> lucp_frame option \<Rightarrow> byte \<Rightarrow> int \<Rightarrow> sock \<Rightarrow>
   (int \<times> net_ctx option \<times> lucp_frame option \<times> sock) option" where
  "lucp_net_send_with_retries be ctx frame reply expect_cmd n_retries s =
     (case (ctx, frame, reply) of
        (Some c, Some f, Some r) \<Rightarrow> retry_loop be (nat n_retries) c f r expect_cmd s
      | _ \<Rightarrow> Some (-1, ctx, reply, s))"

section \<open>Reassembly\<close>

text \<open>The context's invariant and the bytes it holds.\<close>

definition net_inv :: "net_ctx \<Rightarrow> bool" where
  "net_inv c \<longleftrightarrow> length (rbuf c) = RBUF_SIZE \<and> rbuf_len c \<le> RBUF_SIZE"

definition pending :: "net_ctx \<Rightarrow> byte list" where
  "pending c = take (rbuf_len c) (rbuf c)"

lemma length_pending: "net_inv c \<Longrightarrow> length (pending c) = rbuf_len c"
  by (simp add: net_inv_def pending_def)

lemma consume_inv: "net_inv c \<Longrightarrow> net_inv (consume c n)"
  by (auto simp: net_inv_def consume_def Let_def)

lemma consume_pending: "net_inv c \<Longrightarrow> pending (consume c n) = drop n (pending c)"
  by (auto simp: net_inv_def consume_def Let_def pending_def put_bytes_0 drop_take)

lemma init_inv: "lucp_net_ctx_init (Some c) f = Some c' \<Longrightarrow> net_inv c' \<and> pending c' = []"
  by (auto simp: lucp_net_ctx_init_def net_inv_def pending_def)

lemma fill_inv: "net_inv c \<Longrightarrow> length got \<le> RBUF_SIZE - rbuf_len c \<Longrightarrow> net_inv (fill c got)"
  by (auto simp: net_inv_def fill_def)

lemma fill_pending: "net_inv c \<Longrightarrow> length got \<le> RBUF_SIZE - rbuf_len c \<Longrightarrow> pending (fill c got) = pending c @ got"
  by (auto simp: net_inv_def fill_def pending_def put_bytes_def)

lemma unpack_frame: "\<exists>k h. lucp_frame_unpack be (Some f) (Some b) n = (k, Some h)"
  by (simp add: lucp_frame_unpack_def Let_def)

lemma unpack_Some: "\<exists>k f'. lucp_frame_unpack be (Some f) (Some b) n = (k, Some f') \<and> 
    length (textInfo f') = length (textInfo f)" if "n \<le> length b" "length (textInfo f) = LUCP_MAX_TEXTINFO_LEN"
  using that by (auto simp: lucp_frame_unpack_def Let_def)

text \<open>A header alone decides; an incomplete frame is shorter than the longest frame.\<close>

lemma unpack_zero_short:
  assumes "lucp_frame_unpack be (Some f) (Some b) n = (0, Some f')"
  shows "n < 1024"
  using assms
  by (auto simp: lucp_frame_unpack_def Let_def lucp_consts simp del: of_nat_add split: if_splits)

text \<open>What one \<open>read\<close> takes of an event's bytes, and the events it leaves.\<close>

definition read_got :: "net_ctx \<Rightarrow> byte list \<Rightarrow> byte list" where
  "read_got c bs = take (RBUF_SIZE - rbuf_len c) bs"

definition read_left :: "net_ctx \<Rightarrow> byte list \<Rightarrow> rd_event list \<Rightarrow> rd_event list" where
  "read_left c bs es = (if length bs \<le> RBUF_SIZE - rbuf_len c then es else Rd_Data (drop (RBUF_SIZE - rbuf_len c) bs) # es)"

lemma read_left_facts:
  "delivered (read_left c bs es) = drop (RBUF_SIZE - rbuf_len c) bs @ delivered es"
  "quiet es \<Longrightarrow> quiet (read_left c bs es)"
  "read_got c bs \<noteq> [] \<Longrightarrow> sum_list (map rd_size (read_left c bs es)) < sum_list (map rd_size (Rd_Data bs # es))"
  "rbuf_len (fill c (read_got c bs)) + sum_list (map rd_size (read_left c bs es)) \<le>
     rbuf_len c + sum_list (map rd_size (Rd_Data bs # es))"
  "e = Rd_Eof \<or> e = Rd_Error \<Longrightarrow> e \<in> set (read_left c bs es) \<longleftrightarrow> e \<in> set es"
  by (auto simp: read_left_def read_got_def fill_def)

lemma recv_loop_full: "read_got c bs = [] \<Longrightarrow> recv_loop be (Rd_Data bs # es) c g = Some (-1, c, g, Rd_Data bs # es)"
  by (simp add: recv_loop.simps [of be "_ # _"] Let_def read_got_def)

lemma recv_loop_data:
  assumes "read_got c bs \<noteq> []"
  shows "recv_loop be (Rd_Data bs # es) c g =
     (if RBUF_SIZE < rbuf_len (fill c (read_got c bs))
      then Some (-1, (fill c (read_got c bs))\<lparr>rbuf_len := 0\<rparr>, g, read_left c bs es)
      else
        (case lucp_frame_unpack be (Some g) (Some (rbuf (fill c (read_got c bs)))) (rbuf_len (fill c (read_got c bs))) of
           (parsed, Some f) \<Rightarrow>
             if 0 < parsed then Some (0, consume (fill c (read_got c bs)) (nat parsed), f, read_left c bs es)
             else if parsed < 0 then Some (-1, (fill c (read_got c bs))\<lparr>rbuf_len := 0\<rparr>, f, read_left c bs es)
             else recv_loop be (read_left c bs es) (fill c (read_got c bs)) f
         | (parsed, None) \<Rightarrow> Some (-1, fill c (read_got c bs), g, read_left c bs es)))"
  using assms by (simp only: recv_loop.simps [of be "Rd_Data bs # es"] list.case rd_event.case Let_def
      read_got_def [symmetric] read_left_def [symmetric] if_False)

text \<open>The facts of a read into a context with room.\<close>

lemma read_into:
  assumes "net_inv c" "rbuf_len c < RBUF_SIZE"
  shows "net_inv (fill c (read_got c bs))" "\<not> RBUF_SIZE < rbuf_len (fill c (read_got c bs))"
    "bs \<noteq> [] \<Longrightarrow> read_got c bs \<noteq> []"
    "pending (fill c (read_got c bs)) @ delivered (read_left c bs es) = pending c @ delivered (Rd_Data bs # es)"
proof -
  have l: "length (read_got c bs) \<le> RBUF_SIZE - rbuf_len c" by (simp add: read_got_def)
  show "net_inv (fill c (read_got c bs))" by (rule fill_inv [OF assms(1) l])
  show "\<not> RBUF_SIZE < rbuf_len (fill c (read_got c bs))" using l assms(2) unfolding fill_def by simp
  show "read_got c bs \<noteq> []" if "bs \<noteq> []" using that assms(2) by (simp add: read_got_def)
  show "pending (fill c (read_got c bs)) @ delivered (read_left c bs es) = pending c @ delivered (Rd_Data bs # es)"
    by (simp add: fill_pending [OF assms(1) l] read_left_facts) (simp add: read_got_def)
qed

text \<open>Induction over a run of the loop that returns. The result is fixed: only the events, the context and
  the frame change from turn to turn.\<close>

lemma recv_loop_run [consumes 1, case_names intr stop fail frame more]:
  assumes "recv_loop be es c g = Some (r, c', g', es')"
    and intr: "\<And>es c g. P es c g \<Longrightarrow> P (Rd_Eintr # es) c g"
    and stop: "\<And>e es. r = -1 \<Longrightarrow> P (e # es) c' g'"
    and fail: "\<And>bs es c g. read_got c bs \<noteq> [] \<Longrightarrow> r = -1 \<Longrightarrow> c' = (fill c (read_got c bs))\<lparr>rbuf_len := 0\<rparr> \<Longrightarrow>
        g' = g \<or> (\<exists>k. lucp_frame_unpack be (Some g) (Some (rbuf (fill c (read_got c bs)))) (rbuf_len (fill c (read_got c bs))) =
          (k, Some g')) \<Longrightarrow> P (Rd_Data bs # es) c g"
    and frame: "\<And>bs es c g k. read_got c bs \<noteq> [] \<Longrightarrow>
        lucp_frame_unpack be (Some g) (Some (rbuf (fill c (read_got c bs)))) (rbuf_len (fill c (read_got c bs))) = (k, Some g') \<Longrightarrow>
        0 < k \<Longrightarrow> r = 0 \<Longrightarrow> c' = consume (fill c (read_got c bs)) (nat k) \<Longrightarrow> es' = read_left c bs es \<Longrightarrow>
        \<not> RBUF_SIZE < rbuf_len (fill c (read_got c bs)) \<Longrightarrow>
        P (Rd_Data bs # es) c g"
    and more: "\<And>bs es c g f. read_got c bs \<noteq> [] \<Longrightarrow>
        lucp_frame_unpack be (Some g) (Some (rbuf (fill c (read_got c bs)))) (rbuf_len (fill c (read_got c bs))) = (0, Some f) \<Longrightarrow>
        \<not> RBUF_SIZE < rbuf_len (fill c (read_got c bs)) \<Longrightarrow>
        P (read_left c bs es) (fill c (read_got c bs)) f \<Longrightarrow> P (Rd_Data bs # es) c g"
  shows "P es c g"
  using assms(1)
proof (induction "sum_list (map rd_size es)" arbitrary: es c g rule: less_induct)
  case less
  then obtain e es1 where es: "es = e # es1" by (cases es) auto
  show ?case
  proof (cases e)
    case Rd_Eintr
    then show ?thesis using less es intr by simp
  next
    case Rd_Error
    then show ?thesis using less.prems es stop by auto
  next
    case Rd_Eof
    then show ?thesis using less.prems es stop by auto
  next
    case (Rd_Data bs)
    show ?thesis
    proof (cases "read_got c bs = []")
      case True
      then show ?thesis using less.prems es Rd_Data stop by (auto simp: recv_loop_full)
    next
      case got: False
      let ?c = "fill c (read_got c bs)"
      obtain k h where u: "lucp_frame_unpack be (Some g) (Some (rbuf ?c)) (rbuf_len ?c) = (k, Some h)"
        using unpack_frame by blast
      note eq = less.prems [unfolded es Rd_Data recv_loop_data [OF got] u prod.case option.case]
      consider "RBUF_SIZE < rbuf_len ?c" | "\<not> RBUF_SIZE < rbuf_len ?c" "0 < k"
        | "\<not> RBUF_SIZE < rbuf_len ?c" "k < 0" | "\<not> RBUF_SIZE < rbuf_len ?c" "k = 0" by linarith
      then show ?thesis
      proof cases
        case 4
        then have "recv_loop be (read_left c bs es1) ?c h = Some (r, c', g', es')" using eq by simp
        moreover have "sum_list (map rd_size (read_left c bs es1)) < sum_list (map rd_size es)"
          using read_left_facts(3) [OF got] es Rd_Data by simp
        ultimately have "P (read_left c bs es1) ?c h" using less.hyps by blast
        then show ?thesis using more got u 4 es Rd_Data by simp
      qed (use eq got u fail [of c bs g es1] frame [of c bs g k es1] es Rd_Data in auto)
    qed
  qed
qed

lemma wire_split:
  assumes "p @ d = wire f @ rest"
  obtains (whole) r where "p = wire f @ r" "r @ d = rest"
    | (part) s where "s \<noteq> []" "p @ s = wire f" "d = s @ rest"
  using assms by (auto simp: append_eq_append_conv2) (metis append_Nil2 append_self_conv)

lemma unpack_pending:
  assumes "net_inv c" "valid_frame f" "length (textInfo g) = LUCP_MAX_TEXTINFO_LEN"
  shows "pending c = wire f @ r \<Longrightarrow>
     lucp_frame_unpack be (Some g) (Some (rbuf c)) (rbuf_len c) =
       (int (length (wire f)), Some (received f g))"
    and "pending c @ s = wire f \<Longrightarrow> s \<noteq> [] \<Longrightarrow>
     \<exists>g'. lucp_frame_unpack be (Some g) (Some (rbuf c)) (rbuf_len c) = (0, Some g') \<and>
          textInfo g' = textInfo g"
  using assms lucp_frame_unpack_wire [of f g "rbuf_len c" "rbuf c" r be]
    lucp_frame_unpack_partial [of f g "rbuf_len c" "rbuf c" s be]
  by (auto simp: net_inv_def pending_def)

lemma received_cong: "textInfo g' = textInfo g \<Longrightarrow> received f g' = received f g"
  by (simp add: received_def)

lemma recv_loop_frame:
  assumes "net_inv c" "valid_frame f" "length (textInfo g) = LUCP_MAX_TEXTINFO_LEN" "quiet es"
    "pending c @ s = wire f" "s \<noteq> []" "delivered es = s @ rest"
  shows "\<exists>c' es'. recv_loop be es c g = Some (0, c', received f g, es') \<and> net_inv c' \<and> quiet es' \<and>
           pending c' @ delivered es' = rest"
  using assms
proof (induction "sum_list (map rd_size es)" arbitrary: es c g s rule: less_induct)
  case less
  note inv = less.prems(1) and f = less.prems(2) and g = less.prems(3) and q = less.prems(4)
    and s = less.prems(5,6,7)
  show ?case
  proof (cases es)
    case Nil
    then show ?thesis using s by simp
  next
    case (Cons e es1)
    show ?thesis
    proof (cases e)
      case Rd_Eintr
      then have "\<exists>c' es'. recv_loop be es1 c g = Some (0, c', received f g, es') \<and> net_inv c' \<and>
          quiet es' \<and> pending c' @ delivered es' = rest"
        using less.hyps [of es1 c g s] Cons less.prems by simp
      then show ?thesis using Rd_Eintr Cons by simp
    next
      case (Rd_Data bs)
      let ?c = "fill c (read_got c bs)" and ?es = "read_left c bs es1"
      have len: "rbuf_len c < RBUF_SIZE"
        using arg_cong [OF s(1), of length] length_wire_le [of f] f length_pending [OF inv]
        by (simp add: valid_frame_def)
      note d = read_into [OF inv len, of bs]
      have got: "read_got c bs \<noteq> []" using q Cons Rd_Data d(3) by simp
      note eq = recv_loop_data [OF got, of be es1 g]
      have st: "pending ?c @ delivered ?es = wire f @ rest" using s d(4) Cons Rd_Data by simp
      have q': "quiet ?es" using q Cons by (simp add: read_left_facts(2))
      from st show ?thesis
      proof (cases rule: wire_split)
        case (whole r)
        then show ?thesis
          using unpack_pending(1) [OF d(1) f g whole(1), of be] eq Cons Rd_Data q' d(2)
            consume_inv [OF d(1)] consume_pending [OF d(1)] by (simp add: wire_header)
      next
        case (part s')
        obtain g' where g': "lucp_frame_unpack be (Some g) (Some (rbuf ?c)) (rbuf_len ?c) = (0, Some g')" "textInfo g' = textInfo g"
          using unpack_pending(2) [OF d(1) f g part(2,1)] by blast
        have "\<exists>c' es''. recv_loop be ?es ?c g' = Some (0, c', received f g', es'') \<and>
            net_inv c' \<and> quiet es'' \<and> pending c' @ delivered es'' = rest"
          by (rule less.hyps [of ?es ?c g' s'])
            (use read_left_facts(3) [OF got] Cons Rd_Data d f g g' q' part in simp_all)
        then show ?thesis using eq Cons Rd_Data g' d(2) received_cong [OF g'(2)] by simp
      qed
    qed (use q Cons in simp_all)
  qed
qed

lemma lucp_net_recv_frame:
  assumes "net_inv c" "valid_frame f" "length (textInfo g) = LUCP_MAX_TEXTINFO_LEN" "quiet (rx s)"
    "pending c @ delivered (rx s) = wire f @ rest"
  shows "\<exists>c' es. lucp_net_recv be (Some c) (Some g) s = Some (0, Some c', Some (received f g), s\<lparr>rx := es\<rparr>) \<and> 
           net_inv c' \<and> quiet es \<and> pending c' @ delivered es = rest"
  using assms(5)
proof (cases rule: wire_split)
  case (whole r)
  then show ?thesis
    using unpack_pending(1) [OF assms(1-3) whole(1), of be] consume_inv [OF assms(1)]
      consume_pending [OF assms(1)] assms(4)
    by (auto simp: lucp_net_recv_def wire_header intro!: exI [of _ "rx s"])
next
  case (part s')
  obtain g' where g': "lucp_frame_unpack be (Some g) (Some (rbuf c)) (rbuf_len c) = (0, Some g')"
      "textInfo g' = textInfo g"
    using unpack_pending(2) [OF assms(1-3) part(2,1)] by blast
  obtain c' es' where "recv_loop be (rx s) c g' = Some (0, c', received f g', es')" "net_inv c'"
      "quiet es'" "pending c' @ delivered es' = rest"
    using recv_loop_frame [of c f g' "rx s" s' rest be] assms part g' by auto
  then show ?thesis using g' received_cong [OF g'(2)] by (auto simp: lucp_net_recv_def)
qed

section \<open>Sending\<close>

lemma full_write_loop_rules [simp]:
  "\<not> w < length buf \<Longrightarrow> full_write_loop buf w es out = Some (0, es, out)"
  "w < length buf \<Longrightarrow> full_write_loop buf w [] out = None"
  "w < length buf \<Longrightarrow> full_write_loop buf w (Wr_Eintr # es) out = full_write_loop buf w es out"
  "w < length buf \<Longrightarrow> full_write_loop buf w (Wr_Error # es) out = Some (-1, es, out)"
  "w < length buf \<Longrightarrow> full_write_loop buf w (Wr_Accept k # es) out =
     (if k = 0 then Some (-1, es, out)
      else full_write_loop buf (w + min k (length buf - w)) es
             (out @ take (min k (length buf - w)) (drop w buf)))"
  by (auto simp: full_write_loop.simps [of buf w] Let_def min_def)

lemma full_write_loop_result:
  "full_write_loop buf w es out = Some (r, es', out') \<Longrightarrow> w \<le> length buf \<Longrightarrow>
     (r = 0 \<and> out' = out @ drop w buf) \<or>
     (r = -1 \<and> (\<exists>m. w + m < length buf \<and> out' = out @ take m (drop w buf)))"
proof (induction es arbitrary: w out)
  case Nil
  then show ?case by (cases "w < length buf") auto
next
  case (Cons e es)
  show ?case
  proof (cases "w < length buf")
    case False
    then show ?thesis using Cons.prems by simp
  next
    case True
    show ?thesis
    proof (cases e)
      case (Wr_Accept k)
      let ?n = "min k (length buf - w)"
      show ?thesis
      proof (cases "k = 0")
        case False
        have cut: "take ?n (drop w buf) @ take m (drop (w + ?n) buf) = take (?n + m) (drop w buf)" for m
          by (simp only: take_add [of ?n m "drop w buf"] drop_drop [of ?n w buf] add.commute [of w ?n])
        have cut': "take ?n (drop w buf) @ drop (w + ?n) buf = drop w buf"
          by (metis append_take_drop_id drop_drop add.commute)
        have "full_write_loop buf (w + ?n) es (out @ take ?n (drop w buf)) = Some (r, es', out')"
          using Cons.prems True False Wr_Accept by simp
        then have "(r = 0 \<and> out' = (out @ take ?n (drop w buf)) @ drop (w + ?n) buf) \<or>
            (r = -1 \<and> (\<exists>m. w + ?n + m < length buf \<and>
               out' = (out @ take ?n (drop w buf)) @ take m (drop (w + ?n) buf)))"
          using True by (intro Cons.IH) auto
        then show ?thesis using cut cut'
          by (metis append.assoc add.assoc)
      qed (use Cons.prems True Wr_Accept in \<open>auto intro!: exI [of _ 0]\<close>)
    qed (use Cons True in \<open>auto intro!: exI [of _ 0]\<close>)
  qed
qed

text \<open>Each accepting event writes at least a byte.\<close>

fun progress :: "wr_event \<Rightarrow> bool" where
  "progress (Wr_Accept k) \<longleftrightarrow> 0 < k"
| "progress Wr_Eintr \<longleftrightarrow> True"
| "progress Wr_Error \<longleftrightarrow> False"

definition accepts :: "wr_event list \<Rightarrow> nat" where
  "accepts es = length (filter (\<lambda>e. e \<noteq> Wr_Eintr) es)"

lemma full_write_loop_completes:
  "list_all progress es \<Longrightarrow> length buf - w \<le> accepts es \<Longrightarrow>
     \<exists>es' out'. full_write_loop buf w es out = Some (0, es', out')
        \<and> list_all progress es' \<and> accepts es - accepts es' \<le> length buf - w"
proof (induction es arbitrary: w out)
  case Nil
  then show ?case by (simp add: accepts_def)
next
  case (Cons e es)
  show ?case
  proof (cases "w < length buf")
    case False
    then show ?thesis using Cons.prems by simp
  next
    case True
    show ?thesis
    proof (cases e)
      case (Wr_Accept k)
      let ?n = "min k (length buf - w)"
      have k: "0 < ?n" using Cons.prems Wr_Accept True by simp
      moreover have "length buf - w \<le> Suc (accepts es)"
        using Cons.prems(2) Wr_Accept by (simp add: accepts_def)
      ultimately have "length buf - (w + ?n) \<le> accepts es" by linarith
      then obtain es' out' where "full_write_loop buf (w + ?n) es (out @ take ?n (drop w buf)) =
          Some (0, es', out')" "list_all progress es'" "accepts es - accepts es' \<le> length buf - (w + ?n)"
        using Cons.IH [of "w + ?n" "out @ take ?n (drop w buf)"] Cons.prems by auto
      then show ?thesis using True k Wr_Accept
        by (auto simp: accepts_def)
    qed (use Cons True in \<open>auto simp: accepts_def\<close>)
  qed
qed

lemma full_write_loop_progress:
  "full_write_loop buf w es out = Some (r, es', out') \<Longrightarrow> list_all progress es \<Longrightarrow>
     r = 0 \<and> list_all progress es'"
proof (induction es arbitrary: w out)
  case Nil
  then show ?case by (cases "w < length buf") auto
next
  case (Cons e es)
  then show ?case by (cases "w < length buf"; cases e) auto
qed

lemma lucp_net_send_wf:
  assumes "wf_frame f"
  shows "lucp_net_send be (Some c) (Some f) s =
     map_option (\<lambda>(r, s'). (if r < 0 then -1 else 0, s')) (full_write (wire f) s)"
proof -
  have l: "length (wire f) = 14 + unat (textInfo_len f)" "length (wire f) \<le> 1024"
    using assms length_wire length_wire_le by auto
  then show ?thesis
    using lucp_frame_pack_fits [OF assms, of "14 + LUCP_MAX_TEXTINFO_LEN"
        "replicate (14 + LUCP_MAX_TEXTINFO_LEN) 0" be]
    by (auto simp: lucp_net_send_def lucp_consts simp flip: l(1) split: option.split)
qed

lemma lucp_net_send_result:
  assumes "lucp_net_send be (Some c) (Some f) s = Some (r, s')" "length (textInfo f) = LUCP_MAX_TEXTINFO_LEN"
  shows "rx s' = rx s \<and> sel s' = sel s \<and> (r = 0 \<and> wf_frame f \<and> tx s' = tx s @ wire f \<or>
     r = -1 \<and> (\<exists>p. strict_prefix p (wire f) \<and> tx s' = tx s @ p))"
proof (cases "wf_frame f")
  case True
  then obtain r0 es out where w: "full_write_loop (wire f) 0 (wr s) (tx s) = Some (r0, es, out)"
     "s' = s\<lparr>wr := es, tx := out\<rparr>" "r = (if r0 < 0 then -1 else 0)"
    using assms by (auto simp: lucp_net_send_wf full_write_def)
  from full_write_loop_result [OF w(1)] consider "r0 = 0" "out = tx s @ wire f"
    | m where "r0 = -1" "m < length (wire f)" "out = tx s @ take m (wire f)" by auto
  then show ?thesis
  proof cases
    case 2
    then have "strict_prefix (take m (wire f)) (wire f)"
      by (metis length_take min.strict_order_iff min.commute nat_neq_iff strict_prefix_def take_is_prefix)
    then show ?thesis using w 2 by auto
  qed (use True w in auto)
next
  case False
  then have "r = -1 \<and> s' = s"
    using assms lucp_frame_pack_overflow [of "14 + LUCP_MAX_TEXTINFO_LEN" f be] 
    by (auto simp: lucp_net_send_def wf_frame_def)
  then show ?thesis by (auto simp: wire_header header_def be32_def)
qed

lemma lucp_net_send_progress:
  assumes "lucp_net_send be (Some c) (Some f) s = Some (r, s')" "wf_frame f" "list_all progress (wr s)"
  shows "tx s' = tx s @ wire f \<and> list_all progress (wr s')"
proof -
  obtain r0 es out where w: "full_write_loop (wire f) 0 (wr s) (tx s) = Some (r0, es, out)" "s' = s\<lparr>wr := es, tx := out\<rparr>"
    using assms(1,2) by (auto simp: lucp_net_send_wf full_write_def)
  have "r0 = 0 \<and> list_all progress es" by (rule full_write_loop_progress [OF w(1) assms(3)])
  then show ?thesis using full_write_loop_result [OF w(1)] w(2) by simp
qed

section \<open>Streams of frames\<close>

fun send_frames :: "bool \<Rightarrow> net_ctx \<Rightarrow> lucp_frame list \<Rightarrow> sock \<Rightarrow> (int \<times> sock) option" where
  "send_frames be c [] s = Some (0, s)"
| "send_frames be c (f # fs) s =
     (case lucp_net_send be (Some c) (Some f) s of
        None \<Rightarrow> None
      | Some (r, s') \<Rightarrow> if r < 0 then Some (r, s') else send_frames be c fs s')"

fun recv_frames ::
  "bool \<Rightarrow> nat \<Rightarrow> net_ctx option \<Rightarrow> lucp_frame option \<Rightarrow> sock \<Rightarrow> (lucp_frame list \<times> net_ctx option \<times> sock) option" where
  "recv_frames be 0 c g s = Some ([], c, s)"
| "recv_frames be (Suc n) c g s =
     (case lucp_net_recv be c g s of
        Some (r, c', Some h, s') \<Rightarrow>
          if r = 0 then map_option (\<lambda>(hs, c'', s''). (h # hs, c'', s'')) (recv_frames be n c' (Some h) s')
          else Some ([], c', s')
      | _ \<Rightarrow> None)"

lemma received_valid:
  assumes "valid_frame f" "length (textInfo g) = LUCP_MAX_TEXTINFO_LEN"
  shows "valid_frame (received f g)" "wire (received f g) = wire f" "text_of (received f g) = text_of f"
    "length (textInfo (received f g)) = LUCP_MAX_TEXTINFO_LEN" "msgType (received f g) = msgType f"
    "status (received f g) = status f" "seq_num (received f g) = seq_num f" 
    "version_major (received f g) = version_major f"
  using assms by (auto simp: valid_frame_def wf_frame_def received_def wire_def text_of_def)

lemma send_frames_result:
  assumes "send_frames be c fs s = Some (0, s')" "list_all valid_frame fs"
  shows "tx s' = tx s @ concat (map wire fs)"
  using assms
proof (induction fs arbitrary: s)
  case (Cons f fs)
  then obtain r s1 where s1: "lucp_net_send be (Some c) (Some f) s = Some (r, s1)"
    by (auto split: option.splits)
  have l: "length (textInfo f) = LUCP_MAX_TEXTINFO_LEN" using Cons.prems(2) by (simp add: valid_frame_def wf_frame_def)
  show ?case using lucp_net_send_result [OF s1 l] Cons s1 by auto
qed simp

lemma send_frames_prefix:
  assumes "send_frames be c fs s = Some (r, s')" "list_all valid_frame fs"
  shows "\<exists>p. tx s' = tx s @ p \<and> prefix p (concat (map wire fs))"
  using assms
proof (induction fs arbitrary: s)
  case (Cons f fs)
  then obtain k s1 where s1: "lucp_net_send be (Some c) (Some f) s = Some (k, s1)"
    by (auto split: option.splits)
  have l: "length (textInfo f) = LUCP_MAX_TEXTINFO_LEN" using Cons.prems(2) by (simp add: valid_frame_def wf_frame_def)
  show ?case
  proof (cases "k < 0")
    case True
    then show ?thesis using lucp_net_send_result [OF s1 l] Cons.prems s1 by (auto simp: strict_prefix_def)
  next
    case False
    then have "send_frames be c fs s1 = Some (r, s')" "tx s1 = tx s @ wire f"
      using lucp_net_send_result [OF s1 l] Cons.prems s1 by auto
    with Cons.IH [of s1] Cons.prems(2) obtain p where "tx s' = tx s @ wire f @ p" "prefix p (concat (map wire fs))" by auto
    then show ?thesis by (intro exI [of _ "wire f @ p"]) simp
  qed
qed simp

section \<open>Errors\<close>

lemma recv_loop_inv:
  assumes "recv_loop be es c g = Some (r, c', g', es')" "net_inv c" "length (textInfo g) = LUCP_MAX_TEXTINFO_LEN" "rbuf_len c < 1024"
  shows "net_inv c' \<and> length (textInfo g') = LUCP_MAX_TEXTINFO_LEN \<and> (r = 0 \<or> r = -1) \<and> (r = 0 \<longrightarrow> valid_frame g')"
  using assms
proof (induction rule: recv_loop_run)
  case (fail bs es c g)
  note d = read_into(1) [of c bs]
  have "length (textInfo g') = length (textInfo g)"
    using fail(4) unpack_Some [of "rbuf_len (fill c (read_got c bs))" "rbuf (fill c (read_got c bs))" g be] d fail(5-7)
    by (auto simp: net_inv_def)
  then show ?case using fail d by (simp add: net_inv_def)
next
  case (frame bs es c g k)
  note d = read_into(1) [of c bs]
  have "length (textInfo g') = length (textInfo g)" "valid_frame g'"
    using lucp_frame_unpack_sound [OF frame(2,3)] frame d
      unpack_Some [of "rbuf_len (fill c (read_got c bs))" "rbuf (fill c (read_got c bs))" g be] by (auto simp: net_inv_def)
  then show ?case using frame consume_inv d by simp
next
  case (more bs es c g f)
  note d = read_into(1) [of c bs]
  have "length (textInfo f) = length (textInfo g)" "rbuf_len (fill c (read_got c bs)) < 1024"
    using unpack_zero_short [OF more(2)] more d
      unpack_Some [of "rbuf_len (fill c (read_got c bs))" "rbuf (fill c (read_got c bs))" g be] by (auto simp: net_inv_def)
  then show ?case using more d by simp
qed simp_all

lemma lucp_net_recv_inv:
  assumes "net_inv c" "length (textInfo g) = LUCP_MAX_TEXTINFO_LEN"
    "lucp_net_recv be (Some c) (Some g) s = Some (r, oc, og, s')"
  shows "\<exists>c' g'. oc = Some c' \<and> og = Some g' \<and> net_inv c' \<and> length (textInfo g') = LUCP_MAX_TEXTINFO_LEN \<and>
           (r = 0 \<or> r = -1) \<and> (r = 0 \<longrightarrow> valid_frame g') \<and> tx s' = tx s \<and> wr s' = wr s \<and> sel s' = sel s"
proof -
  obtain k f' where u: "lucp_frame_unpack be (Some g) (Some (rbuf c)) (rbuf_len c) = (k, Some f')"
        and l: "length (textInfo f') = length (textInfo g)"
    using unpack_Some [of "rbuf_len c" "rbuf c" g be] assms by (auto simp: net_inv_def)
  show ?thesis
  proof (cases "k = 0")
    case True
    have "rbuf_len c < 1024" using unpack_zero_short u True by blast
    then show ?thesis using assms u l True recv_loop_inv [of be "rx s" c f']
      by (fastforce simp: lucp_net_recv_def)
  next
    case False
    then show ?thesis using assms u l consume_inv [OF assms(1)] lucp_frame_unpack_sound [OF u] 
      by (auto simp: lucp_net_recv_def net_inv_def split: if_splits)
  qed
qed

definition corrupt :: "byte list \<Rightarrow> bool" where
  "corrupt p \<longleftrightarrow> 14 \<le> length p \<and>
     (of_be32 (take 4 p) \<noteq> LUCP_MAGIC \<or> LUCP_MAX_TEXTINFO_LEN < unat (of_be16 (take 2 (drop 12 p))))"

lemma corrupt_append: "14 \<le> length p \<Longrightarrow> corrupt (p @ q) = corrupt p"
  by (auto simp: corrupt_def)

lemma unpack_corrupt:
  assumes "net_inv c" 
  shows "corrupt (pending c) \<Longrightarrow> \<exists>g'. lucp_frame_unpack be (Some g) (Some (rbuf c)) (rbuf_len c) = (-1, Some g')"
    "length (pending c) < 14 \<Longrightarrow> lucp_frame_unpack be (Some g) (Some (rbuf c)) (rbuf_len c) = (0, Some g)"
  using assms
  by (auto simp: corrupt_def pending_def net_inv_def lucp_frame_unpack_def Let_def take_load min_def drop_take split: if_splits)

lemma recv_loop_corrupt:
  assumes "net_inv c" "quiet es" "length (pending c) < 14" "corrupt (pending c @ delivered es)"
  shows "\<exists>c' g' es'. recv_loop be es c g = Some (-1, c', g', es') \<and> net_inv c' \<and> pending c' = []"
  using assms
proof (induction "sum_list (map rd_size es)" arbitrary: es c g rule: less_induct)
  case less
  show ?case
  proof (cases es)
    case Nil
    then show ?thesis using less.prems by (simp add: corrupt_def)
  next
    case (Cons e es1)
    show ?thesis
    proof (cases e)
      case Rd_Eintr
      then show ?thesis using less.hyps [of es1 c g] Cons less.prems by simp
    next
      case (Rd_Data bs)
      let ?c = "fill c (read_got c bs)" and ?es = "read_left c bs es1"
      have len: "rbuf_len c < RBUF_SIZE" using length_pending [OF less.prems(1)] less.prems(3) by simp
      note d = read_into [OF less.prems(1) len, of bs]
      have got: "read_got c bs \<noteq> []" using Cons less.prems(2) Rd_Data d(3) by simp
      note eq = recv_loop_data [OF got, of be es1 g]
      have st: "corrupt (pending ?c @ delivered ?es)" using less.prems(4) d(4) Cons Rd_Data by simp
      show ?thesis
      proof (cases "length (pending ?c) < 14")
        case True
        have "\<exists>c' g' es'. recv_loop be ?es ?c g = Some (-1, c', g', es') \<and> net_inv c' \<and> pending c' = []"
          by (rule less.hyps) (use read_left_facts(2,3) Cons Rd_Data less.prems(2) got d(1) True st in simp_all)
        then show ?thesis
          using Cons Rd_Data eq d(2) unpack_corrupt(2) [OF d(1) True, of be g] by simp
      next
        case False
        then have "corrupt (pending ?c)" using st corrupt_append by simp
        then obtain g' where "lucp_frame_unpack be (Some g) (Some (rbuf ?c)) (rbuf_len ?c) = (-1, Some g')"
          using unpack_corrupt(1) [OF d(1)] by blast
        then show ?thesis using eq Cons Rd_Data d(1,2) by (simp add: net_inv_def pending_def)
      qed
    qed (use less.prems Cons in simp_all)
  qed
qed

section \<open>What a receive takes from the stream\<close>

definition input_size :: "net_ctx \<Rightarrow> sock \<Rightarrow> nat" where
  "input_size c s = rbuf_len c + sum_list (map rd_size (rx s))"

lemma unpack_positive:
  "lucp_frame_unpack be (Some f) (Some b) n = (k, Some f') \<Longrightarrow> 0 < k \<Longrightarrow> nat k \<le> n \<and> 14 \<le> nat k"
  by (auto simp: lucp_frame_unpack_def Let_def simp del: of_nat_add split: if_splits)

lemma recv_loop_decreases:
  assumes "recv_loop be es c g = Some (r, c', g', es')" "r = 0"
  shows "rbuf_len c' + sum_list (map rd_size es') < rbuf_len c + sum_list (map rd_size es)"
  using assms
proof (induction rule: recv_loop_run)
  case (frame bs es c g k)
  then show ?case using unpack_positive [OF frame(2,3)] read_left_facts(4) [of c bs es]
    by (simp add: consume_def Let_def)
next
  case (more bs es c g f)
  then show ?case using read_left_facts(4) [of c bs es] by simp
qed simp_all

lemma lucp_net_recv_decreases:
  assumes "lucp_net_recv be (Some c) (Some g) s = Some (0, Some c', Some g', s')"
  shows "input_size c' s' < input_size c s"
proof -
  obtain k f' where u: "lucp_frame_unpack be (Some g) (Some (rbuf c)) (rbuf_len c) = (k, Some f')"
    using assms by (auto simp: lucp_net_recv_def split: prod.splits option.splits)
  then show ?thesis
    using assms unpack_positive [OF u] recv_loop_decreases [of be "rx s" c f' 0 c' g']
    by (auto simp: lucp_net_recv_def input_size_def consume_def Let_def split: if_splits)
qed

lemma unpack_takes:
  assumes "net_inv c" "length (textInfo g) = LUCP_MAX_TEXTINFO_LEN" "0 < k"
    "lucp_frame_unpack be (Some g) (Some (rbuf c)) (rbuf_len c) = (k, Some f)"
  shows "pending c = wire f @ pending (consume c (nat k))"
proof -
  have "valid_frame f \<and> k = int (length (wire f)) \<and> k \<le> int (rbuf_len c) \<and> take (nat k) (rbuf c) = wire f"
    using lucp_frame_unpack_sound [OF assms(4,3) _ assms(2)] assms(1) by (auto simp: net_inv_def)
  then have "nat k \<le> rbuf_len c" "take (nat k) (rbuf c) = wire f" by linarith+
  then have "take (nat k) (pending c) = wire f" by (simp add: pending_def min_def)
  then show ?thesis using consume_pending [OF assms(1), of "nat k"]
    by (metis append_take_drop_id)
qed

lemma recv_loop_takes:
  assumes "recv_loop be es c g = Some (r, c', g', es')" "r = 0" "net_inv c" "length (textInfo g) = LUCP_MAX_TEXTINFO_LEN"
    "rbuf_len c < 1024"
  shows "pending c @ delivered es = wire g' @ pending c' @ delivered es'"
  using assms
proof (induction rule: recv_loop_run)
  case (frame bs es c g k)
  have "rbuf_len c < RBUF_SIZE" using frame(11) by simp
  from read_into [OF frame(9) this, of bs] show ?case
    using unpack_takes [OF _ frame(10,3,2)] frame by (metis append.assoc)
next
  case (more bs es c g f)
  have "rbuf_len c < RBUF_SIZE" using more(8) by simp
  note d = read_into [OF more(6) this, of bs]
  have "length (textInfo f) = length (textInfo g)" "rbuf_len (fill c (read_got c bs)) < 1024"
    using unpack_zero_short [OF more(2)] more d
      unpack_Some [of "rbuf_len (fill c (read_got c bs))" "rbuf (fill c (read_got c bs))" g be] by (auto simp: net_inv_def)
  then show ?case using more d by simp
qed simp_all

lemma lucp_net_recv_takes:
  assumes "net_inv c" "length (textInfo g) = LUCP_MAX_TEXTINFO_LEN"
    "lucp_net_recv be (Some c) (Some g) s = Some (0, Some c', Some g', s')"
  shows "pending c @ delivered (rx s) = wire g' @ pending c' @ delivered (rx s')"
proof -
  obtain k f' where u: "lucp_frame_unpack be (Some g) (Some (rbuf c)) (rbuf_len c) = (k, Some f')"
        and l: "length (textInfo f') = length (textInfo g)"
    using unpack_Some [of "rbuf_len c" "rbuf c" g be] assms by (auto simp: net_inv_def)
  show ?thesis
  proof (cases "k = 0")
    case True
    have "rbuf_len c < 1024" using unpack_zero_short u True by blast
    then show ?thesis using assms u l True recv_loop_takes [of be "rx s" c f']
      by (auto simp: lucp_net_recv_def)
  next
    case False
    then show ?thesis using assms u unpack_takes [OF assms(1,2) _ u]
      by (auto simp: lucp_net_recv_def split: if_splits)
  qed
qed

lemma recv_loop_code: "recv_loop be es c g = Some (r, c', g', es') \<Longrightarrow> r = 0 \<or> r = -1"
  by (induction rule: recv_loop_run) simp_all

lemma lucp_net_recv_code:
  "lucp_net_recv be (Some c) (Some g) s = Some (r, oc, og, s') \<Longrightarrow> r = 0 \<or> r = -1"
  by (auto simp: lucp_net_recv_def dest: recv_loop_code split: prod.splits option.splits if_splits)

text \<open>A peer that ends its stream, by closing or by an error, makes every receive return.\<close>

lemma recv_loop_returns:
  "\<exists>e \<in> set es. e = Rd_Eof \<or> e = Rd_Error \<Longrightarrow> recv_loop be es c g \<noteq> None"
proof (induction "sum_list (map rd_size es)" arbitrary: es c g rule: less_induct)
  case less
  then obtain e es1 where es: "es = e # es1" by (cases es) auto
  show ?case
  proof (cases e)
    case (Rd_Data bs)
    show ?thesis
    proof (cases "read_got c bs = []")
      case False
      have "\<exists>e \<in> set (read_left c bs es1). e = Rd_Eof \<or> e = Rd_Error"
        using less.prems es Rd_Data read_left_facts(5) [of _ c bs es1] by auto
      then have "recv_loop be (read_left c bs es1) (fill c (read_got c bs)) h \<noteq> None" for h
        using less.hyps read_left_facts(3) [OF False] es Rd_Data by simp
      then show ?thesis using es Rd_Data by (simp add: recv_loop_data [OF False] split: prod.split option.split)
    qed (simp add: es Rd_Data recv_loop_full)
  qed (use less es in simp_all)
qed

lemma recv_loop_keeps_end:
  assumes "recv_loop be es c g = Some (r, c', g', es')" "r = 0" "ev = Rd_Eof \<or> ev = Rd_Error" "ev \<in> set es"
  shows "ev \<in> set es'"
  using assms by (induction rule: recv_loop_run) (auto simp: read_left_facts(5))

text \<open>What comes behind the bytes that a receive needs makes no difference to it.\<close>

lemma read_left_append: "read_left c bs (es @ xs) = read_left c bs es @ xs"
  by (simp add: read_left_def)

lemma recv_loop_append:
  assumes "recv_loop be es c g = Some (r, c', g', es')" "r = 0"
  shows "recv_loop be (es @ xs) c g = Some (0, c', g', es' @ xs)"
  using assms by (induction rule: recv_loop_run) (simp_all add: recv_loop_data read_left_append)

lemma lucp_net_recv_append:
  assumes "lucp_net_recv be (Some c) (Some g) s = Some (0, oc, og, s')"
  shows "lucp_net_recv be (Some c) (Some g) (s\<lparr>rx := rx s @ xs\<rparr>) = Some (0, oc, og, s'\<lparr>rx := rx s' @ xs\<rparr>)"
  using assms recv_loop_append [of be "rx s"]
  by (fastforce simp: lucp_net_recv_def split: prod.splits option.splits if_splits)

text \<open>A stream that ends before its frame does makes the receive fail, and the end stays.\<close>

lemma recv_loop_cut:
  assumes "net_inv c" "valid_frame f" "length (textInfo g) = LUCP_MAX_TEXTINFO_LEN" "quiet es"
    "pending c @ delivered es @ u = wire f" "u \<noteq> []"
  shows "\<exists>c' g'. recv_loop be (es @ xs) c g = recv_loop be xs c' g'"
  using assms
proof (induction "sum_list (map rd_size es)" arbitrary: es c g rule: less_induct)
  case less
  note inv = less.prems(1) and f = less.prems(2) and g = less.prems(3) and q = less.prems(4)
  show ?case
  proof (cases es)
    case (Cons e es1)
    show ?thesis
    proof (cases e)
      case Rd_Eintr
      then show ?thesis using less.hyps [of es1 c g] Cons less.prems by simp
    next
      case (Rd_Data bs)
      let ?c = "fill c (read_got c bs)" and ?es = "read_left c bs es1"
      have "length (pending c) \<le> length (wire f)"
        using arg_cong [OF less.prems(5), of length] by simp
      then have len: "rbuf_len c < RBUF_SIZE"
        using length_wire_le [of f] f length_pending [OF inv] by (simp add: valid_frame_def)
      note d = read_into [OF inv len, of bs]
      have got: "read_got c bs \<noteq> []" using q Cons Rd_Data d(3) by simp
      have st: "pending ?c @ delivered ?es @ u = wire f"
        using less.prems(5) d(4) [of es1] Cons Rd_Data by (metis append.assoc)
      obtain g' where g': "lucp_frame_unpack be (Some g) (Some (rbuf ?c)) (rbuf_len ?c) = (0, Some g')" "textInfo g' = textInfo g"
        using unpack_pending(2) [OF d(1) f g st] less.prems(6) by blast
      have "\<exists>c' g''. recv_loop be (?es @ xs) ?c g' = recv_loop be xs c' g''"
        by (rule less.hyps) (use read_left_facts(2,3) Cons Rd_Data got d f g g' q st less.prems(6) in simp_all)
      then show ?thesis using Cons Rd_Data g'(1) d(2) by (simp add: recv_loop_data [OF got] read_left_append)
    qed (use q Cons in simp_all)
  qed auto
qed

lemma lucp_net_recv_cut:
  assumes "net_inv c" "valid_frame f" "length (textInfo g) = LUCP_MAX_TEXTINFO_LEN" "quiet es"
    "pending c @ delivered es @ u = wire f" "u \<noteq> []"
  shows "rx s = es @ Rd_Eof # xs \<Longrightarrow>
      \<exists>c' g'. lucp_net_recv be (Some c) (Some g) s = Some (-1, Some c', Some g', s\<lparr>rx := Rd_Eof # xs\<rparr>)"
    "rx s = es \<Longrightarrow> lucp_net_recv be (Some c) (Some g) s = None"
proof -
  obtain g' where g': "lucp_frame_unpack be (Some g) (Some (rbuf c)) (rbuf_len c) = (0, Some g')" "textInfo g' = textInfo g"
    using unpack_pending(2) [OF assms(1-3,5)] assms(6) by blast
  note cut = recv_loop_cut [OF assms(1,2) _ assms(4-6), of g' be]
  show "\<exists>c' g'. lucp_net_recv be (Some c) (Some g) s = Some (-1, Some c', Some g', s\<lparr>rx := Rd_Eof # xs\<rparr>)"
    if "rx s = es @ Rd_Eof # xs"
    using cut [of "Rd_Eof # xs"] g' assms(3) that by (auto simp: lucp_net_recv_def)
  show "lucp_net_recv be (Some c) (Some g) s = None" if "rx s = es"
    using cut [of "[]"] g' assms(3) that by (auto simp: lucp_net_recv_def)
qed

lemma lucp_net_recv_keeps_end:
  "lucp_net_recv be (Some c) (Some g) s = Some (0, oc, og, s') \<Longrightarrow> ev = Rd_Eof \<or> ev = Rd_Error \<Longrightarrow>
     ev \<in> set (rx s) \<Longrightarrow> ev \<in> set (rx s')"
  using recv_loop_keeps_end [of be "rx s"]
  by (auto simp: lucp_net_recv_def split: prod.splits option.splits if_splits)

lemma lucp_net_recv_returns:
  "\<exists>e \<in> set (rx s). e = Rd_Eof \<or> e = Rd_Error \<Longrightarrow> lucp_net_recv be (Some c) (Some g) s \<noteq> None"
  using recv_loop_returns [of "rx s"]
  by (simp add: lucp_net_recv_def split: prod.split option.split)

section \<open>The network layer as a reader of frames\<close>

definition net_read ::
  "bool \<Rightarrow> net_ctx \<times> lucp_frame \<times> sock \<Rightarrow> (int \<times> net_ctx \<times> lucp_frame \<times> sock) option" where
  "net_read be = (\<lambda>(c, g, s).
     case lucp_net_recv be (Some c) (Some g) s of
       Some (r, Some c', Some g', s') \<Rightarrow> Some (r, c', g', s')
     | _ \<Rightarrow> None)"

definition net_unread :: "net_ctx \<times> lucp_frame \<times> sock \<Rightarrow> byte list" where
  "net_unread = (\<lambda>(c, g, s). pending c @ delivered (rx s))"

text \<open>A reader on a socket that differs from \<open>k\<close> in what is still to be read only.\<close>

definition net_ready :: "sock \<Rightarrow> net_ctx \<times> lucp_frame \<times> sock \<Rightarrow> bool" where
  "net_ready k = (\<lambda>(c, g, s). net_inv c \<and> length (textInfo g) = LUCP_MAX_TEXTINFO_LEN \<and> s = k\<lparr>rx := rx s\<rparr>)"

text \<open>A frame without the bytes of its buffer that are not transmitted.\<close>

definition clean :: "lucp_frame \<Rightarrow> lucp_frame" where
  "clean f = (if valid_frame f then received f blank_frame else f)"

lemma clean_frame_clean [simp]: "clean_frame (clean f) \<longleftrightarrow> valid_frame f"
  using received_valid(1) [of f blank_frame]
  by (auto simp: clean_def clean_frame_def received_def valid_frame_def wf_frame_def)

lemma clean_simps [simp]: "wire (clean f) = wire f" "text_of (clean f) = text_of f"
  using received_valid [of f blank_frame] by (auto simp: clean_def)

lemma clean_received: 
  assumes "clean_frame f" "length (textInfo g) = LUCP_MAX_TEXTINFO_LEN"
  shows "clean (received f g) = f"
proof -
  have f: "valid_frame f" "received f blank_frame = f" using assms(1) by (simp_all add: clean_frame_def)
  then have "received (received f g) blank_frame = received f blank_frame"
    by (simp add: received_def valid_frame_def wf_frame_def)
  then show ?thesis using f received_valid(1) [OF f(1) assms(2)] by (simp add: clean_def)
qed

interpretation net: frame_source wire "lucp_decode be" clean_frame "net_read be" "\<lambda>(c, g, s). g" clean
    net_unread "net_ready k" "\<lambda>(c, g, s). quiet (rx s)" for be k
proof
  fix st :: "net_ctx \<times> lucp_frame \<times> sock"
  obtain c g s where st: "st = (c, g, s)" by (cases st)
  show "wire f \<noteq> []" for f by (simp add: wire_header header_def)
  show "\<exists>st'. net_read be st = Some (0, st') \<and> (case st' of (c, g, s) \<Rightarrow> quiet (rx s)) \<and> net_unread st' = rest \<and>
      clean (case st' of (c, g, s) \<Rightarrow> g) = f"
    if "net_ready k st" "case st of (c, g, s) \<Rightarrow> quiet (rx s)" "clean_frame f" "net_unread st = wire f @ rest" for f rest
    using that lucp_net_recv_frame [of c f g s rest be] clean_received [of f g]
    by (auto simp: st net_ready_def net_unread_def net_read_def clean_frame_def)
  show "net_ready k st'" if ready: "net_ready k st" and read: "net_read be st = Some (r, st')" for r st'
  proof -
    obtain c' g' s' where r: "lucp_net_recv be (Some c) (Some g) s = Some (r, Some c', Some g', s')" "st' = (c', g', s')"
      using read by (auto simp: st net_read_def split: option.splits)
    have "s = k\<lparr>rx := rx s\<rparr>" using ready by (simp add: st net_ready_def)
    then have "tx s = tx k" "wr s = wr k" "sel s = sel k" by (metis sock.select_convs sock.surjective sock.update_convs(1))+
    then show ?thesis using ready lucp_net_recv_inv [OF _ _ r(1)] by (simp add: st r(2) net_ready_def)
  qed
  show "clean_frame (clean (case st' of (c, g, s) \<Rightarrow> g)) \<and>
      net_unread st = wire (clean (case st' of (c, g, s) \<Rightarrow> g)) @ net_unread st'"
    if ready: "net_ready k st" and read: "net_read be st = Some (0, st')" for st'
  proof -
    obtain c' g' s' where r: "lucp_net_recv be (Some c) (Some g) s = Some (0, Some c', Some g', s')" "st' = (c', g', s')"
      using read by (auto simp: st net_read_def split: option.splits)
    have i: "net_inv c" "length (textInfo g) = LUCP_MAX_TEXTINFO_LEN" using ready by (simp_all add: st net_ready_def)
    then show ?thesis using lucp_net_recv_takes [OF i r(1)] lucp_net_recv_inv [OF i r(1)] by (simp add: st r(2) net_unread_def)
  qed
qed

lemma recv_frames_read_all:
  assumes "net_inv c" "length (textInfo g) = LUCP_MAX_TEXTINFO_LEN"
  shows "recv_frames be n (Some c) (Some g) s =
     map_option (\<lambda>(gs, c, g, s). (gs, Some c, s)) (read_all (net_read be) (\<lambda>(c, g, s). g) n (c, g, s))"
  using assms
proof (induction n arbitrary: c g s)
  case (Suc n)
  show ?case
  proof (cases "lucp_net_recv be (Some c) (Some g) s")
    case (Some x)
    then obtain r c' g' s' where r: "lucp_net_recv be (Some c) (Some g) s = Some (r, Some c', Some g', s')"
        "net_inv c'" "length (textInfo g') = LUCP_MAX_TEXTINFO_LEN"
      using lucp_net_recv_inv [OF Suc.prems, of be s] by (cases x) blast
    then show ?thesis using Suc.IH [OF r(2,3), of s']
      by (simp add: net_read_def option.map_comp comp_def case_prod_beta' cong: option.map_cong)
  qed (simp add: net_read_def)
qed simp

lemma clean_all:
  "list_all clean_frame (map clean fs) \<longleftrightarrow> list_all valid_frame fs"
  "map wire (map clean fs) = map wire fs"
  "map text_of (map clean fs) = map text_of fs"
  by (simp_all add: list_all_iff)

section \<open>Retries\<close>

lemma retry_loop_result:
  assumes "retry_loop be n c f r cmd s = Some (rc, oc, og, s')" "net_inv c"
    "length (textInfo r) = LUCP_MAX_TEXTINFO_LEN" "length (textInfo f) = LUCP_MAX_TEXTINFO_LEN"
  shows "\<exists>c' r' ps. oc = Some c' \<and> og = Some r' \<and> net_inv c' \<and>
     length ps \<le> n \<and> (\<forall>p \<in> set ps. prefix p (wire f)) \<and> tx s' = tx s @ concat ps \<and>
     (rc = -1 \<or> rc = 0 \<and> valid_frame r' \<and> msgType r' = cmd \<and> seq_num r' = seq_num f \<and>
        ps \<noteq> [] \<and> last ps = wire f)"
  using assms
proof (induction n arbitrary: c r s)
  case 0
  then show ?case by (auto intro!: exI [of _ "[]"])
next
  case (Suc n)
  obtain r1 s1 where send: "lucp_net_send be (Some c) (Some f) s = Some (r1, s1)"
    using Suc.prems(1) by (auto split: option.splits)
  obtain p where p: "prefix p (wire f)" "tx s1 = tx s @ p" "r1 = 0 \<longrightarrow> p = wire f" "r1 = 0 \<or> r1 = -1"
    using lucp_net_send_result [OF send Suc.prems(4)] by (auto dest: prefix_order.less_imp_le)
  have again: ?case if nx: "retry_loop be n c1 f h cmd s2 = Some (rc, oc, og, s')" "net_inv c1"
      "length (textInfo h) = LUCP_MAX_TEXTINFO_LEN" "tx s2 = tx s1" for c1 h s2
  proof -
    obtain c' r' ps where "oc = Some c'" "og = Some r'" "net_inv c'" "length ps \<le> n"
      "\<forall>p \<in> set ps. prefix p (wire f)" "tx s' = tx s2 @ concat ps"
      "rc = -1 \<or> rc = 0 \<and> valid_frame r' \<and> msgType r' = cmd \<and> seq_num r' = seq_num f \<and>
        ps \<noteq> [] \<and> last ps = wire f"
      using Suc.IH [OF nx(1-3) Suc.prems(4)] by blast
    then show ?thesis using p nx(4) by (auto intro!: exI [of _ "p # ps"])
  qed
  show ?case
  proof (cases "r1 < 0")
    case True
    then show ?thesis using Suc.prems send by (intro again) auto
  next
    case False
    then obtain ev evs where sel: "sel s1 = ev # evs"
      using Suc.prems(1) send by (auto split: list.splits)
    let ?s2 = "s1\<lparr>sel := evs\<rparr>"
    show ?thesis
    proof (cases "ev = Sel_Ready \<or> ev = Sel_Eintr True")
      case False
      then show ?thesis using Suc.prems send sel \<open>\<not> r1 < 0\<close> by (intro again [of c r ?s2]) auto
    next
      case True
      obtain r2 c1 h s3 where recv: "lucp_net_recv be (Some c) (Some r) ?s2 = Some (r2, Some c1, Some h, s3)"
        using Suc.prems(1) send sel \<open>\<not> r1 < 0\<close> True by (auto simp: Let_def split: option.splits prod.splits)
      have i: "net_inv c1" "length (textInfo h) = LUCP_MAX_TEXTINFO_LEN" "tx s3 = tx s1"
          "r2 = 0 \<longrightarrow> valid_frame h"
        using lucp_net_recv_inv [OF Suc.prems(2,3) recv] by auto
      show ?thesis
      proof (cases "r2 = 0 \<and> msgType h = cmd \<and> seq_num h = seq_num f")
        case hit: True
        then have "rc = 0 \<and> oc = Some c1 \<and> og = Some h \<and> s' = s3"
          using Suc.prems(1) send sel \<open>\<not> r1 < 0\<close> True recv by auto
        then show ?thesis using i p hit \<open>\<not> r1 < 0\<close> by (auto intro!: exI [of _ "[p]"])
      next
        case False
        then show ?thesis using Suc.prems(1) send sel \<open>\<not> r1 < 0\<close> True recv i
          by (intro again [of c1 h s3]) auto
      qed
    qed
  qed
qed

lemma lucp_net_send_completes:
  assumes "wf_frame f" "list_all progress (wr s)" "length (wire f) \<le> accepts (wr s)"
  shows "\<exists>es. lucp_net_send be (Some c) (Some f) s = Some (0, s\<lparr>wr := es, tx := tx s @ wire f\<rparr>) \<and>
     list_all progress es \<and> accepts (wr s) - accepts es \<le> length (wire f)"
proof -
  obtain es out where w: "full_write_loop (wire f) 0 (wr s) (tx s) = Some (0, es, out)"
    "list_all progress es" "accepts (wr s) - accepts es \<le> length (wire f)"
    using full_write_loop_completes [OF assms(2), of "wire f" 0 "tx s"] assms(3) by auto
  then have "out = tx s @ wire f" using full_write_loop_result [OF w(1)] by simp
  then show ?thesis using w assms(1)
    by (intro exI [of _ es]) (simp add: lucp_net_send_wf full_write_def)
qed

lemma retry_loop_timeouts:
  assumes "valid_frame f" "list_all progress (wr s)" "n * length (wire f) \<le> accepts (wr s)"
    "sel s = replicate n Sel_Timeout @ evs"
  shows "\<exists>s'. retry_loop be n c f r cmd s = Some (-1, Some c, Some r, s') \<and> rx s' = rx s \<and>
     tx s' = tx s @ concat (replicate n (wire f))"
  using assms
proof (induction n arbitrary: s)
  case (Suc n)
  have wf: "wf_frame f" using Suc.prems(1) by (simp add: valid_frame_def)
  obtain es where es: "lucp_net_send be (Some c) (Some f) s = Some (0, s\<lparr>wr := es, tx := tx s @ wire f\<rparr>)"
     "list_all progress es" "accepts (wr s) - accepts es \<le> length (wire f)"
    using lucp_net_send_completes [OF wf Suc.prems(2), of be c] Suc.prems(3) by auto
  have "n * length (wire f) \<le> accepts es" using es(3) Suc.prems(3) by (simp add: algebra_simps)
  let ?s = "s\<lparr>wr := es, tx := tx s @ wire f, sel := replicate n Sel_Timeout @ evs\<rparr>"
  obtain s' where "retry_loop be n c f r cmd ?s = Some (-1, Some c, Some r, s')" "rx s' = rx ?s"
     "tx s' = tx ?s @ concat (replicate n (wire f))"
    using Suc.IH [of ?s] Suc.prems es \<open>n * length (wire f) \<le> accepts es\<close> by auto
  then show ?case using es(1) Suc.prems(4) by (simp add: Let_def)
qed simp

lemma retry_loop_succeeds:
  assumes "valid_frame f" "valid_frame r" "msgType r = cmd" "seq_num r = seq_num f"
    "net_inv c" "length (textInfo g) = LUCP_MAX_TEXTINFO_LEN" "quiet (rx s)"
    "pending c @ delivered (rx s) = concat (map wire js) @ wire r @ rest"
    "\<forall>j \<in> set js. valid_frame j \<and> (msgType j \<noteq> cmd \<or> seq_num j \<noteq> seq_num f)"
    "sel s = as @ Sel_Ready # evs" "set as \<subseteq> {Sel_Ready, Sel_Timeout}" "count_list as Sel_Ready = length js" "length as < n"
    "list_all progress (wr s)" "Suc (length as) * length (wire f) \<le> accepts (wr s)"
  shows "\<exists>c' h s'. retry_loop be n c f g cmd s = Some (0, Some c', Some h, s') \<and> wire h = wire r \<and> text_of h = text_of r \<and>
     tx s' = tx s @ concat (replicate (Suc (length as)) (wire f)) \<and> sel s' = evs \<and> pending c' @ delivered (rx s') = rest"
  using assms(5-)
proof (induction as arbitrary: n c g s js)
  case Nil
  obtain m where n: "n = Suc m" using Nil(9) by (cases n) auto
  have wf: "wf_frame f" and js: "js = []" using assms(1) Nil(8) by (simp_all add: valid_frame_def)
  obtain es where w: "lucp_net_send be (Some c) (Some f) s = Some (0, s\<lparr>wr := es, tx := tx s @ wire f\<rparr>)"
    using lucp_net_send_completes [OF wf Nil(10)] Nil(11) by auto
  let ?s = "s\<lparr>wr := es, tx := tx s @ wire f, sel := evs\<rparr>"
  obtain c' es' where "lucp_net_recv be (Some c) (Some g) ?s = Some (0, Some c', Some (received r g), ?s\<lparr>rx := es'\<rparr>)"
      "pending c' @ delivered es' = rest"
    using lucp_net_recv_frame [OF Nil(1) assms(2) Nil(2), of ?s rest be] Nil(3,4) js by auto
  with w show ?case using Nil(6) received_valid [OF assms(2) Nil(2)] assms(3,4) by (simp add: n Let_def)
next
  case (Cons a as)
  obtain m where n: "n = Suc m" using Cons.prems(9) by (cases n) auto
  have wf: "wf_frame f" using assms(1) by (simp add: valid_frame_def)
  obtain es where w: "lucp_net_send be (Some c) (Some f) s = Some (0, s\<lparr>wr := es, tx := tx s @ wire f\<rparr>)"
      "list_all progress es" "accepts (wr s) - accepts es \<le> length (wire f)"
    using lucp_net_send_completes [OF wf Cons.prems(10)] Cons.prems(11) by auto
  have acc: "Suc (length as) * length (wire f) \<le> accepts es" using w(3) Cons.prems(11) by simp
  let ?s = "s\<lparr>wr := es, tx := tx s @ wire f, sel := as @ Sel_Ready # evs\<rparr>"
  consider "a = Sel_Timeout" | "a = Sel_Ready" using Cons.prems(7) by auto
  then show ?case
  proof cases
    case 1
    have "\<exists>c' h s'. retry_loop be m c f g cmd ?s = Some (0, Some c', Some h, s') \<and> wire h = wire r \<and> text_of h = text_of r \<and>
       tx s' = tx ?s @ concat (replicate (Suc (length as)) (wire f)) \<and> sel s' = evs \<and> pending c' @ delivered (rx s') = rest"
      by (rule Cons.IH [of c g ?s js m]) (use Cons.prems acc w(2) n 1 in simp_all)
    then show ?thesis using w(1) Cons.prems(6) 1 by (simp add: n Let_def)
  next
    case 2
    then obtain j js' where js: "js = j # js'" using Cons.prems(8) by (cases js) auto
    have j: "valid_frame j" "msgType j \<noteq> cmd \<or> seq_num j \<noteq> seq_num f" using Cons.prems(5) js by simp_all
    obtain c' es' where h: "lucp_net_recv be (Some c) (Some g) ?s = Some (0, Some c', Some (received j g), ?s\<lparr>rx := es'\<rparr>)"
        "net_inv c'" "quiet es'" "pending c' @ delivered es' = concat (map wire js') @ wire r @ rest"
      using lucp_net_recv_frame [OF Cons.prems(1) j(1) Cons.prems(2), of ?s "concat (map wire js') @ wire r @ rest" be]
        Cons.prems(3,4) js by auto
    have "\<exists>c'' h s'. retry_loop be m c' f (received j g) cmd (?s\<lparr>rx := es'\<rparr>) = Some (0, Some c'', Some h, s') \<and>
       wire h = wire r \<and> text_of h = text_of r \<and> tx s' = tx (?s\<lparr>rx := es'\<rparr>) @ concat (replicate (Suc (length as)) (wire f)) \<and>
       sel s' = evs \<and> pending c'' @ delivered (rx s') = rest"
      by (rule Cons.IH [of c' "received j g" "?s\<lparr>rx := es'\<rparr>" js' m])
        (use Cons.prems acc w(2) n 2 h js received_valid [OF j(1) Cons.prems(2)] in simp_all)
    then show ?thesis using w(1) Cons.prems(6) 2 h(1) j(2) received_valid [OF j(1) Cons.prems(2)]
      by (auto simp: n Let_def)
  qed
qed

section \<open>Properties\<close>

definition fresh_ctx :: net_ctx where
  "fresh_ctx = \<lparr>fd = 4, rbuf = replicate RBUF_SIZE 0, rbuf_len = 0\<rparr>"

definition idle_sock :: sock where
  "idle_sock = \<lparr>rx = [], wr = [], sel = [], tx = []\<rparr>"

lemma fresh_ctx [simp]: "net_inv fresh_ctx" "pending fresh_ctx = []"
  by (simp_all add: fresh_ctx_def net_inv_def pending_def)

lemma fresh_len: "rbuf_len fresh_ctx = 0"
  by (simp add: fresh_ctx_def)

definition many_writes :: "wr_event list" where
  "many_writes = replicate 40 (Wr_Accept 9)"

lemma many_writes [simp]: "list_all progress many_writes" "accepts many_writes = 40"
  by (simp_all add: many_writes_def list_all_iff accepts_def)

lemma wire_sample: "wire sample_frame = [0x4C, 0x55, 0x43, 0x50, 1, 0, 0, 0, 0, 7, 1, 0, 0, 2, 104, 105]"
  by (simp add: sample_frame_def blank_frame_def wire_def be32_def be16_def lucp_consts)

text \<open>C7. Reassembly. If the bytes buffered in the context followed by the bytes the socket will
  deliver start with the wire form of a valid frame, then \<open>lucp_net_recv\<close> returns exactly this frame,
  however the stream is cut into reads and however often a read is interrupted, and it leaves the
  bytes behind the frame, all of them and in order, for the next call.\<close>

theorem lucp_net_recv_reassembles:
  assumes "net_inv c" "valid_frame f" "length (textInfo g) = LUCP_MAX_TEXTINFO_LEN" "quiet (rx s)"
    "pending c @ delivered (rx s) = wire f @ rest"
  shows "\<exists>c' es. lucp_net_recv be (Some c) (Some g) s =
             Some (0, Some c', Some (received f g), s\<lparr>rx := es\<rparr>) \<and>
           net_inv c' \<and> quiet es \<and> pending c' @ delivered es = rest"
  using assms by (rule lucp_net_recv_frame)

theorem lucp_net_recv_reassembles_witness:
  "\<exists>c' es. lucp_net_recv False (Some fresh_ctx) (Some blank_frame)
       (idle_sock\<lparr>rx := [Rd_Data [0x4C, 0x55, 0x43], Rd_Eintr, Rd_Data [0x50, 1, 0, 0, 0, 0, 7, 1],
                         Rd_Data [0, 0, 2, 104, 105, 0x4C, 0x55]]\<rparr>) =
       Some (0, Some c', Some (received sample_frame blank_frame), idle_sock\<lparr>rx := es\<rparr>) \<and>
     net_inv c' \<and> quiet es \<and> pending c' @ delivered es = [0x4C, 0x55]"
  using lucp_net_recv_reassembles [OF fresh_ctx(1) sample_frame_valid blank_text,
      of "idle_sock\<lparr>rx := [Rd_Data [0x4C, 0x55, 0x43], Rd_Eintr, Rd_Data [0x50, 1, 0, 0, 0, 0, 7, 1],
                         Rd_Data [0, 0, 2, 104, 105, 0x4C, 0x55]]\<rparr>" "[0x4C, 0x55]" False]
  by (simp add: wire_sample)

text \<open>C31. Corrupted input. If the header at the front of the stream has the wrong magic number or
  announces a text longer than the protocol allows, \<open>lucp_net_recv\<close> returns -1 and has emptied the
  context's buffer.\<close>

theorem lucp_net_recv_corrupted:
  assumes "net_inv c" "quiet (rx s)" "corrupt (pending c @ delivered (rx s))"
  shows "\<exists>c' g' s'. lucp_net_recv be (Some c) (Some g) s = Some (-1, Some c', g', s') \<and>
           net_inv c' \<and> pending c' = []"
proof (cases "length (pending c) < 14")
  case True
  then show ?thesis
    using recv_loop_corrupt [OF assms(1,2) True assms(3), of be g]
      unpack_corrupt(2) [OF assms(1) True, of be g]
    by (auto simp: lucp_net_recv_def)
next
  case False
  then obtain g' where "lucp_frame_unpack be (Some g) (Some (rbuf c)) (rbuf_len c) = (-1, Some g')"
    using unpack_corrupt(1) [OF assms(1)] assms(3) corrupt_append by fastforce
  then show ?thesis using assms(1) by (simp add: lucp_net_recv_def net_inv_def pending_def)
qed

theorem lucp_net_recv_corrupted_witness:
  "\<exists>c' g' s'. lucp_net_recv False (Some fresh_ctx) (Some blank_frame)
       (idle_sock\<lparr>rx := [Rd_Data [0x4C, 0x55], Rd_Data [0, 0, 0, 0, 0, 0, 0, 0, 0, 0, 0, 0]]\<rparr>) =
       Some (-1, Some c', g', s') \<and> net_inv c' \<and> pending c' = []"
  using lucp_net_recv_corrupted [OF fresh_ctx(1), of
      "idle_sock\<lparr>rx := [Rd_Data [0x4C, 0x55], Rd_Data [0, 0, 0, 0, 0, 0, 0, 0, 0, 0, 0, 0]]\<rparr>" False blank_frame]
  by (simp add: corrupt_def lucp_consts)

text \<open>C22. Invariant of the receive context. Whatever the socket does, a call of \<open>lucp_net_recv\<close> that
  returns gives 0 or -1, keeps the buffer's size and the bound on its fill level (so the buffer is
  never overrun), writes nothing to the socket, and with 0 it returns a valid frame.\<close>

theorem lucp_net_recv_keeps_invariant:
  assumes "net_inv c" "length (textInfo g) = LUCP_MAX_TEXTINFO_LEN"
    "lucp_net_recv be (Some c) (Some g) s = Some (r, oc, og, s')"
  shows "\<exists>c' g'. oc = Some c' \<and> og = Some g' \<and> net_inv c' \<and>
           length (textInfo g') = LUCP_MAX_TEXTINFO_LEN \<and>
           (r = 0 \<or> r = -1) \<and> (r = 0 \<longrightarrow> valid_frame g') \<and> tx s' = tx s"
  using lucp_net_recv_inv [OF assms] by blast

theorem lucp_net_recv_keeps_invariant_witness:
  "\<exists>c' g'. Some fresh_ctx = Some c' \<and> Some blank_frame = Some g' \<and> net_inv c' \<and>
     length (textInfo g') = LUCP_MAX_TEXTINFO_LEN \<and> tx (idle_sock\<lparr>rx := [Rd_Eof]\<rparr>) = tx idle_sock"
proof -
  have "lucp_net_recv True (Some fresh_ctx) (Some blank_frame) (idle_sock\<lparr>rx := [Rd_Eintr, Rd_Eof]\<rparr>) =
      Some (-1, Some fresh_ctx, Some blank_frame, idle_sock\<lparr>rx := [Rd_Eof]\<rparr>)"
    by (simp add: lucp_net_recv_def lucp_frame_unpack_def fresh_ctx_def)
  from lucp_net_recv_keeps_invariant [OF fresh_ctx(1) blank_text this] show ?thesis
    by (auto simp: idle_sock_def)
qed

text \<open>C1. A stream of frames end to end. If a sender on a host of one byte order sends a list of
  valid frames and every call succeeds, and a receiver on a host of another byte order reads the
  bytes sent (cut and interrupted in any way), then as many receives give the same frames in the
  same order, with the same header fields and texts, and nothing is left over.\<close>

theorem lucp_stream_end_to_end:
  assumes "send_frames be c fs s = Some (0, s')" "tx s = []" "list_all valid_frame fs"
    "net_inv d" "pending d = []" "length (textInfo g) = LUCP_MAX_TEXTINFO_LEN"
    "quiet (rx t)" "delivered (rx t) = tx s'"
  shows "\<exists>gs d' es. recv_frames be' (length fs) (Some d) (Some g) t = Some (gs, Some d', t\<lparr>rx := es\<rparr>) \<and>
     map wire gs = map wire fs \<and> map text_of gs = map text_of fs \<and>
     pending d' @ delivered es = []"
proof -
  have ready: "net_ready t (d, g, t)" using assms(4,6) by (simp add: net_ready_def)
  have "net_unread (d, g, t) = concat (map wire (map clean fs)) @ []"
    unfolding clean_all(2) using send_frames_result [OF assms(1,3)] assms(2,5,8) by (simp add: net_unread_def)
  from net.read_all_stream [OF ready _ _ this, of be'] assms(3,7)
  obtain gs d' g' t' where "read_all (net_read be') (\<lambda>(c, g, s). g) (length fs) (d, g, t) = Some (gs, d', g', t')"
      "map clean gs = map clean fs" "net_ready t (d', g', t')" "net_unread (d', g', t') = []"
    by (auto simp: clean_all(1))
  then show ?thesis
    using clean_all(2,3) [of gs] clean_all(2,3) [of fs] by (auto simp: recv_frames_read_all [OF assms(4,6)] net_unread_def net_ready_def)
qed

theorem lucp_stream_end_to_end_witness:
  "\<exists>gs d' es. recv_frames False 2 (Some fresh_ctx) (Some blank_frame)
       (idle_sock\<lparr>rx := [Rd_Data (wire sample_frame @ wire sample_frame)]\<rparr>) =
       Some (gs, Some d', idle_sock\<lparr>rx := es\<rparr>) \<and>
     map wire gs = [wire sample_frame, wire sample_frame] \<and>
     map text_of gs = map text_of [sample_frame, sample_frame] \<and>
     pending d' @ delivered es = []"
proof -
  have v: "list_all valid_frame [sample_frame, sample_frame]" by (simp add: sample_frame_valid)
  have wf: "wf_frame sample_frame" and l: "length (wire sample_frame) = 16"
    using sample_frame_valid by (simp_all add: valid_frame_def wire_sample)
  let ?s = "idle_sock\<lparr>wr := many_writes\<rparr>"
  obtain es where es: "lucp_net_send True (Some fresh_ctx) (Some sample_frame) ?s =
      Some (0, ?s\<lparr>wr := es, tx := tx ?s @ wire sample_frame\<rparr>)"
    "list_all progress es" "accepts (wr ?s) - accepts es \<le> length (wire sample_frame)"
    "length (wire sample_frame) \<le> accepts es"
    using lucp_net_send_completes [OF wf, of ?s True fresh_ctx] by (auto simp: l idle_sock_def)
  let ?t = "?s\<lparr>wr := es, tx := tx ?s @ wire sample_frame\<rparr>"
  obtain es' where "lucp_net_send True (Some fresh_ctx) (Some sample_frame) ?t =
      Some (0, ?t\<lparr>wr := es', tx := tx ?t @ wire sample_frame\<rparr>)"
    using lucp_net_send_completes [OF wf, of ?t True fresh_ctx] es(2,4) by auto
  with es(1) have "send_frames True fresh_ctx [sample_frame, sample_frame]
      (idle_sock\<lparr>wr := many_writes\<rparr>) =
      Some (0, idle_sock\<lparr>wr := es', tx := wire sample_frame @ wire sample_frame\<rparr>)"
    by (simp add: idle_sock_def)
  from lucp_stream_end_to_end [OF this _ v fresh_ctx blank_text, of
      "idle_sock\<lparr>rx := [Rd_Data (wire sample_frame @ wire sample_frame)]\<rparr>" False]
  show ?thesis by (simp add: wire_sample idle_sock_def numeral_2_eq_2)
qed

text \<open>C2. No frame is ever lost, doubled, changed or made up. Whatever happens to the connection (writes that
  fail, data that is cut, an end of the stream or an error at any point), the frames that a receiver gets
  before its first failure are the first frames that the sender was to send.\<close>

theorem lucp_stream_safe:
  assumes "send_frames be c fs s = Some (r, s')" "tx s = []" "list_all valid_frame fs"
    "net_inv d" "pending d = []" "length (textInfo g) = LUCP_MAX_TEXTINFO_LEN"
    "prefix (delivered (rx t)) (tx s')" "recv_frames be' n (Some d) (Some g) t = Some (gs, d', t')"
  shows "prefix (map wire gs) (map wire fs) \<and> prefix (map text_of gs) (map text_of fs) \<and> list_all valid_frame gs"
proof -
  have ready: "net_ready t (d, g, t)" using assms(4,6) by (simp add: net_ready_def)
  obtain g' where r: "read_all (net_read be') (\<lambda>(c, g, s). g) n (d, g, t) = Some (gs, g')"
    using assms(8) by (auto simp: recv_frames_read_all [OF assms(4,6)])
  have "prefix (net_unread (d, g, t)) (concat (map wire (map clean fs)))"
    unfolding clean_all(2) using send_frames_prefix [OF assms(1,3)] assms(2,5,7)
    by (auto simp: net_unread_def intro: prefix_order.trans)
  then have p: "prefix (map clean gs) (map clean fs)"
    using net.read_all_prefix [OF ready _ _ r] assms(3) by (simp add: clean_all(1))
  have "list_all valid_frame gs" using net.read_all_sound [OF ready r] by (simp add: clean_all(1))
  then show ?thesis
    using map_mono_prefix [OF p, of wire] map_mono_prefix [OF p, of text_of] by (simp only: clean_all(2,3) simp_thms)
qed

theorem lucp_stream_safe_witness:
  "\<exists>gs d' t'. recv_frames True 1 (Some fresh_ctx) (Some blank_frame)
       (idle_sock\<lparr>rx := [Rd_Data (take 3 (wire sample_frame)), Rd_Error]\<rparr>) = Some (gs, d', t') \<and>
     prefix (map wire gs) [wire sample_frame]"
proof -
  let ?s = "idle_sock\<lparr>wr := [Wr_Accept 5, Wr_Error]\<rparr>"
  let ?t = "idle_sock\<lparr>rx := [Rd_Data (take 3 (wire sample_frame)), Rd_Error]\<rparr>"
  have s: "send_frames True fresh_ctx [sample_frame] ?s = Some (-1, idle_sock\<lparr>tx := take 5 (wire sample_frame)\<rparr>)"
    using sample_frame_valid
    by (simp add: lucp_net_send_wf valid_frame_def full_write_def wire_sample idle_sock_def)
  obtain r c' g' t' where "lucp_net_recv True (Some fresh_ctx) (Some blank_frame) ?t = Some (r, Some c', Some g', t')"
    using lucp_net_recv_returns [of ?t True fresh_ctx blank_frame] lucp_net_recv_inv [OF fresh_ctx(1) blank_text, of True ?t]
    by fastforce
  then obtain gs d' t' where r: "recv_frames True 1 (Some fresh_ctx) (Some blank_frame) ?t = Some (gs, d', t')"
    by (cases "r = 0") auto
  have "prefix (map wire gs) (map wire [sample_frame])"
    using lucp_stream_safe [OF s _ _ fresh_ctx blank_text _ r] sample_frame_valid by (simp add: idle_sock_def wire_sample)
  then show ?thesis using r by auto
qed

text \<open>C30. Sending. When \<open>lucp_net_send\<close> returns, it returns 0 and has written the wire form of the
  frame in full behind what was written before, or it returns -1 and has written a strict prefix of
  it (nothing, for a frame whose text is too long); partial and interrupted writes make no
  difference, and it reads nothing.\<close>

theorem lucp_net_send_all_or_prefix:
  assumes "lucp_net_send be (Some c) (Some f) s = Some (r, s')"
    "length (textInfo f) = LUCP_MAX_TEXTINFO_LEN"
  shows "rx s' = rx s \<and> (r = 0 \<and> wf_frame f \<and> tx s' = tx s @ wire f \<or>
     r = -1 \<and> (\<exists>p. strict_prefix p (wire f) \<and> tx s' = tx s @ p))"
  using lucp_net_send_result [OF assms] by blast

theorem lucp_net_send_all_or_prefix_witness:
  "\<exists>s'. lucp_net_send True (Some fresh_ctx) (Some sample_frame)
      (idle_sock\<lparr>wr := [Wr_Accept 5, Wr_Eintr, Wr_Error]\<rparr>) = Some (-1, s') \<and>
     (\<exists>p. strict_prefix p (wire sample_frame) \<and> tx s' = p)"
proof -
  let ?s = "idle_sock\<lparr>wr := [Wr_Accept 5, Wr_Eintr, Wr_Error]\<rparr>"
  let ?s' = "idle_sock\<lparr>tx := [0x4C, 0x55, 0x43, 0x50, 1]\<rparr>"
  have "lucp_net_send True (Some fresh_ctx) (Some sample_frame) ?s = Some (-1, ?s')"
    using sample_frame_valid
    by (simp add: lucp_net_send_wf valid_frame_def full_write_def wire_sample idle_sock_def)
  from lucp_net_send_all_or_prefix [OF this] sample_frame_valid this show ?thesis
    by (auto simp: valid_frame_def wf_frame_def idle_sock_def)
qed

text \<open>C15. Waiting for a reply. \<open>lucp_net_send_with_retries\<close> returns 0 only with a valid frame that has
  the expected type and the sequence number of the request, after a complete transmission of the
  request; in all it writes at most \<open>n_retries\<close> copies of the request, each in full or cut short by
  a failing write, and otherwise it returns -1.\<close>

theorem lucp_net_send_with_retries_result:
  assumes "lucp_net_send_with_retries be (Some c) (Some f) (Some r) cmd n s = Some (rc, oc, og, s')"
    "net_inv c" "length (textInfo r) = LUCP_MAX_TEXTINFO_LEN"
    "length (textInfo f) = LUCP_MAX_TEXTINFO_LEN"
  shows "\<exists>c' r' ps. oc = Some c' \<and> og = Some r' \<and> net_inv c' \<and>
     length ps \<le> nat n \<and> (\<forall>p \<in> set ps. prefix p (wire f)) \<and> tx s' = tx s @ concat ps \<and>
     (rc = -1 \<or> rc = 0 \<and> valid_frame r' \<and> msgType r' = cmd \<and> seq_num r' = seq_num f \<and>
        ps \<noteq> [] \<and> last ps = wire f)"
  using assms by (intro retry_loop_result) (simp_all add: lucp_net_send_with_retries_def)

theorem lucp_net_send_with_retries_result_witness:
  "\<exists>c' r' ps. Some fresh_ctx = Some c' \<and> Some blank_frame = Some r' \<and> net_inv c' \<and>
     length ps \<le> nat 1 \<and> (\<forall>p \<in> set ps. prefix p (wire sample_frame)) \<and>
     [0x4C, 0x55, 0x43, 0x50, 1] = concat ps"
proof -
  let ?s = "idle_sock\<lparr>wr := [Wr_Accept 5, Wr_Eintr, Wr_Error]\<rparr>"
  let ?s' = "idle_sock\<lparr>tx := [0x4C, 0x55, 0x43, 0x50, 1]\<rparr>"
  have "lucp_net_send True (Some fresh_ctx) (Some sample_frame) ?s = Some (-1, ?s')"
    using sample_frame_valid
    by (simp add: lucp_net_send_wf valid_frame_def full_write_def wire_sample idle_sock_def)
  then have "lucp_net_send_with_retries True (Some fresh_ctx) (Some sample_frame) (Some blank_frame)
      2 1 ?s = Some (-1, Some fresh_ctx, Some blank_frame, ?s')"
    by (simp add: lucp_net_send_with_retries_def)
  from lucp_net_send_with_retries_result [OF this fresh_ctx(1) blank_text] sample_frame_valid
  show ?thesis by (auto simp: valid_frame_def wf_frame_def idle_sock_def)
qed

text \<open>C16. Retries succeed. Suppose the socket takes what is written, and that some attempts, fewer than
  \<open>n_retries\<close>, either time out or read a frame of another type or sequence number, until the reply asked for
  arrives, cut in any way. Then \<open>lucp_net_send_with_retries\<close> returns 0 with that reply, has sent the request once
  for each of these attempts and once more, and leaves the stream behind the reply untouched.\<close>

theorem lucp_net_send_with_retries_succeeds:
  assumes "valid_frame f" "valid_frame r" "msgType r = cmd" "seq_num r = seq_num f"
    "net_inv c" "length (textInfo g) = LUCP_MAX_TEXTINFO_LEN" "quiet (rx s)"
    "pending c @ delivered (rx s) = concat (map wire js) @ wire r @ rest"
    "\<forall>j \<in> set js. valid_frame j \<and> (msgType j \<noteq> cmd \<or> seq_num j \<noteq> seq_num f)"
    "sel s = as @ Sel_Ready # evs" "set as \<subseteq> {Sel_Ready, Sel_Timeout}" "count_list as Sel_Ready = length js"
    "int (length as) < n" "list_all progress (wr s)" "Suc (length as) * length (wire f) \<le> accepts (wr s)"
  shows "\<exists>c' h s'. lucp_net_send_with_retries be (Some c) (Some f) (Some g) cmd n s = Some (0, Some c', Some h, s') \<and>
     wire h = wire r \<and> text_of h = text_of r \<and> tx s' = tx s @ concat (replicate (Suc (length as)) (wire f)) \<and>
     sel s' = evs \<and> pending c' @ delivered (rx s') = rest"
  using retry_loop_succeeds [OF assms(1-12) _ assms(14,15), of "nat n" be] assms(13)
  by (simp add: lucp_net_send_with_retries_def)

theorem lucp_net_send_with_retries_succeeds_witness:
  "\<exists>c' h s'. lucp_net_send_with_retries True (Some fresh_ctx) (Some sample_frame) (Some blank_frame)
       LUCP_MTYP_UPLOAD_REQUEST 3
       (idle_sock\<lparr>rx := [Rd_Data (wire (sample_frame\<lparr>msgType := 9\<rparr>) @ wire sample_frame)], wr := replicate 48 (Wr_Accept 9),
          sel := [Sel_Timeout, Sel_Ready, Sel_Ready]\<rparr>) = Some (0, Some c', Some h, s') \<and> wire h = wire sample_frame"
proof -
  let ?s = "idle_sock\<lparr>rx := [Rd_Data (wire (sample_frame\<lparr>msgType := 9\<rparr>) @ wire sample_frame)], wr := replicate 48 (Wr_Accept 9),
          sel := [Sel_Timeout, Sel_Ready, Sel_Ready]\<rparr>"
  have j: "valid_frame (sample_frame\<lparr>msgType := 9\<rparr>)" "msgType sample_frame = LUCP_MTYP_UPLOAD_REQUEST"
      "LUCP_MTYP_UPLOAD_REQUEST \<noteq> 9"
    using sample_frame_valid by (simp_all add: valid_frame_def wf_frame_def sample_frame_def lucp_consts)
  have "\<exists>c' h s'. lucp_net_send_with_retries True (Some fresh_ctx) (Some sample_frame) (Some blank_frame)
       LUCP_MTYP_UPLOAD_REQUEST 3 ?s = Some (0, Some c', Some h, s') \<and>
     wire h = wire sample_frame \<and> text_of h = text_of sample_frame \<and>
     tx s' = tx ?s @ concat (replicate (Suc (length [Sel_Timeout, Sel_Ready])) (wire sample_frame)) \<and>
     sel s' = [] \<and> pending c' @ delivered (rx s') = []"
    by (rule lucp_net_send_with_retries_succeeds [where js = "[sample_frame\<lparr>msgType := 9\<rparr>]"])
      (use sample_frame_valid j in \<open>auto simp: list_all_iff accepts_def wire_sample\<close>)
  then show ?thesis by blast
qed

text \<open>C40. Retries look at the socket only. When \<open>select\<close> times out in every attempt,
  \<open>lucp_net_send_with_retries\<close> has sent the request \<open>n_retries\<close> times, read nothing and returns -1,
  whatever the context has buffered: a matching reply that an earlier read brought in together
  with another frame is not noticed.\<close>

theorem lucp_retries_ignore_buffered_reply:
  assumes "valid_frame f" "list_all progress (wr s)" "nat n * length (wire f) \<le> accepts (wr s)"
    "sel s = replicate (nat n) Sel_Timeout @ evs"
  shows "\<exists>s'. lucp_net_send_with_retries be (Some c) (Some f) (Some r) cmd n s =
           Some (-1, Some c, Some r, s') \<and> rx s' = rx s \<and>
         tx s' = tx s @ concat (replicate (nat n) (wire f))"
  using retry_loop_timeouts [OF assms] by (simp add: lucp_net_send_with_retries_def)

theorem lucp_retries_ignore_buffered_reply_witness:
  "\<exists>s'. lucp_net_send_with_retries True (Some (fill fresh_ctx (wire sample_frame))) (Some sample_frame)
       (Some blank_frame) LUCP_MTYP_UPLOAD_REQUEST 2
       (idle_sock\<lparr>wr := many_writes, sel := [Sel_Timeout, Sel_Timeout]\<rparr>) =
       Some (-1, Some (fill fresh_ctx (wire sample_frame)), Some blank_frame, s') \<and>
     pending (fill fresh_ctx (wire sample_frame)) = wire sample_frame"
  using lucp_retries_ignore_buffered_reply [OF sample_frame_valid, of
      "idle_sock\<lparr>wr := many_writes, sel := [Sel_Timeout, Sel_Timeout]\<rparr>" 2 "[]" True
      "fill fresh_ctx (wire sample_frame)" blank_frame LUCP_MTYP_UPLOAD_REQUEST]
    fill_pending [OF fresh_ctx(1), of "wire sample_frame"]
  by (auto simp: wire_sample idle_sock_def fresh_len numeral_2_eq_2)

end
