(* ===== verification/Lucpd_Cfg.thy ===== *)
theory Lucpd_Cfg
  imports Prelude
begin

text \<open>
  The configuration of the upload daemon: \<open>lucpd/src/lucpd_cfg.h\<close> and \<open>lucpd/src/lucpd_cfg.c\<close>.
\<close>

section \<open>The configuration\<close>

definition LUCPD_DEFAULT_PORT :: int where "LUCPD_DEFAULT_PORT = 32100"
definition LUCPD_DEFAULT_IP :: string where "LUCPD_DEFAULT_IP = ''127.0.0.1''"
definition LUCPD_DEFAULT_CFG_FILE :: string where "LUCPD_DEFAULT_CFG_FILE = ''/etc/lucpd.conf''"

record network_cfg =
  net_ip :: string
  net_port :: u16
  max_clients :: int
  recv_timeout_ms :: int
  send_timeout_ms :: int

record protocol_cfg =
  rate_limit_ms :: int
  session_timeout_ms :: int
  validate_version :: bool
  validate_crc16 :: bool

record logging_cfg =
  log_level :: string
  log_file :: string

record file_cfg =
  tmp_dir :: string
  file_retention_min :: int

record lucpd_config =
  network :: network_cfg
  protocol :: protocol_cfg
  logging :: logging_cfg
  files :: file_cfg

definition set_default_config :: "lucpd_config \<Rightarrow> lucpd_config" where
  "set_default_config cfg = cfg\<lparr>
     network := (network cfg)\<lparr>net_ip := c_strncpy (net_ip (network cfg)) LUCPD_DEFAULT_IP 63,
       net_port := of_int LUCPD_DEFAULT_PORT, max_clients := 10,
       recv_timeout_ms := 1000, send_timeout_ms := 1000\<rparr>,
     protocol := (protocol cfg)\<lparr>rate_limit_ms := 3000, session_timeout_ms := 2000,
       validate_version := True, validate_crc16 := True\<rparr>,
     logging := (logging cfg)\<lparr>log_level := c_strncpy (log_level (logging cfg)) ''DEBUG'' 15,
       log_file := (log_file (logging cfg))[0 := NUL]\<rparr>,
     files := (files cfg)\<lparr>tmp_dir := c_strncpy (tmp_dir (files cfg)) ''/tmp/lucp'' 255,
       file_retention_min := 30\<rparr>\<rparr>"

text \<open>The global \<open>g_lucpdcfg\<close> starts with all bytes zero.\<close>

definition zero_config :: lucpd_config where
  "zero_config = \<lparr>
     network = \<lparr>net_ip = replicate 64 NUL, net_port = 0, max_clients = 0, recv_timeout_ms = 0,
       send_timeout_ms = 0\<rparr>,
     protocol = \<lparr>rate_limit_ms = 0, session_timeout_ms = 0, validate_version = False,
       validate_crc16 = False\<rparr>,
     logging = \<lparr>log_level = replicate 16 NUL, log_file = replicate 256 NUL\<rparr>,
     files = \<lparr>tmp_dir = replicate 256 NUL, file_retention_min = 0\<rparr>\<rparr>"

end
