(* ===== verification/Lucpd_Session.thy ===== *)
theory Lucpd_Session
  imports Lucp_Net Lucpd_Cfg
begin

text \<open>
  The session thread of the upload daemon: \<open>session_thread\<close> of \<open>lucpd/src/lucpd.c\<close> and
  \<open>get_now_ms\<close> as it uses it.

  What the thread reads from outside is the record \<open>env\<close>: the value of each reading of the clock,
  of each \<open>rand ()\<close> and of each reading of \<open>server_running\<close>, by its number. The record \<open>session\<close>
  holds the session structure, the thread's local variables, its socket and how many readings it
  has made. \<open>session_turn\<close> is one turn of the \<open>while\<close> loop, with one definition per case of the
  \<open>switch\<close>; \<open>None\<close> means that a call on the socket blocks for ever. The loop itself ends for every
  environment: each turn moves the state forward or takes a frame from a finite input.
  Pauses (\<open>usleep\<close>) and log messages are left out.
\<close>

section \<open>State\<close>

datatype session_state =
    SESSION_INIT
  | SESSION_WAITING_UPLOAD_REQUEST
  | SESSION_WAITING_FTP_LOGIN_RESULT
  | SESSION_WAITING_FTP_DOWNLOAD_RESULT
  | SESSION_WAITING_CLOUD_UPLOAD_RESULT
  | SESSION_COMPLETED
  | SESSION_ERROR

record env =
  clock :: "nat \<Rightarrow> u64"
  dice :: "nat \<Rightarrow> nat"
  up :: "nat \<Rightarrow> bool"

record session =
  st :: session_state
  sess_seq :: u32
  last_active :: u64
  netctx :: net_ctx
  in_frame :: lucp_frame
  out_frame :: lucp_frame
  running :: bool
  sk :: sock
  ticks :: nat
  rolls :: nat
  polls :: nat

section \<open>One turn of the loop\<close>

definition touch :: "env \<Rightarrow> session \<Rightarrow> session" where
  "touch e s = s\<lparr>last_active := clock e (ticks s), ticks := Suc (ticks s)\<rparr>"

text \<open>The difference of the times is cut to an \<open>int\<close> before it is compared.\<close>

definition check_timeout :: "lucpd_config \<Rightarrow> env \<Rightarrow> session \<Rightarrow> session" where
  "check_timeout cfg e s =
     (let now = clock e (ticks s); s = s\<lparr>ticks := Suc (ticks s)\<rparr>
      in if session_timeout_ms (protocol cfg) < sint (ucast (now - last_active s) :: 32 word)
         then s\<lparr>st := SESSION_ERROR\<rparr> else s)"

definition get_frame :: "bool \<Rightarrow> session \<Rightarrow> (int \<times> session) option" where
  "get_frame be s =
     (case lucp_net_recv be (Some (netctx s)) (Some (in_frame s)) (sk s) of
        Some (r, Some c, Some f, k) \<Rightarrow> Some (r, s\<lparr>netctx := c, in_frame := f, sk := k\<rparr>)
      | _ \<Rightarrow> None)"

definition put_frame ::
  "bool \<Rightarrow> u32 \<Rightarrow> byte \<Rightarrow> byte \<Rightarrow> byte list option \<Rightarrow> u16 \<Rightarrow> session \<Rightarrow> session option" where
  "put_frame be seq mt stat text len s =
     (case lucp_frame_make (Some (out_frame s)) seq mt stat text len of
        None \<Rightarrow> None
      | Some f \<Rightarrow>
          (case lucp_net_send be (Some (netctx s)) (Some f) (sk s) of
             None \<Rightarrow> None
           | Some (r, k) \<Rightarrow> Some (s\<lparr>out_frame := f, sk := k\<rparr>)))"

definition on_init :: "bool \<Rightarrow> lucpd_config \<Rightarrow> env \<Rightarrow> session \<Rightarrow> session option" where
  "on_init be cfg e s =
     (case get_frame be s of
        None \<Rightarrow> None
      | Some (ret, s) \<Rightarrow>
          if ret = 0 \<and> msgType (in_frame s) = LUCP_MTYP_UPLOAD_REQUEST then
            if validate_version (protocol cfg) \<and> version_major (in_frame s) \<noteq> LUCP_VER_MAJOR then
              map_option (\<lambda>s. s\<lparr>st := SESSION_ERROR\<rparr>)
                (put_frame be (seq_num (in_frame s)) LUCP_MTYP_ACK_START LUCP_STAT_FAILED
                   (Some (bytes_of ''Bad version'')) 11 s)
            else
              let s = touch e (s\<lparr>sess_seq := seq_num (in_frame s),
                                 st := SESSION_WAITING_UPLOAD_REQUEST\<rparr>)
              in put_frame be (sess_seq s) LUCP_MTYP_ACK_START LUCP_STAT_SUCCESS None 0 s
          else if ret < 0 then Some (s\<lparr>st := SESSION_ERROR\<rparr>)
          else Some s)"

definition prep_result :: "nat \<Rightarrow> byte \<times> string" where
  "prep_result r =
     (if r < 8 then (LUCP_STAT_SUCCESS, ''demo_logfile_20250925.log'')
      else if r = 8 then (LUCP_STAT_ARCHIVE_FAILED, ''Archive failed: disk full'')
      else (LUCP_STAT_FTP_UPLOAD_FAILED, ''FTP upload failed: connection timeout''))"

definition on_upload_request :: "bool \<Rightarrow> env \<Rightarrow> session \<Rightarrow> session option" where
  "on_upload_request be e s =
     (let (prep_status, payload) = prep_result (dice e (rolls s) mod 10);
          s = s\<lparr>rolls := Suc (rolls s)\<rparr>
      in case put_frame be (sess_seq s) LUCP_MTYP_NOTIFY_DONE prep_status
                (Some (bytes_of payload)) (of_nat (length payload)) s of
           None \<Rightarrow> None
         | Some s \<Rightarrow>
             Some (touch e (s\<lparr>st := if prep_status \<noteq> LUCP_STAT_SUCCESS then SESSION_ERROR
                                    else SESSION_WAITING_FTP_LOGIN_RESULT\<rparr>)))"

definition on_result ::
  "byte \<Rightarrow> session_state \<Rightarrow> bool \<Rightarrow> env \<Rightarrow> session \<Rightarrow> session option" where
  "on_result mt next_state be e s =
     (case get_frame be s of
        None \<Rightarrow> None
      | Some (ret, s) \<Rightarrow>
          if ret = 0 \<and> msgType (in_frame s) = mt then
            Some (touch e (s\<lparr>st := if status (in_frame s) \<noteq> LUCP_STAT_SUCCESS then SESSION_ERROR
                                   else next_state\<rparr>))
          else if ret < 0 then Some (s\<lparr>st := SESSION_ERROR\<rparr>)
          else Some s)"

abbreviation on_login_result :: "bool \<Rightarrow> env \<Rightarrow> session \<Rightarrow> session option" where
  "on_login_result \<equiv> on_result LUCP_MTYP_FTP_LOGIN_RESULT SESSION_WAITING_FTP_DOWNLOAD_RESULT"

abbreviation on_download_result :: "bool \<Rightarrow> env \<Rightarrow> session \<Rightarrow> session option" where
  "on_download_result \<equiv> on_result LUCP_MTYP_FTP_DOWNLOAD_RESULT SESSION_COMPLETED"

definition session_switch :: "bool \<Rightarrow> lucpd_config \<Rightarrow> env \<Rightarrow> session \<Rightarrow> session option" where
  "session_switch be cfg e s =
     (case st s of
        SESSION_INIT \<Rightarrow> on_init be cfg e s
      | SESSION_WAITING_UPLOAD_REQUEST \<Rightarrow> on_upload_request be e s
      | SESSION_WAITING_FTP_LOGIN_RESULT \<Rightarrow> on_login_result be e s
      | SESSION_WAITING_FTP_DOWNLOAD_RESULT \<Rightarrow> on_download_result be e s
      | _ \<Rightarrow> Some (s\<lparr>running := False\<rparr>))"

definition session_turn :: "bool \<Rightarrow> lucpd_config \<Rightarrow> env \<Rightarrow> session \<Rightarrow> session option" where
  "session_turn be cfg e s = session_switch be cfg e (check_timeout cfg e s)"

section \<open>The loop\<close>

fun rank :: "session_state \<Rightarrow> nat" where
  "rank SESSION_INIT = 5"
| "rank SESSION_WAITING_UPLOAD_REQUEST = 4"
| "rank SESSION_WAITING_FTP_LOGIN_RESULT = 3"
| "rank SESSION_WAITING_FTP_DOWNLOAD_RESULT = 2"
| "rank SESSION_WAITING_CLOUD_UPLOAD_RESULT = 1"
| "rank SESSION_COMPLETED = 1"
| "rank SESSION_ERROR = 0"

definition todo :: "session \<Rightarrow> nat" where
  "todo s = rank (st s) + (if running s then 1 else 0)"

lemma get_frame_result:
  assumes "get_frame be s = Some (r, s')"
  shows "st s' = st s \<and> running s' = running s \<and> (r = 0 \<or> r = -1) \<and> (r = 0 \<longrightarrow> input_size (netctx s') (sk s') < input_size (netctx s) (sk s))"
  using assms lucp_net_recv_decreases
  by (auto simp: get_frame_def dest: lucp_net_recv_code split: option.splits)

lemma put_frame_result:
  assumes "put_frame be seq mt x text len s = Some s'"
  shows "\<exists>f k. s' = s\<lparr>out_frame := f, sk := k\<rparr>"
  using assms by (auto simp: put_frame_def split: option.splits prod.splits)

lemma touch_simps [simp]:
  "st (touch e s) = st s" "running (touch e s) = running s" "netctx (touch e s) = netctx s"
  "sk (touch e s) = sk s" "in_frame (touch e s) = in_frame s" "sess_seq (touch e s) = sess_seq s"
  "out_frame (touch e s) = out_frame s"
  by (simp_all add: touch_def)

lemma check_timeout_cases: 
  "check_timeout cfg e s = s\<lparr>ticks := Suc (ticks s)\<rparr> \<or>
   check_timeout cfg e s = s\<lparr>ticks := Suc (ticks s), st := SESSION_ERROR\<rparr>"
  by (simp add: check_timeout_def Let_def)

definition turn_rel :: "(session \<times> session) set" where
  "turn_rel = measures [todo, \<lambda>s. input_size (netctx s) (sk s)]"

lemma wf_turn_rel: "wf turn_rel" by (simp add: turn_rel_def)

lemma session_switch_progress:
  assumes "session_switch be cfg e s = Some s'" "running s" 
  shows "todo s' < todo s \<or> todo s' = todo s \<and> input_size (netctx s') (sk s') < input_size (netctx s) (sk s)"
proof (cases "st s")
  case SESSION_INIT
  then show ?thesis using assms
    by (auto simp: session_switch_def on_init_def todo_def Let_def dest!: get_frame_result put_frame_result split: option.splits if_splits)
next
  case SESSION_WAITING_UPLOAD_REQUEST
  then show ?thesis using assms
    by (auto simp: session_switch_def on_upload_request_def todo_def Let_def dest!: put_frame_result split: option.splits if_splits prod.splits)
next
  case SESSION_WAITING_FTP_LOGIN_RESULT
  then show ?thesis using assms
    by (auto simp: session_switch_def on_result_def todo_def Let_def dest!: get_frame_result split: option.splits if_splits)
next
  case SESSION_WAITING_FTP_DOWNLOAD_RESULT
  then show ?thesis using assms
    by (auto simp: session_switch_def on_result_def todo_def Let_def dest!: get_frame_result split: option.splits if_splits)
qed (use assms in \<open>auto simp: session_switch_def todo_def\<close>)

lemma session_turn_progress:
  assumes "session_turn be cfg e s = Some s'" "running s"
  shows "(s', s) \<in> turn_rel"
proof -
  let ?t = "check_timeout cfg e s"
  have t: "todo ?t \<le> todo s" "netctx ?t = netctx s" "sk ?t = sk s" "running ?t"
    using check_timeout_cases [of cfg e s] assms(2) by (auto simp: todo_def)
  show ?thesis
    using session_switch_progress [of be cfg e ?t s'] assms t by (auto simp: session_turn_def turn_rel_def)
qed

function session_loop :: "bool \<Rightarrow> lucpd_config \<Rightarrow> env \<Rightarrow> session \<Rightarrow> session option" where
  "session_loop be cfg e s =
     (if running s \<and> up e (polls s) then
        (case session_turn be cfg e (s\<lparr>polls := Suc (polls s)\<rparr>) of
           None \<Rightarrow> None
         | Some s' \<Rightarrow> session_loop be cfg e s')
      else Some s)"
  by pat_completeness auto
termination
proof (relation "inv_image turn_rel (\<lambda>(be, cfg, e, s). s)")
  show "wf (inv_image turn_rel (\<lambda>(be, cfg, e, s). s))" by (simp add: wf_turn_rel)
next
  fix be cfg e s s'
  assume "running s \<and> up e (polls s)" "session_turn be cfg e (s\<lparr>polls := Suc (polls s)\<rparr>) = Some s'"
  then have "(s', s\<lparr>polls := Suc (polls s)\<rparr>) \<in> turn_rel" using session_turn_progress by simp
  then show "((be, cfg, e, s'), be, cfg, e, s) \<in> inv_image turn_rel (\<lambda>(be, cfg, e, s). s)"
    by (simp add: turn_rel_def todo_def)
qed

declare session_loop.simps [simp del]

definition session_thread ::
  "bool \<Rightarrow> lucpd_config \<Rightarrow> env \<Rightarrow> net_ctx \<Rightarrow> lucp_frame \<Rightarrow> lucp_frame \<Rightarrow> int \<Rightarrow> sock \<Rightarrow> session option" where
  "session_thread be cfg e ctx frame reply f k =
     (case lucp_net_ctx_init (Some ctx) f of
        None \<Rightarrow> None
      | Some c \<Rightarrow>
          session_loop be cfg e
            (touch e \<lparr>st = SESSION_INIT, sess_seq = 0, last_active = 0, netctx = c, in_frame = frame,
                      out_frame = reply, running = True, sk = k, ticks = 0, rolls = 0, polls = 0\<rparr>))"


section \<open>What every turn keeps\<close>

text \<open>The bytes the session has not used yet, and the sizes its frames and buffer have.\<close>

definition input :: "session \<Rightarrow> byte list" where
  "input s = pending (netctx s) @ delivered (rx (sk s))"

definition sess_inv :: "session \<Rightarrow> bool" where
  "sess_inv s \<longleftrightarrow> net_inv (netctx s) \<and> length (textInfo (in_frame s)) = LUCP_MAX_TEXTINFO_LEN \<and>
     length (textInfo (out_frame s)) = LUCP_MAX_TEXTINFO_LEN"

lemma sess_inv_simps [simp]:
  "sess_inv (touch e s) = sess_inv s" "sess_inv (s\<lparr>st := x\<rparr>) = sess_inv s"
  "sess_inv (s\<lparr>running := y\<rparr>) = sess_inv s" "sess_inv (s\<lparr>polls := n\<rparr>) = sess_inv s"
  "sess_inv (s\<lparr>rolls := n\<rparr>) = sess_inv s" "sess_inv (s\<lparr>ticks := n\<rparr>) = sess_inv s"
  "sess_inv (s\<lparr>sess_seq := w\<rparr>) = sess_inv s"
  by (simp_all add: sess_inv_def)

lemma input_simps [simp]:
  "input (touch e s) = input s" "input (s\<lparr>st := x\<rparr>) = input s"
  "input (s\<lparr>running := y\<rparr>) = input s" "input (s\<lparr>polls := n\<rparr>) = input s"
  "input (s\<lparr>rolls := n\<rparr>) = input s" "input (s\<lparr>ticks := n\<rparr>) = input s"
  "input (s\<lparr>sess_seq := w\<rparr>) = input s"
  by (simp_all add: input_def)

lemma get_frame_spec:
  assumes "get_frame be s = Some (r, s')" "sess_inv s"
  shows "sess_inv s'" "tx (sk s') = tx (sk s)" "wr (sk s') = wr (sk s)" "st s' = st s" "sess_seq s' = sess_seq s"
    "running s' = running s" "out_frame s' = out_frame s" "r = 0 \<or> r = -1" "ticks s' = ticks s"
    "r = 0 \<Longrightarrow> valid_frame (in_frame s') \<and> input s = wire (in_frame s') @ input s'"
proof -
  obtain c f k where r: "lucp_net_recv be (Some (netctx s)) (Some (in_frame s)) (sk s) = Some (r, Some c, Some f, k)"
    "s' = s\<lparr>netctx := c, in_frame := f, sk := k\<rparr>"
    using assms(1) by (auto simp: get_frame_def split: option.splits)
  have i: "net_inv (netctx s)" "length (textInfo (in_frame s)) = LUCP_MAX_TEXTINFO_LEN"
    using assms(2) by (simp_all add: sess_inv_def)
  note inv = lucp_net_recv_inv [OF i r(1)]
  show "sess_inv s'" "tx (sk s') = tx (sk s)" "wr (sk s') = wr (sk s)" "st s' = st s" "sess_seq s' = sess_seq s"
    "running s' = running s" "out_frame s' = out_frame s" "r = 0 \<or> r = -1" "ticks s' = ticks s"
    using inv assms(2) r(2) by (auto simp: sess_inv_def)
  show "valid_frame (in_frame s') \<and> input s = wire (in_frame s') @ input s'" if "r = 0"
    using inv lucp_net_recv_takes [OF i r(1) [unfolded that]] r(2) that by (auto simp: input_def)
qed

lemma frame_make_spec:
  assumes "length (textInfo g) = LUCP_MAX_TEXTINFO_LEN" "unat n \<le> LUCP_MAX_TEXTINFO_LEN"
  shows "\<exists>f. lucp_frame_make (Some g) seq mt x t n = Some f \<and> valid_frame f \<and> seq_num f = seq \<and> msgType f = mt \<and>
     status f = x \<and> textInfo_len f = n \<and> (\<forall>u. t = Some u \<longrightarrow> unat n \<le> length u \<longrightarrow> text_of f = take (unat n) u)"
  using assms
  by (auto simp: lucp_frame_make_def Let_def valid_frame_def wf_frame_def text_of_def put_bytes_0 split: option.split)

lemma put_frame_spec:
  assumes "put_frame be seq mt x t n s = Some s'" "sess_inv s" "unat n \<le> LUCP_MAX_TEXTINFO_LEN"
  obtains f p where "valid_frame f" "seq_num f = seq" "msgType f = mt" "status f = x" "textInfo_len f = n"
    "prefix p (wire f)" "tx (sk s') = tx (sk s) @ p" "sess_inv s'" "input s' = input s" 
    "st s' = st s" "sess_seq s' = sess_seq s" "running s' = running s" "in_frame s' = in_frame s"
    "list_all progress (wr (sk s)) \<Longrightarrow> p = wire f \<and> list_all progress (wr (sk s'))"
proof -
  have l: "length (textInfo (out_frame s)) = LUCP_MAX_TEXTINFO_LEN" using assms(2) by (simp add: sess_inv_def)
  obtain f where f: "lucp_frame_make (Some (out_frame s)) seq mt x t n = Some f" "valid_frame f" "seq_num f = seq"
      "msgType f = mt" "status f = x" "textInfo_len f = n"
    using frame_make_spec [OF l assms(3), of seq mt x t] by blast
  obtain r k where k: "lucp_net_send be (Some (netctx s)) (Some f) (sk s) = Some (r, k)" "s' = s\<lparr>out_frame := f, sk := k\<rparr>"
    using assms(1) f(1) by (auto simp: put_frame_def split: option.splits)
  have lf: "length (textInfo f) = LUCP_MAX_TEXTINFO_LEN" using f(2) by (simp add: valid_frame_def wf_frame_def)
  from lucp_net_send_result [OF k(1) lf] obtain p where "prefix p (wire f)" "tx k = tx (sk s) @ p" "rx k = rx (sk s)"
    by (auto simp: strict_prefix_def)
  moreover have "p = wire f \<and> list_all progress (wr k)" if "list_all progress (wr (sk s))"
    using lucp_net_send_progress [OF k(1) _ that] f(2) \<open>tx k = tx (sk s) @ p\<close> by (simp add: valid_frame_def)
  ultimately show thesis using that [of f p] f k(2) lf assms(2) by (simp add: sess_inv_def input_def)
qed

lemma check_timeout_keeps:
  assumes "check_timeout cfg e s = t"
  shows "st t = st s \<or> st t = SESSION_ERROR" "sess_inv t = sess_inv s" "input t = input s" "sk t = sk s" 
    "running t = running s" "sess_seq t = sess_seq s" "polls t = polls s" "rolls t = rolls s"
    "in_frame t = in_frame s" "netctx t = netctx s" "out_frame t = out_frame s"
  using check_timeout_cases [of cfg e s] assms by auto

section \<open>What a session reads and writes\<close>

text \<open>The frames a session has read when it is in a state.\<close>

definition is_request :: "lucp_frame \<Rightarrow> bool" where
  "is_request f \<longleftrightarrow> msgType f = LUCP_MTYP_UPLOAD_REQUEST"

definition good_result :: "byte \<Rightarrow> lucp_frame \<Rightarrow> bool" where
  "good_result mt f \<longleftrightarrow> msgType f = mt \<and> status f = LUCP_STAT_SUCCESS"

definition other_than :: "byte \<Rightarrow> lucp_frame \<Rightarrow> bool" where
  "other_than mt f \<longleftrightarrow> msgType f \<noteq> mt"

definition read_request :: "lucp_frame list \<Rightarrow> bool" where
  "read_request fs \<longleftrightarrow>
     (\<exists>js r. fs = js @ [r] \<and> list_all (other_than LUCP_MTYP_UPLOAD_REQUEST) js \<and> is_request r)"

definition read_before_login :: "lucp_frame list \<Rightarrow> bool" where
  "read_before_login fs \<longleftrightarrow>
     (\<exists>fs1 js. fs = fs1 @ js \<and> read_request fs1 \<and> list_all (other_than LUCP_MTYP_FTP_LOGIN_RESULT) js)"

definition read_before_download :: "lucp_frame list \<Rightarrow> bool" where
  "read_before_download fs \<longleftrightarrow>
     (\<exists>fs1 l js. fs = fs1 @ l # js \<and> read_before_login fs1 \<and>
        good_result LUCP_MTYP_FTP_LOGIN_RESULT l \<and> list_all (other_than LUCP_MTYP_FTP_DOWNLOAD_RESULT) js)"

definition read_all :: "lucp_frame list \<Rightarrow> bool" where
  "read_all fs \<longleftrightarrow>
     (\<exists>fs1 d. fs = fs1 @ [d] \<and> read_before_download fs1 \<and> good_result LUCP_MTYP_FTP_DOWNLOAD_RESULT d)"

fun has_read :: "session_state \<Rightarrow> lucp_frame list \<Rightarrow> bool" where
  "has_read SESSION_INIT fs \<longleftrightarrow> list_all (other_than LUCP_MTYP_UPLOAD_REQUEST) fs"
| "has_read SESSION_WAITING_UPLOAD_REQUEST fs \<longleftrightarrow> read_request fs"
| "has_read SESSION_WAITING_FTP_LOGIN_RESULT fs \<longleftrightarrow> read_before_login fs"
| "has_read SESSION_WAITING_FTP_DOWNLOAD_RESULT fs \<longleftrightarrow> read_before_download fs"
| "has_read SESSION_COMPLETED fs \<longleftrightarrow> read_all fs"
| "has_read SESSION_ERROR fs \<longleftrightarrow> True"
| "has_read SESSION_WAITING_CLOUD_UPLOAD_RESULT fs \<longleftrightarrow> False"

definition read_inv :: "byte list \<Rightarrow> session \<Rightarrow> bool" where
  "read_inv inp s \<longleftrightarrow> st s = SESSION_ERROR \<or>
     (\<exists>fs. has_read (st s) fs \<and> list_all valid_frame fs \<and> inp = concat (map wire fs) @ input s)"

lemma read_inv_simps [simp]:
  "read_inv i (touch e s) = read_inv i s" "read_inv i (s\<lparr>running := y\<rparr>) = read_inv i s" 
  "read_inv i (s\<lparr>polls := n\<rparr>) = read_inv i s" "read_inv i (s\<lparr>st := SESSION_ERROR\<rparr>)"
  by (simp_all add: read_inv_def)

text \<open>Reading one more frame.\<close>

lemma read_inv_step:
  assumes "read_inv i s" "st s \<noteq> SESSION_ERROR" "input s = wire f @ input s'" "valid_frame f"
    "\<And>fs. has_read (st s) fs \<Longrightarrow> has_read (st s') (fs @ [f])"
  shows "read_inv i s'"
proof -
  obtain fs where "has_read (st s) fs" "list_all valid_frame fs" "i = concat (map wire fs) @ input s"
    using assms(1,2) by (auto simp: read_inv_def)
  then show ?thesis using assms(3-5) 
    by (auto simp: read_inv_def intro!: exI [of _ "fs @ [f]"])
qed

lemma has_read_more:
  "has_read SESSION_INIT fs \<Longrightarrow> msgType f \<noteq> LUCP_MTYP_UPLOAD_REQUEST \<Longrightarrow> has_read SESSION_INIT (fs @ [f])"
  "has_read SESSION_INIT fs \<Longrightarrow> msgType f = LUCP_MTYP_UPLOAD_REQUEST \<Longrightarrow>
     has_read SESSION_WAITING_UPLOAD_REQUEST (fs @ [f])"
  "has_read SESSION_WAITING_UPLOAD_REQUEST fs \<Longrightarrow> has_read SESSION_WAITING_FTP_LOGIN_RESULT fs"
  "has_read SESSION_WAITING_FTP_LOGIN_RESULT fs \<Longrightarrow> good_result LUCP_MTYP_FTP_LOGIN_RESULT f \<Longrightarrow>
     has_read SESSION_WAITING_FTP_DOWNLOAD_RESULT (fs @ [f])"
  "has_read SESSION_WAITING_FTP_DOWNLOAD_RESULT fs \<Longrightarrow> good_result LUCP_MTYP_FTP_DOWNLOAD_RESULT f \<Longrightarrow>
     has_read SESSION_COMPLETED (fs @ [f])"
proof -
  show "has_read SESSION_WAITING_UPLOAD_REQUEST fs \<Longrightarrow> has_read SESSION_WAITING_FTP_LOGIN_RESULT fs"
    unfolding has_read.simps read_before_login_def by (rule exI [of _ fs], rule exI [of _ "[]"]) simp
  show "has_read SESSION_WAITING_FTP_LOGIN_RESULT fs \<Longrightarrow> good_result LUCP_MTYP_FTP_LOGIN_RESULT f \<Longrightarrow>
     has_read SESSION_WAITING_FTP_DOWNLOAD_RESULT (fs @ [f])"
    unfolding has_read.simps read_before_download_def
    by (rule exI [of _ fs], rule exI [of _ f], rule exI [of _ "[]"]) simp
qed (auto simp: other_than_def is_request_def read_request_def read_all_def)

lemma has_read_skip:
  "has_read SESSION_WAITING_FTP_LOGIN_RESULT fs \<Longrightarrow> msgType f \<noteq> LUCP_MTYP_FTP_LOGIN_RESULT \<Longrightarrow>
     has_read SESSION_WAITING_FTP_LOGIN_RESULT (fs @ [f])"
  "has_read SESSION_WAITING_FTP_DOWNLOAD_RESULT fs \<Longrightarrow> msgType f \<noteq> LUCP_MTYP_FTP_DOWNLOAD_RESULT \<Longrightarrow>
     has_read SESSION_WAITING_FTP_DOWNLOAD_RESULT (fs @ [f])"
proof -
  show "has_read SESSION_WAITING_FTP_LOGIN_RESULT (fs @ [f])"
    if h: "has_read SESSION_WAITING_FTP_LOGIN_RESULT fs" "msgType f \<noteq> LUCP_MTYP_FTP_LOGIN_RESULT"
  proof -
    obtain fs1 js where "fs = fs1 @ js" "read_request fs1" "list_all (other_than LUCP_MTYP_FTP_LOGIN_RESULT) js"
      using h(1) by (auto simp: read_before_login_def)
    then have "fs @ [f] = fs1 @ (js @ [f])" "list_all (other_than LUCP_MTYP_FTP_LOGIN_RESULT) (js @ [f])"
      "read_request fs1" using h(2) by (simp_all add: other_than_def)
    then show ?thesis unfolding has_read.simps read_before_login_def by blast
  qed
  show "has_read SESSION_WAITING_FTP_DOWNLOAD_RESULT (fs @ [f])"
    if h: "has_read SESSION_WAITING_FTP_DOWNLOAD_RESULT fs" "msgType f \<noteq> LUCP_MTYP_FTP_DOWNLOAD_RESULT"
  proof -
    obtain fs1 l js where "fs = fs1 @ l # js" "read_before_login fs1" "good_result LUCP_MTYP_FTP_LOGIN_RESULT l"
        "list_all (other_than LUCP_MTYP_FTP_DOWNLOAD_RESULT) js"
      using h(1) by (auto simp: read_before_download_def)
    then have "fs @ [f] = fs1 @ l # (js @ [f])" "read_before_login fs1"
      "good_result LUCP_MTYP_FTP_LOGIN_RESULT l"
      "list_all (other_than LUCP_MTYP_FTP_DOWNLOAD_RESULT) (js @ [f])"
      using h(2) by (simp_all add: other_than_def)
    then show ?thesis unfolding has_read.simps read_before_download_def by blast
  qed
qed

text \<open>The frames a session sends, and how much of them has been written.\<close>

definition is_ack :: "u32 \<Rightarrow> lucp_frame \<Rightarrow> bool" where
  "is_ack seq f \<longleftrightarrow> valid_frame f \<and> msgType f = LUCP_MTYP_ACK_START \<and> seq_num f = seq"

definition is_notify :: "u32 \<Rightarrow> lucp_frame \<Rightarrow> bool" where
  "is_notify seq f \<longleftrightarrow> valid_frame f \<and> msgType f = LUCP_MTYP_NOTIFY_DONE \<and> seq_num f = seq"

text \<open>What of a frame a session writes: all of it, or, when writes may fail (not \<open>full\<close>), a part cut short.\<close>

definition written :: "bool \<Rightarrow> lucp_frame \<Rightarrow> byte list \<Rightarrow> bool" where
  "written full f p \<longleftrightarrow> prefix p (wire f) \<and> (full \<longrightarrow> p = wire f)"

definition wrote_ack :: "bool \<Rightarrow> byte list \<Rightarrow> byte \<Rightarrow> u32 \<Rightarrow> byte list \<Rightarrow> bool" where
  "wrote_ack full t stat seq out \<longleftrightarrow>
     (\<exists>a p. is_ack seq a \<and> status a = stat \<and> written full a p \<and> out = t @ p)"

definition wrote_both :: "bool \<Rightarrow> byte list \<Rightarrow> byte set \<Rightarrow> u32 \<Rightarrow> byte list \<Rightarrow> bool" where
  "wrote_both full t stats seq out \<longleftrightarrow>
     (\<exists>u n q. wrote_ack full t LUCP_STAT_SUCCESS seq u \<and> is_notify seq n \<and> status n \<in> stats \<and>
        written full n q \<and> out = u @ q)"

fun has_written :: "bool \<Rightarrow> byte list \<Rightarrow> session_state \<Rightarrow> u32 \<Rightarrow> byte list \<Rightarrow> bool" where
  "has_written full t SESSION_INIT seq out \<longleftrightarrow> out = t"
| "has_written full t SESSION_WAITING_UPLOAD_REQUEST seq out \<longleftrightarrow> wrote_ack full t LUCP_STAT_SUCCESS seq out"
| "has_written full t SESSION_ERROR seq out \<longleftrightarrow>
     out = t \<or> (\<exists>seq. wrote_ack full t LUCP_STAT_FAILED seq out) \<or> wrote_ack full t LUCP_STAT_SUCCESS seq out \<or>
     wrote_both full t {LUCP_STAT_SUCCESS, LUCP_STAT_ARCHIVE_FAILED, LUCP_STAT_FTP_UPLOAD_FAILED} seq out"
| "has_written full t _ seq out \<longleftrightarrow> wrote_both full t {LUCP_STAT_SUCCESS} seq out"

definition write_inv :: "bool \<Rightarrow> byte list \<Rightarrow> session \<Rightarrow> bool" where
  "write_inv full t s \<longleftrightarrow> has_written full t (st s) (sess_seq s) (tx (sk s)) \<and>
     (full \<longrightarrow> list_all progress (wr (sk s)))"

lemma has_written_error: "has_written full t x seq out \<Longrightarrow> has_written full t SESSION_ERROR seq out"
  by (cases x) (auto simp: wrote_both_def)

lemma write_inv_simps [simp]:
  "write_inv full i (touch e s) = write_inv full i s" "write_inv full i (s\<lparr>running := y\<rparr>) = write_inv full i s" 
  "write_inv full i (s\<lparr>polls := n\<rparr>) = write_inv full i s"
  by (simp_all add: write_inv_def)

lemma write_inv_error: "write_inv full t s \<Longrightarrow> write_inv full t (s\<lparr>st := SESSION_ERROR\<rparr>)"
  by (auto simp: write_inv_def dest: has_written_error simp del: has_written.simps)

definition keeps :: "bool \<Rightarrow> byte list \<Rightarrow> byte list \<Rightarrow> session \<Rightarrow> bool" where
  "keeps full i t s \<longleftrightarrow> sess_inv s \<and> read_inv i s \<and> write_inv full t s"

lemma some_frame: "\<exists>f. valid_frame f \<and> seq_num f = seq \<and> msgType f = mt \<and> status f = x"
proof -
  have "length (textInfo (undefined\<lparr>textInfo := replicate LUCP_MAX_TEXTINFO_LEN 0\<rparr>)) = LUCP_MAX_TEXTINFO_LEN" by simp
  from frame_make_spec [OF this, of 0 seq mt x None] show ?thesis by auto
qed

lemma prep_status:
  "fst (prep_result r) \<in> {LUCP_STAT_SUCCESS, LUCP_STAT_ARCHIVE_FAILED, LUCP_STAT_FTP_UPLOAD_FAILED}"
  "unat (of_nat (length (snd (prep_result r))) :: u16) \<le> LUCP_MAX_TEXTINFO_LEN"
  "unat (of_nat (length (snd (prep_result r))) :: u16) = length (snd (prep_result r))"
  by (auto simp: prep_result_def lucp_consts)

lemma on_init_keeps:
  assumes "on_init be cfg e s = Some s'" "keeps full i t s" "st s = SESSION_INIT"
  shows "keeps full i t s'"
proof -
  obtain r s1 where g: "get_frame be s = Some (r, s1)" using assms(1) by (auto simp: on_init_def split: option.splits)
  note k = get_frame_spec [OF g] 
  have inv: "sess_inv s" "read_inv i s" "tx (sk s) = t" "full \<longrightarrow> list_all progress (wr (sk s))" using assms(2,3) by (simp_all add: keeps_def write_inv_def)
  have bad: "keeps full i t (s1\<lparr>st := SESSION_ERROR\<rparr>)"
    using k [OF inv(1)] inv(3,4) by (simp add: keeps_def write_inv_def)
  show ?thesis
  proof (cases "r = 0")
    case False
    then show ?thesis using assms(1) g bad k(8) [OF inv(1)] by (auto simp: on_init_def)
  next
    case r0: True
    have f: "valid_frame (in_frame s1)" "input s = wire (in_frame s1) @ input s1" using k(10) [OF inv(1) r0] by auto
    show ?thesis
    proof (cases "msgType (in_frame s1) = LUCP_MTYP_UPLOAD_REQUEST")
      case False
      have "read_inv i s1"
        by (rule read_inv_step [OF inv(2) _ f(2,1)])
          (use assms(3) False k(4) [OF inv(1)] has_read_more(1) in \<open>simp_all del: has_read.simps\<close>)
      then show ?thesis using assms(1,3) g r0 False k [OF inv(1)] inv(3,4)
        by (simp add: on_init_def keeps_def write_inv_def)
    next
      case req: True
      show ?thesis
      proof (cases "validate_version (protocol cfg) \<and> version_major (in_frame s1) \<noteq> LUCP_VER_MAJOR")
        case True
        then obtain s2 where p: "put_frame be (seq_num (in_frame s1)) LUCP_MTYP_ACK_START LUCP_STAT_FAILED
             (Some (bytes_of ''Bad version'')) 11 s1 = Some s2" "s' = s2\<lparr>st := SESSION_ERROR\<rparr>"
          using assms(1) g r0 req by (auto simp: on_init_def)
        have "unat (11 :: u16) \<le> LUCP_MAX_TEXTINFO_LEN" by (simp add: lucp_consts)
        from put_frame_spec [OF p(1) k(1) [OF inv(1)] this] obtain f q where f: "valid_frame f"
            "seq_num f = seq_num (in_frame s1)" "msgType f = LUCP_MTYP_ACK_START"
            "status f = LUCP_STAT_FAILED" "prefix q (wire f)" "tx (sk s2) = tx (sk s1) @ q" "sess_inv s2"
            "list_all progress (wr (sk s1)) \<Longrightarrow> q = wire f \<and> list_all progress (wr (sk s2))"
          by blast
        have t1: "tx (sk s1) = t" using k(2) [OF inv(1)] inv(3) by simp
        have w: "full \<longrightarrow> q = wire f \<and> list_all progress (wr (sk s2))" using f(8) k(3) [OF inv(1)] inv(4) by simp
        have "wrote_ack full t LUCP_STAT_FAILED (seq_num (in_frame s1)) (tx (sk s2))"
          using f t1 w by (auto simp: wrote_ack_def is_ack_def written_def)
        then show ?thesis using f(7) p(2) w by (auto simp: keeps_def write_inv_def)
      next
        case False
        let ?s = "touch e (s1\<lparr>sess_seq := seq_num (in_frame s1), st := SESSION_WAITING_UPLOAD_REQUEST\<rparr>)"
        have p: "put_frame be (sess_seq ?s) LUCP_MTYP_ACK_START LUCP_STAT_SUCCESS None 0 ?s = Some s'"
          using assms(1) g r0 req False by (auto simp: on_init_def Let_def)
        have i: "sess_inv ?s" using k(1) [OF inv(1)] by simp
        have "unat (0 :: u16) \<le> LUCP_MAX_TEXTINFO_LEN" by simp
        from put_frame_spec [OF p i this] obtain f q where fp: "valid_frame f" "seq_num f = sess_seq ?s" "msgType f = LUCP_MTYP_ACK_START"
            "status f = LUCP_STAT_SUCCESS" "prefix q (wire f)" "tx (sk s') = tx (sk ?s) @ q" "sess_inv s'"
            "input s' = input ?s" "st s' = st ?s" "sess_seq s' = sess_seq ?s"
            "list_all progress (wr (sk ?s)) \<Longrightarrow> q = wire f \<and> list_all progress (wr (sk s'))"
          by blast
        have t1: "tx (sk ?s) = t" using k(2) [OF inv(1)] inv(3) by simp
        have w: "full \<longrightarrow> q = wire f \<and> list_all progress (wr (sk s'))" using fp(11) k(3) [OF inv(1)] inv(4) by simp
        have "wrote_ack full t LUCP_STAT_SUCCESS (sess_seq s') (tx (sk s'))"
          using fp(1-7,9,10) t1 w unfolding wrote_ack_def is_ack_def written_def by auto
        moreover have "read_inv i s'"
          by (rule read_inv_step [OF inv(2) _ _ f(1)])
            (use assms(3) req f(2) fp(8,9) has_read_more(2) in \<open>simp_all del: has_read.simps\<close>)
        ultimately show ?thesis using fp(7,9) w by (simp add: keeps_def write_inv_def)
      qed
    qed
  qed
qed

lemma on_upload_request_keeps:
  assumes "on_upload_request be e s = Some s'" "keeps full i t s" "st s = SESSION_WAITING_UPLOAD_REQUEST"
  shows "keeps full i t s'"
proof -
  obtain x y where xy: "prep_result (dice e (rolls s) mod 10) = (x, y)" by fastforce
  note pr = prep_status [of "dice e (rolls s) mod 10", unfolded xy fst_conv snd_conv]
  let ?s = "s\<lparr>rolls := Suc (rolls s)\<rparr>"
  obtain s1 where p: "put_frame be (sess_seq ?s) LUCP_MTYP_NOTIFY_DONE x (Some (bytes_of y)) (of_nat (length y)) ?s = Some s1"
     and s': "s' = touch e (s1\<lparr>st := if x \<noteq> LUCP_STAT_SUCCESS then SESSION_ERROR else SESSION_WAITING_FTP_LOGIN_RESULT\<rparr>)"
    using assms(1) xy by (auto simp: on_upload_request_def Let_def split: option.splits)
  have inv: "sess_inv ?s" "read_inv i s" "wrote_ack full t LUCP_STAT_SUCCESS (sess_seq s) (tx (sk s))"
     "full \<longrightarrow> list_all progress (wr (sk ?s))"
    using assms(2,3) by (simp_all add: keeps_def write_inv_def)
  obtain f q where fq: "valid_frame f" "seq_num f = sess_seq ?s" "msgType f = LUCP_MTYP_NOTIFY_DONE"
            "status f = x" "prefix q (wire f)" "tx (sk s1) = tx (sk ?s) @ q" "sess_inv s1"
            "input s1 = input ?s" "st s1 = st ?s" "sess_seq s1 = sess_seq ?s"
            "list_all progress (wr (sk ?s)) \<Longrightarrow> q = wire f \<and> list_all progress (wr (sk s1))"
    using put_frame_spec [OF p inv(1) pr(2)] by blast
  have fw: "full \<longrightarrow> q = wire f \<and> list_all progress (wr (sk s1))" using fq(11) inv(4) by blast
  have w: "wrote_both full t X (sess_seq s1) (tx (sk s1))" if "x \<in> X" for X
    using fq(1-6,10) inv(3) that fw by (auto simp: wrote_both_def is_notify_def written_def)
  have r: "read_inv i (s1\<lparr>st := SESSION_WAITING_FTP_LOGIN_RESULT\<rparr>)"
    using inv(2) assms(3) fq(8) has_read_more(3) by (auto simp: read_inv_def simp del: has_read.simps)
  show ?thesis
    using s' fq(7) fw r w [of "{LUCP_STAT_SUCCESS}"] w [OF pr(1)] by (auto simp: keeps_def write_inv_def)
qed

lemma on_result_keeps:
  assumes "on_result mt nx be e s = Some s'" "keeps full i t s" "st s \<noteq> SESSION_ERROR"
    "\<And>fs f. has_read (st s) fs \<Longrightarrow> msgType f \<noteq> mt \<Longrightarrow> has_read (st s) (fs @ [f])"
    "\<And>fs f. has_read (st s) fs \<Longrightarrow> good_result mt f \<Longrightarrow> has_read nx (fs @ [f])"
    "\<And>seq out. has_written full t (st s) seq out \<Longrightarrow> has_written full t nx seq out"
  shows "keeps full i t s'"
proof -
  obtain r s1 where g: "get_frame be s = Some (r, s1)" using assms(1) by (auto simp: on_result_def split: option.splits)
  note k = get_frame_spec [OF g] 
  have inv: "sess_inv s" "read_inv i s" "write_inv full t s" using assms(2) by (simp_all add: keeps_def)
  have w: "write_inv full t s1" using k(2-5) [OF inv(1)] inv(3) by (simp add: write_inv_def)
  have bad: "keeps full i t (s1\<lparr>st := SESSION_ERROR\<rparr>)"
    using k [OF inv(1)] write_inv_error [OF w] by (simp add: keeps_def)
  show ?thesis
  proof (cases "r = 0")
    case False
    then show ?thesis using assms(1) g bad k(8) [OF inv(1)] by (auto simp: on_result_def)
  next
    case r0: True
    have f: "valid_frame (in_frame s1)" "input s = wire (in_frame s1) @ input s1" using k(10) [OF inv(1) r0] by auto
    show ?thesis
    proof (cases "msgType (in_frame s1) = mt")
      case False
      have "read_inv i s1"
        by (rule read_inv_step [OF inv(2) assms(3) f(2,1)]) (use assms(4) False k(4) [OF inv(1)] in simp)
      then show ?thesis using assms(1) g r0 False k(1) [OF inv(1)] w by (simp add: on_result_def keeps_def)
    next
      case mt: True
      show ?thesis
      proof (cases "status (in_frame s1) = LUCP_STAT_SUCCESS")
        case False
        then show ?thesis using assms(1) g r0 mt bad by (auto simp: on_result_def keeps_def)
      next
        case True
        have "read_inv i (s1\<lparr>st := nx\<rparr>)"
          by (rule read_inv_step [OF inv(2) assms(3) _ f(1)]) (use assms(5) mt True f(2) in \<open>simp_all add: good_result_def\<close>)
        moreover have "write_inv full t (s1\<lparr>st := nx\<rparr>)"
          using w assms(6) k(4) [OF inv(1)] by (simp add: write_inv_def)
        ultimately show ?thesis using assms(1) g r0 mt True k(1) [OF inv(1)] 
          by (auto simp: on_result_def keeps_def)
      qed
    qed
  qed
qed

lemma session_turn_keeps:
  assumes "session_turn be cfg e s = Some s'" "keeps full i t s"
  shows "keeps full i t s'"
proof -
  let ?s = "check_timeout cfg e s"
  have k: "keeps full i t ?s"
    using check_timeout_cases [of cfg e s] assms(2)
    by (auto simp: keeps_def read_inv_def write_inv_def input_def simp del: has_written.simps dest: has_written_error)
  have sw: "session_switch be cfg e ?s = Some s'" using assms(1) by (simp add: session_turn_def)
  show ?thesis
  proof (cases "st ?s")
    case SESSION_INIT
    then show ?thesis using sw on_init_keeps [OF _ k] by (simp add: session_switch_def)
  next
    case SESSION_WAITING_UPLOAD_REQUEST
    then show ?thesis using sw on_upload_request_keeps [OF _ k] by (simp add: session_switch_def)
  next
    case SESSION_WAITING_FTP_LOGIN_RESULT
    then show ?thesis using sw 
      by (intro on_result_keeps [OF _ k, of LUCP_MTYP_FTP_LOGIN_RESULT SESSION_WAITING_FTP_DOWNLOAD_RESULT be e])
        (simp_all add: session_switch_def has_read_more has_read_skip del: has_read.simps)
  next
    case SESSION_WAITING_FTP_DOWNLOAD_RESULT
    then show ?thesis using sw 
      by (intro on_result_keeps [OF _ k, of LUCP_MTYP_FTP_DOWNLOAD_RESULT SESSION_COMPLETED be e])
        (simp_all add: session_switch_def has_read_more has_read_skip del: has_read.simps)
  qed (use sw k in \<open>auto simp: session_switch_def keeps_def\<close>)
qed

lemma session_loop_keeps:
  "session_loop be cfg e s = Some s' \<Longrightarrow> keeps full i t s \<Longrightarrow> keeps full i t s'"
proof (induction be cfg e s rule: session_loop.induct)
  case (1 be cfg e s)
  let ?s = "s\<lparr>polls := Suc (polls s)\<rparr>"
  have k: "keeps full i t ?s" using 1(3) by (simp add: keeps_def)
  show ?case
  proof (cases "running s \<and> up e (polls s)")
    case True
    then obtain s1 where s1: "session_turn be cfg e ?s = Some s1" "session_loop be cfg e s1 = Some s'"
      using 1(2) by (auto simp: session_loop.simps [of be cfg e s] split: option.splits)
    show ?thesis using 1(1) [OF True s1] session_turn_keeps [OF s1(1) k] by blast
  next
    case False
    then show ?thesis using 1(2,3) by (auto simp: session_loop.simps [of be cfg e s])
  qed
qed

section \<open>Runs without disturbance\<close>

definition can_write :: "nat \<Rightarrow> session \<Rightarrow> bool" where
  "can_write n s \<longleftrightarrow> list_all progress (wr (sk s)) \<and> n \<le> accepts (wr (sk s))"

lemma can_write_simps [simp]:
  "can_write n (touch e s) = can_write n s" "can_write n (s\<lparr>st := x\<rparr>) = can_write n s"
  "can_write n (s\<lparr>running := y\<rparr>) = can_write n s" "can_write n (s\<lparr>polls := i\<rparr>) = can_write n s"
  "can_write n (s\<lparr>rolls := i\<rparr>) = can_write n s" "can_write n (s\<lparr>ticks := i\<rparr>) = can_write n s"
  "can_write n (s\<lparr>sess_seq := w\<rparr>) = can_write n s"
  by (simp_all add: can_write_def)

lemma put_frame_completes:
  assumes "sess_inv s" "can_write (14 + unat n + m) s" "unat n \<le> LUCP_MAX_TEXTINFO_LEN"
  obtains f es where "put_frame be seq mt x t n s = Some (s\<lparr>out_frame := f, sk := (sk s)\<lparr>wr := es, tx := tx (sk s) @ wire f\<rparr>\<rparr>)"
    "valid_frame f" "seq_num f = seq" "msgType f = mt" "status f = x"
    "\<forall>u. t = Some u \<longrightarrow> unat n \<le> length u \<longrightarrow> text_of f = take (unat n) u"
    "list_all progress es" "m \<le> accepts es"
proof -
  have l: "length (textInfo (out_frame s)) = LUCP_MAX_TEXTINFO_LEN" using assms(1) by (simp add: sess_inv_def)
  obtain f where f: "lucp_frame_make (Some (out_frame s)) seq mt x t n = Some f" "valid_frame f" "seq_num f = seq"
      "msgType f = mt" "status f = x" "textInfo_len f = n" 
      "\<forall>u. t = Some u \<longrightarrow> unat n \<le> length u \<longrightarrow> text_of f = take (unat n) u"
    using frame_make_spec [OF l assms(3), of seq mt x t] by blast
  have w: "wf_frame f" "length (wire f) = 14 + unat n" using f by (simp_all add: valid_frame_def length_wire)
  obtain es where "lucp_net_send be (Some (netctx s)) (Some f) (sk s) = Some (0, (sk s)\<lparr>wr := es, tx := tx (sk s) @ wire f\<rparr>)"
     "list_all progress es" "accepts (wr (sk s)) - accepts es \<le> length (wire f)"
    using lucp_net_send_completes [OF w(1), of "sk s" be "netctx s"] assms(2) w(2) by (auto simp: can_write_def)
  moreover from this have "m \<le> accepts es" using assms(2) w(2) unfolding can_write_def by linarith
  ultimately show thesis using that [of f es] f by (simp add: put_frame_def)
qed

lemma get_frame_frame:
  assumes "sess_inv s" "valid_frame f" "quiet (rx (sk s))" "input s = wire f @ rest"
  obtains c es where "get_frame be s = Some (0, s\<lparr>netctx := c, in_frame := received f (in_frame s), sk := (sk s)\<lparr>rx := es\<rparr>\<rparr>)"
    "net_inv c" "quiet es" "pending c @ delivered es = rest" 
proof -
  obtain c es where "lucp_net_recv be (Some (netctx s)) (Some (in_frame s)) (sk s) =
       Some (0, Some c, Some (received f (in_frame s)), (sk s)\<lparr>rx := es\<rparr>)" 
      "net_inv c" "quiet es" "pending c @ delivered es = rest"
    using lucp_net_recv_frame [of "netctx s" f "in_frame s" "sk s" rest be] assms by (auto simp: sess_inv_def input_def)
  then show thesis using that by (simp add: get_frame_def)
qed

definition elapsed :: "env \<Rightarrow> nat \<Rightarrow> nat \<Rightarrow> int" where
  "elapsed e i j = sint (ucast (clock e j - clock e i) :: 32 word)"

text \<open>A state between two turns, as the next turn finds it.\<close>

definition ready :: "env \<Rightarrow> session \<Rightarrow> bool" where
  "ready e s \<longleftrightarrow> sess_inv s \<and> running s \<and> quiet (rx (sk s)) \<and> 0 < ticks s \<and>
     last_active s = clock e (ticks s - 1)"

lemma received_inv: "valid_frame f \<Longrightarrow> sess_inv s \<Longrightarrow> net_inv c \<Longrightarrow> 
   sess_inv (s\<lparr>netctx := c, in_frame := received f (in_frame s), sk := k\<rparr>)"
  using received_valid [of f "in_frame s"] by (simp add: sess_inv_def)

lemma in_time:
  assumes "ready e s" "elapsed e (ticks s - 1) (ticks s) \<le> session_timeout_ms (protocol cfg)"
  shows "check_timeout cfg e s = s\<lparr>ticks := Suc (ticks s)\<rparr>"
  using assms by (simp add: check_timeout_def ready_def elapsed_def Let_def)

lemma turn_request:
  assumes "ready e s" "elapsed e (ticks s - 1) (ticks s) \<le> session_timeout_ms (protocol cfg)"
    "st s = SESSION_INIT" "valid_frame r" "input s = wire r @ rest" "is_request r"
    "validate_version (protocol cfg) \<longrightarrow> version_major r = LUCP_VER_MAJOR" "can_write (14 + m) s"
  obtains a s' where "session_turn be cfg e s = Some s'" "ready e s'" "st s' = SESSION_WAITING_UPLOAD_REQUEST"
    "input s' = rest" "can_write m s'" "ticks s' = Suc (Suc (ticks s))" "sess_seq s' = seq_num r" 
    "tx (sk s') = tx (sk s) @ wire a" "is_ack (seq_num r) a" "status a = LUCP_STAT_SUCCESS" "rolls s' = rolls s"
proof -
  let ?s = "s\<lparr>ticks := Suc (ticks s)\<rparr>"
  have rd: "sess_inv ?s" "quiet (rx (sk ?s))" "input ?s = wire r @ rest" using assms by (simp_all add: ready_def)
  obtain c es where g: "get_frame be ?s = Some (0, ?s\<lparr>netctx := c, in_frame := received r (in_frame ?s), sk := (sk ?s)\<lparr>rx := es\<rparr>\<rparr>)"
      "net_inv c" "quiet es" "pending c @ delivered es = rest"
    using get_frame_frame [OF rd(1) assms(4) rd(2,3)] by blast
  let ?f = "received r (in_frame ?s)"
  have f: "msgType ?f = LUCP_MTYP_UPLOAD_REQUEST" "version_major ?f = version_major r" "seq_num ?f = seq_num r"
    using received_valid [OF assms(4), of "in_frame ?s"] rd(1) assms(6) by (simp_all add: sess_inv_def is_request_def)
  let ?t = "touch e (?s\<lparr>netctx := c, in_frame := ?f, sk := (sk ?s)\<lparr>rx := es\<rparr>, sess_seq := seq_num r, 
                         st := SESSION_WAITING_UPLOAD_REQUEST\<rparr>)"
  have t: "sess_inv ?t" "can_write (14 + unat (0::u16) + m) ?t" "unat (0::u16) \<le> LUCP_MAX_TEXTINFO_LEN"
    using received_inv [OF assms(4) rd(1) g(2)] assms(8) by (simp_all add: can_write_def sess_inv_def)
  obtain a ws where a: "put_frame be (seq_num r) LUCP_MTYP_ACK_START LUCP_STAT_SUCCESS None 0 ?t =
        Some (?t\<lparr>out_frame := a, sk := (sk ?t)\<lparr>wr := ws, tx := tx (sk ?t) @ wire a\<rparr>\<rparr>)"
     "valid_frame a" "seq_num a = seq_num r" "msgType a = LUCP_MTYP_ACK_START" "status a = LUCP_STAT_SUCCESS"
     "list_all progress ws" "m \<le> accepts ws"
    using put_frame_completes [OF t] by blast
  let ?u = "?t\<lparr>out_frame := a, sk := (sk ?t)\<lparr>wr := ws, tx := tx (sk ?t) @ wire a\<rparr>\<rparr>"
  show thesis
  proof
    show "session_turn be cfg e s = Some ?u"
      using g(1) f a(1) assms(3,7)
      by (cases "validate_version (protocol cfg)") (simp_all add: session_turn_def in_time [OF assms(1,2)] session_switch_def on_init_def Let_def)
    show "ready e ?u" using assms(1) t(1) a(2) g(3) by (simp add: ready_def sess_inv_def touch_def valid_frame_def wf_frame_def)
    show "input ?u = rest" using g(4) by (simp add: input_def)
    show "is_ack (seq_num r) a" using a by (simp add: is_ack_def)
  qed (use a in \<open>simp_all add: can_write_def touch_def\<close>)
qed

lemma turn_notify:
  assumes "ready e s" "elapsed e (ticks s - 1) (ticks s) \<le> session_timeout_ms (protocol cfg)"
    "st s = SESSION_WAITING_UPLOAD_REQUEST" "dice e (rolls s) mod 10 < 8" "can_write 39 s"
  obtains a s' where "session_turn be cfg e s = Some s'" "ready e s'" "st s' = SESSION_WAITING_FTP_LOGIN_RESULT"
    "input s' = input s" "ticks s' = Suc (Suc (ticks s))" 
    "tx (sk s') = tx (sk s) @ wire a" "is_notify (sess_seq s) a" "status a = LUCP_STAT_SUCCESS" 
    "text_of a = bytes_of ''demo_logfile_20250925.log''"
proof -
  let ?s = "s\<lparr>ticks := Suc (ticks s), rolls := Suc (rolls s)\<rparr>"
  have l: "unat (25 :: u16) = 25" by simp
  have t: "sess_inv ?s" "can_write (14 + unat (25::u16) + 0) ?s" "unat (25::u16) \<le> LUCP_MAX_TEXTINFO_LEN"
    using assms(1,5) by (simp_all add: can_write_def ready_def lucp_consts)
  obtain a ws where a: "put_frame be (sess_seq s) LUCP_MTYP_NOTIFY_DONE LUCP_STAT_SUCCESS
        (Some (bytes_of ''demo_logfile_20250925.log'')) 25 ?s =
        Some (?s\<lparr>out_frame := a, sk := (sk ?s)\<lparr>wr := ws, tx := tx (sk ?s) @ wire a\<rparr>\<rparr>)"
     "valid_frame a" "seq_num a = sess_seq s" "msgType a = LUCP_MTYP_NOTIFY_DONE" "status a = LUCP_STAT_SUCCESS"
     "\<forall>u. Some (bytes_of ''demo_logfile_20250925.log'') = Some u \<longrightarrow> unat (25 :: u16) \<le> length u \<longrightarrow>
        text_of a = take (unat (25 :: u16)) u"
    using put_frame_completes [OF t] by blast
  let ?u = "touch e (?s\<lparr>out_frame := a, sk := (sk ?s)\<lparr>wr := ws, tx := tx (sk ?s) @ wire a\<rparr>, st := SESSION_WAITING_FTP_LOGIN_RESULT\<rparr>)"
  show thesis
  proof
    show "session_turn be cfg e s = Some ?u"
      using a(1) assms(3,4)
      by (simp add: session_turn_def in_time [OF assms(1,2)] session_switch_def on_upload_request_def prep_result_def Let_def)
    show "ready e ?u" using assms(1) a(2) by (simp add: ready_def sess_inv_def touch_def valid_frame_def wf_frame_def)
    show "input ?u = input s" by (simp add: input_def)
    show "is_notify (sess_seq s) a" using a by (simp add: is_notify_def)
    show "text_of a = bytes_of ''demo_logfile_20250925.log''" using a(6) by simp
  qed (use a in \<open>simp_all add: touch_def\<close>)
qed

lemma turn_result:
  assumes "ready e s" "elapsed e (ticks s - 1) (ticks s) \<le> session_timeout_ms (protocol cfg)"
    "session_switch be cfg e (s\<lparr>ticks := Suc (ticks s)\<rparr>) = on_result mt nx be e (s\<lparr>ticks := Suc (ticks s)\<rparr>)"
    "valid_frame r" "input s = wire r @ rest" "good_result mt r"
  obtains s' where "session_turn be cfg e s = Some s'" "ready e s'" "st s' = nx"
    "input s' = rest" "ticks s' = Suc (Suc (ticks s))" "tx (sk s') = tx (sk s)" 
proof -
  let ?s = "s\<lparr>ticks := Suc (ticks s)\<rparr>"
  have rd: "sess_inv ?s" "quiet (rx (sk ?s))" "input ?s = wire r @ rest" using assms by (simp_all add: ready_def)
  obtain c es where g: "get_frame be ?s = Some (0, ?s\<lparr>netctx := c, in_frame := received r (in_frame ?s), sk := (sk ?s)\<lparr>rx := es\<rparr>\<rparr>)"
      "net_inv c" "quiet es" "pending c @ delivered es = rest"
    using get_frame_frame [OF rd(1) assms(4) rd(2,3)] by blast
  let ?f = "received r (in_frame ?s)"
  have f: "msgType ?f = mt" "status ?f = LUCP_STAT_SUCCESS"
    using received_valid [OF assms(4), of "in_frame ?s"] rd(1) assms(6) by (simp_all add: sess_inv_def good_result_def)
  let ?u = "touch e (?s\<lparr>netctx := c, in_frame := ?f, sk := (sk ?s)\<lparr>rx := es\<rparr>, st := nx\<rparr>)"
  show thesis
  proof
    show "session_turn be cfg e s = Some ?u"
      using g(1) f by (simp add: session_turn_def in_time [OF assms(1,2)] assms(3) on_result_def)
    show "ready e ?u" using assms(1) received_inv [OF assms(4) rd(1) g(2)] g(3) 
      by (simp add: ready_def sess_inv_def touch_def)
    show "input ?u = rest" using g(4) by (simp add: input_def)
  qed (simp_all add: touch_def)
qed

lemma session_loop_turn:
  assumes "running s" "up e (polls s)" "session_turn be cfg e (s\<lparr>polls := Suc (polls s)\<rparr>) = Some s'"
  shows "session_loop be cfg e s = session_loop be cfg e s'"
  using assms by (simp add: session_loop.simps [of be cfg e s])

lemma ready_polls [simp]: "ready e (s\<lparr>polls := n\<rparr>) = ready e s"
  by (simp add: ready_def)

lemma thread_start:
  assumes "length (textInfo f) = LUCP_MAX_TEXTINFO_LEN" "length (textInfo g) = LUCP_MAX_TEXTINFO_LEN"
  obtains s where "session_thread be cfg e c f g n k = session_loop be cfg e s" "sess_inv s" "running s"
    "st s = SESSION_INIT" "sk s = k" "input s = delivered (rx k)" "ticks s = 1" "polls s = 0" "rolls s = 0"
    "last_active s = clock e 0" "in_frame s = f" "out_frame s = g"
proof -
  obtain d where d: "lucp_net_ctx_init (Some c) n = Some d" by (simp add: lucp_net_ctx_init_def)
  note i = init_inv [OF d]
  show thesis
    by (rule that [of "touch e \<lparr>st = SESSION_INIT, sess_seq = 0, last_active = 0, netctx = d, in_frame = f,
                      out_frame = g, running = True, sk = k, ticks = 0, rolls = 0, polls = 0\<rparr>"])
      (use i d assms in \<open>simp_all add: session_thread_def sess_inv_def input_def touch_def\<close>)
qed

lemma thread_keeps:
  assumes "session_thread be cfg e c f g n k = Some s'"
    "length (textInfo f) = LUCP_MAX_TEXTINFO_LEN" "length (textInfo g) = LUCP_MAX_TEXTINFO_LEN"
    "full \<longrightarrow> list_all progress (wr k)"
  shows "keeps full (delivered (rx k)) (tx k) s'"
proof -
  obtain s where s: "session_thread be cfg e c f g n k = session_loop be cfg e s" "sess_inv s" "running s"
    "st s = SESSION_INIT" "sk s = k" "input s = delivered (rx k)"
    using thread_start [OF assms(2,3)] by blast
  have "keeps full (delivered (rx k)) (tx k) s"
    using s assms(4) by (auto simp: keeps_def read_inv_def write_inv_def intro!: exI [of _ "[]"])
  then show ?thesis using session_loop_keeps assms(1) s(1) by metis
qed

definition in_time_at :: "lucpd_config \<Rightarrow> env \<Rightarrow> nat \<Rightarrow> bool" where
  "in_time_at cfg e i \<longleftrightarrow> elapsed e i (Suc i) \<le> session_timeout_ms (protocol cfg)"

lemma thread_upload:
  assumes "length (textInfo f) = LUCP_MAX_TEXTINFO_LEN" "length (textInfo g) = LUCP_MAX_TEXTINFO_LEN"
    "quiet (rx k)" "delivered (rx k) = wire r @ wire l @ wire d @ rest"
    "valid_frame r" "is_request r" "validate_version (protocol cfg) \<longrightarrow> version_major r = LUCP_VER_MAJOR"
    "valid_frame l" "good_result LUCP_MTYP_FTP_LOGIN_RESULT l"
    "valid_frame d" "good_result LUCP_MTYP_FTP_DOWNLOAD_RESULT d"
    "list_all progress (wr k)" "53 \<le> accepts (wr k)"
    "\<And>i. up e i" "dice e 0 mod 10 < 8" "\<And>i. i \<in> {0, 2, 4, 6, 8} \<Longrightarrow> in_time_at cfg e i"
  obtains s a b where "session_thread be cfg e c f g n k = Some s" "st s = SESSION_COMPLETED"
    "tx (sk s) = tx k @ wire a @ wire b" "is_ack (seq_num r) a" "status a = LUCP_STAT_SUCCESS"
    "is_notify (seq_num r) b" "status b = LUCP_STAT_SUCCESS"
    "text_of b = bytes_of ''demo_logfile_20250925.log''" "input s = rest"
proof -
  note T = assms(16) [unfolded in_time_at_def]
  define q where "q s = s\<lparr>polls := Suc (polls s)\<rparr>" for s :: session
  have q [simp]: "ready e (q s) = ready e s" "st (q s) = st s" "ticks (q s) = ticks s" "input (q s) = input s"
     "can_write m (q s) = can_write m s" "sk (q s) = sk s" "rolls (q s) = rolls s" "sess_seq (q s) = sess_seq s" for s m
    by (simp_all add: q_def)
  have lp: "session_loop be cfg e s = session_loop be cfg e s'" if "ready e s" "session_turn be cfg e (q s) = Some s'" for s s'
    using session_loop_turn [of s e be cfg s'] that assms(14) by (simp add: ready_def q_def)
  obtain s0 where s0: "session_thread be cfg e c f g n k = session_loop be cfg e s0" "sess_inv s0" "running s0"
    "st s0 = SESSION_INIT" "sk s0 = k" "input s0 = delivered (rx k)" "ticks s0 = 1" "rolls s0 = 0" "last_active s0 = clock e 0"
    using thread_start [OF assms(1,2)] by blast
  have r0: "ready e s0" using s0 assms(3) by (simp add: ready_def)
  have w0: "can_write (14 + 39) s0" using s0(5) assms(12,13) by (simp add: can_write_def)
  obtain a s1 where s1: "session_turn be cfg e (q s0) = Some s1" "ready e s1" "st s1 = SESSION_WAITING_UPLOAD_REQUEST"
    "input s1 = wire l @ wire d @ rest" "can_write 39 s1" "ticks s1 = Suc (Suc (ticks (q s0)))" "sess_seq s1 = seq_num r" 
    "tx (sk s1) = tx (sk (q s0)) @ wire a" "is_ack (seq_num r) a" "status a = LUCP_STAT_SUCCESS" "rolls s1 = rolls (q s0)"
    by (rule turn_request [of e "q s0" cfg r "wire l @ wire d @ rest" 39 be])
      (use r0 w0 s0 assms(4-7) T [of 0] in simp_all)
  obtain b s2 where s2: "session_turn be cfg e (q s1) = Some s2" "ready e s2" "st s2 = SESSION_WAITING_FTP_LOGIN_RESULT"
    "input s2 = input (q s1)" "ticks s2 = Suc (Suc (ticks (q s1)))" 
    "tx (sk s2) = tx (sk (q s1)) @ wire b" "is_notify (sess_seq (q s1)) b" "status b = LUCP_STAT_SUCCESS" 
    "text_of b = bytes_of ''demo_logfile_20250925.log''"
    by (rule turn_notify [of e "q s1" cfg be])
      (use s1 s0 assms(15) T [of 2] in \<open>simp_all add: numeral_2_eq_2 numeral_3_eq_3\<close>)
  obtain s3 where s3: "session_turn be cfg e (q s2) = Some s3" "ready e s3" "st s3 = SESSION_WAITING_FTP_DOWNLOAD_RESULT"
    "input s3 = wire d @ rest" "ticks s3 = Suc (Suc (ticks (q s2)))" "tx (sk s3) = tx (sk (q s2))"
    by (rule turn_result [of e "q s2" cfg be LUCP_MTYP_FTP_LOGIN_RESULT SESSION_WAITING_FTP_DOWNLOAD_RESULT l "wire d @ rest"])
      (use s2 s1 s0 assms(8,9) T [of 4] in \<open>simp_all add: session_switch_def eval_nat_numeral\<close>)
  obtain s4 where s4: "session_turn be cfg e (q s3) = Some s4" "ready e s4" "st s4 = SESSION_COMPLETED"
    "input s4 = rest" "ticks s4 = Suc (Suc (ticks (q s3)))" "tx (sk s4) = tx (sk (q s3))"
    by (rule turn_result [of e "q s3" cfg be LUCP_MTYP_FTP_DOWNLOAD_RESULT SESSION_COMPLETED d rest])
      (use s3 s2 s1 s0 assms(10,11) T [of 6] in \<open>simp_all add: session_switch_def eval_nat_numeral\<close>)
  have t4: "ticks s4 = 9" using s4 s3 s2 s1 s0 by simp
  have "check_timeout cfg e (q s4) = (q s4)\<lparr>ticks := Suc (ticks (q s4))\<rparr>"
    by (rule in_time) (use s4(2) t4 T [of 8] in simp_all)
  then have s5: "session_turn be cfg e (q s4) = Some ((q s4)\<lparr>ticks := Suc (ticks (q s4)), running := False\<rparr>)"
    using s4(3) by (simp add: session_turn_def session_switch_def)
  let ?s = "(q s4)\<lparr>ticks := Suc (ticks (q s4)), running := False\<rparr>"
  have "session_thread be cfg e c f g n k = session_loop be cfg e ?s"
    using s0(1) lp [OF r0 s1(1)] lp [OF s1(2) s2(1)] lp [OF s2(2) s3(1)] lp [OF s3(2) s4(1)] lp [OF s4(2) s5] by simp
  moreover have "session_loop be cfg e ?s = Some ?s" by (subst session_loop.simps) simp
  ultimately have "session_thread be cfg e c f g n k = Some ?s" by simp
  then show thesis
    by (rule that [of ?s a b]) (use s4 s3 s2 s1 s0 in simp_all)
qed

section \<open>Every session ends when its peer does\<close>

definition will_end :: "session \<Rightarrow> bool" where
  "will_end s \<longleftrightarrow> (\<exists>ev \<in> set (rx (sk s)). ev = Rd_Eof \<or> ev = Rd_Error)"

fun write_budget :: "session_state \<Rightarrow> nat" where
  "write_budget SESSION_INIT = 66"
| "write_budget SESSION_WAITING_UPLOAD_REQUEST = 52"
| "write_budget _ = 0"

definition not_stuck :: "session \<Rightarrow> bool" where
  "not_stuck s \<longleftrightarrow> st s = SESSION_ERROR \<or>
     sess_inv s \<and> will_end s \<and> can_write (write_budget (st s)) s"

lemma not_stuck_simps [simp]:
  "not_stuck (touch e s) = not_stuck s" "not_stuck (s\<lparr>running := y\<rparr>) = not_stuck s" 
  "not_stuck (s\<lparr>polls := n\<rparr>) = not_stuck s"  "not_stuck (s\<lparr>ticks := n\<rparr>) = not_stuck s"
  by (simp_all add: not_stuck_def will_end_def)

lemma can_write_less: "can_write n s \<Longrightarrow> m \<le> n \<Longrightarrow> can_write m s"
  by (simp add: can_write_def)

lemma not_stuck_error [simp]: "not_stuck (s\<lparr>st := SESSION_ERROR\<rparr>)"
  by (simp add: not_stuck_def)

lemma get_frame_returns:
  assumes "not_stuck s" "st s \<noteq> SESSION_ERROR"
  obtains r s' where "get_frame be s = Some (r, s')" "r = 0 \<or> r = -1" "st s' = st s"
    "sess_inv s'" "can_write n s \<Longrightarrow> can_write n s'" "r = 0 \<Longrightarrow> will_end s'" "wr (sk s') = wr (sk s)"
proof -
  have i: "sess_inv s" "\<exists>ev \<in> set (rx (sk s)). ev = Rd_Eof \<or> ev = Rd_Error"
    using assms by (auto simp: not_stuck_def will_end_def)
  obtain r oc og k where r: "lucp_net_recv be (Some (netctx s)) (Some (in_frame s)) (sk s) = Some (r, oc, og, k)"
    using lucp_net_recv_returns [OF i(2), of be "netctx s" "in_frame s"] by (metis not_None_eq prod_cases4)
  have n: "net_inv (netctx s)" "length (textInfo (in_frame s)) = LUCP_MAX_TEXTINFO_LEN"
    using i(1) by (simp_all add: sess_inv_def)
  obtain c f where "oc = Some c" "og = Some f" using lucp_net_recv_inv [OF n r] by blast
  then have g: "get_frame be s = Some (r, s\<lparr>netctx := c, in_frame := f, sk := k\<rparr>)"
    using r by (simp add: get_frame_def)
  note sp = get_frame_spec [OF g i(1)]
  show thesis
  proof (rule that [OF g])
    show "will_end (s\<lparr>netctx := c, in_frame := f, sk := k\<rparr>)" if "r = 0"
      using lucp_net_recv_keeps_end [OF r [unfolded that]] i(2) by (auto simp: will_end_def)
  qed (use sp in \<open>auto simp: can_write_def\<close>)
qed
lemma put_frame_not_stuck:
  assumes "sess_inv s" "can_write (14 + unat n + m) s" "unat n \<le> LUCP_MAX_TEXTINFO_LEN" "will_end s"
  obtains s' where "put_frame be seq mt x t n s = Some s'" "st s' = st s" "sess_inv s'" "can_write m s'" "will_end s'"
proof -
  obtain f es where "put_frame be seq mt x t n s =
        Some (s\<lparr>out_frame := f, sk := (sk s)\<lparr>wr := es, tx := tx (sk s) @ wire f\<rparr>\<rparr>)"
      "valid_frame f" "list_all progress es" "m \<le> accepts es"
    using put_frame_completes [OF assms(1-3)] by blast
  then show thesis using that assms(1,4)
    by (simp add: sess_inv_def can_write_def will_end_def valid_frame_def wf_frame_def)
qed

lemma on_init_not_stuck:
  assumes "not_stuck s" "st s = SESSION_INIT"
  shows "\<exists>s'. on_init be cfg e s = Some s' \<and> not_stuck s'" 
proof -
  have ne: "st s \<noteq> SESSION_ERROR" using assms(2) by simp
  obtain r s1 where g: "get_frame be s = Some (r, s1)" "r = 0 \<or> r = -1" "st s1 = st s" "sess_inv s1"
      "can_write 66 s \<longrightarrow> can_write 66 s1" "r = 0 \<longrightarrow> will_end s1"
    using get_frame_returns [OF assms(1) ne, of be] by metis
  have w: "can_write 66 s1" using g(5) assms by (simp add: not_stuck_def)
  show ?thesis
  proof (cases "r = 0 \<and> msgType (in_frame s1) = LUCP_MTYP_UPLOAD_REQUEST")
    case True
    have l: "unat (11 :: u16) \<le> LUCP_MAX_TEXTINFO_LEN" "unat (0 :: u16) \<le> LUCP_MAX_TEXTINFO_LEN"
      by (simp_all add: lucp_consts)
    show ?thesis
    proof (cases "validate_version (protocol cfg) \<and> version_major (in_frame s1) \<noteq> LUCP_VER_MAJOR")
      case bad: True
      have w25: "can_write (14 + unat (11 :: u16) + 0) s1" by (rule can_write_less [OF w]) simp
      have we: "will_end s1" using g(6) True by simp
      obtain s2 where "put_frame be (seq_num (in_frame s1)) LUCP_MTYP_ACK_START LUCP_STAT_FAILED
             (Some (bytes_of ''Bad version'')) 11 s1 = Some s2" "sess_inv s2" "can_write 0 s2" "will_end s2"
        using put_frame_not_stuck [OF g(4) w25 l(1) we] by blast
      then show ?thesis using g(1) True bad
        by (auto simp: on_init_def not_stuck_def will_end_def)
    next
      case False
      let ?s = "touch e (s1\<lparr>sess_seq := seq_num (in_frame s1), st := SESSION_WAITING_UPLOAD_REQUEST\<rparr>)"
      have i: "sess_inv ?s" "can_write (14 + unat (0 :: u16) + 52) ?s" "will_end ?s"
        using g(4,6) w True by (simp_all add: will_end_def)
      obtain s2 where "put_frame be (sess_seq ?s) LUCP_MTYP_ACK_START LUCP_STAT_SUCCESS None 0 ?s = Some s2"
          "st s2 = st ?s" "sess_inv s2" "can_write 52 s2" "will_end s2"
        using put_frame_not_stuck [OF i(1,2) l(2) i(3)] by blast
      then show ?thesis using g(1) True False by (auto simp: on_init_def not_stuck_def Let_def)
    qed
  next
    case False
    show ?thesis
    proof (cases "r = 0")
      case True
      then show ?thesis using g False assms(2) w by (auto simp: on_init_def not_stuck_def)
    next
      case False
      then have "on_init be cfg e s = Some (s1\<lparr>st := SESSION_ERROR\<rparr>)"
        using g by (auto simp: on_init_def)
      then show ?thesis by simp
    qed
  qed
qed

lemma on_upload_request_not_stuck:
  assumes "not_stuck s" "st s = SESSION_WAITING_UPLOAD_REQUEST"
  shows "\<exists>s'. on_upload_request be e s = Some s' \<and> not_stuck s'"
proof -
  obtain x y where xy: "prep_result (dice e (rolls s) mod 10) = (x, y)" by fastforce
  note pr = prep_status [of "dice e (rolls s) mod 10", unfolded xy fst_conv snd_conv]
  have "length y \<le> 38" using arg_cong [OF xy, of "\<lambda>p. length (snd p)"]
    by (auto simp: prep_result_def split: if_splits)
  then have le: "14 + unat (of_nat (length y) :: u16) + 0 \<le> 52" unfolding pr(3) by simp
  have "can_write 52 s" using assms by (simp add: not_stuck_def)
  then have w: "can_write (14 + unat (of_nat (length y) :: u16) + 0) s" using le by (rule can_write_less)
  let ?s = "s\<lparr>rolls := Suc (rolls s)\<rparr>"
  have i: "sess_inv ?s" "will_end ?s" "can_write (14 + unat (of_nat (length y) :: u16) + 0) ?s"
    using assms w by (simp_all only: can_write_simps) (simp_all add: not_stuck_def will_end_def)
  obtain s1 where "put_frame be (sess_seq ?s) LUCP_MTYP_NOTIFY_DONE x (Some (bytes_of y)) (of_nat (length y)) ?s = Some s1"
      "sess_inv s1" "can_write 0 s1" "will_end s1"
    using put_frame_not_stuck [OF i(1,3) pr(2) i(2)] by blast
  then show ?thesis using xy by (auto simp: on_upload_request_def not_stuck_def will_end_def)
qed

lemma on_result_not_stuck:
  assumes "not_stuck s" "st s = SESSION_WAITING_FTP_LOGIN_RESULT \<or> st s = SESSION_WAITING_FTP_DOWNLOAD_RESULT" "write_budget nx = 0"
  shows "\<exists>s'. on_result mt nx be e s = Some s' \<and> not_stuck s'"
proof -
  have ne: "st s \<noteq> SESSION_ERROR" using assms(2) by auto
  obtain r s1 where g: "get_frame be s = Some (r, s1)" "r = 0 \<or> r = -1" "st s1 = st s" "sess_inv s1"
      "can_write 0 s \<longrightarrow> can_write 0 s1" "r = 0 \<longrightarrow> will_end s1"
    using get_frame_returns [OF assms(1) ne, of be] by metis
  have "can_write 0 s1" "write_budget (st s) = 0" using g(5) assms(1,2) by (auto simp: not_stuck_def)
  then show ?thesis using g assms(3) by (auto simp: on_result_def not_stuck_def will_end_def)
qed

lemma session_turn_not_stuck:
  assumes "not_stuck s"
  shows "\<exists>s'. session_turn be cfg e s = Some s' \<and> not_stuck s'"
proof -
  let ?s = "check_timeout cfg e s"
  have n: "not_stuck ?s" using check_timeout_cases [of cfg e s] assms by auto
  show ?thesis
  proof (cases "st ?s")
    case SESSION_INIT
    then show ?thesis using on_init_not_stuck [OF n] by (simp add: session_turn_def session_switch_def)
  next
    case SESSION_WAITING_UPLOAD_REQUEST
    then show ?thesis using on_upload_request_not_stuck [OF n] by (simp add: session_turn_def session_switch_def)
  qed (use n on_result_not_stuck [OF n] in \<open>simp_all add: session_turn_def session_switch_def\<close>)
qed

lemma session_loop_not_stuck: "not_stuck s \<Longrightarrow> \<exists>s'. session_loop be cfg e s = Some s' \<and> not_stuck s'"
proof (induction be cfg e s rule: session_loop.induct)
  case (1 be cfg e s)
  let ?s = "s\<lparr>polls := Suc (polls s)\<rparr>"
  obtain s1 where s1: "session_turn be cfg e ?s = Some s1" "not_stuck s1"
    using session_turn_not_stuck [of ?s be cfg e] 1(2) by auto
  then show ?case using 1 by (simp add: session_loop.simps [of be cfg e s])
qed

section \<open>Properties\<close>

text \<open>C5. A complete session. If the peer's stream is an upload request with the right version, a
  successful login result and a successful download result, the writes succeed, no reading of the
  clock at the head of a turn is later than the session time-out after the last activity and the
  preparation of the log succeeds, then the session thread ends in the state COMPLETED, has sent
  exactly an acknowledgement and a notification with the name of the log file, both with the
  sequence number of the request, and has read exactly the three frames. The time spent in the
  receives themselves is not bounded by anything.\<close>

theorem lucpd_session_completes:
  assumes "length (textInfo f) = LUCP_MAX_TEXTINFO_LEN" "length (textInfo g) = LUCP_MAX_TEXTINFO_LEN"
    "quiet (rx k)" "delivered (rx k) = wire r @ wire l @ wire d @ rest"
    "valid_frame r" "msgType r = LUCP_MTYP_UPLOAD_REQUEST" "version_major r = LUCP_VER_MAJOR"
    "valid_frame l" "msgType l = LUCP_MTYP_FTP_LOGIN_RESULT" "status l = LUCP_STAT_SUCCESS"
    "valid_frame d" "msgType d = LUCP_MTYP_FTP_DOWNLOAD_RESULT" "status d = LUCP_STAT_SUCCESS"
    "list_all progress (wr k)" "53 \<le> accepts (wr k)"
    "\<And>i. up e i" "dice e 0 mod 10 < 8" "\<And>i. i \<in> {0, 2, 4, 6, 8} \<Longrightarrow> in_time_at cfg e i"
  shows "\<exists>s a b. session_thread be cfg e c f g n k = Some s \<and> st s = SESSION_COMPLETED \<and>
     tx (sk s) = tx k @ wire a @ wire b \<and> is_ack (seq_num r) a \<and> status a = LUCP_STAT_SUCCESS \<and>
     is_notify (seq_num r) b \<and> status b = LUCP_STAT_SUCCESS \<and>
     text_of b = bytes_of ''demo_logfile_20250925.log'' \<and> input s = rest"
proof -
  have "is_request r" "good_result LUCP_MTYP_FTP_LOGIN_RESULT l" "good_result LUCP_MTYP_FTP_DOWNLOAD_RESULT d"
    using assms(6,9,10,12,13) by (simp_all add: is_request_def good_result_def)
  from thread_upload [OF assms(1-5) this(1) _ assms(8) this(2) assms(11) this(3) assms(14-18), of be c n]
  show ?thesis using assms(7) by blast
qed

definition steady_env :: env where
  "steady_env = \<lparr>clock = \<lambda>i. 1000 * of_nat i, dice = \<lambda>_. 3, up = \<lambda>_. True\<rparr>"

definition answer :: "byte \<Rightarrow> lucp_frame" where
  "answer mt = sample_frame\<lparr>msgType := mt, status := LUCP_STAT_SUCCESS\<rparr>"

definition talk :: sock where
  "talk = \<lparr>rx = [Rd_Data (wire sample_frame), Rd_Eintr, Rd_Data (wire (answer LUCP_MTYP_FTP_LOGIN_RESULT) @
              wire (answer LUCP_MTYP_FTP_DOWNLOAD_RESULT))],
           wr = replicate 60 (Wr_Accept 9), sel = [], tx = []\<rparr>"

lemma wire_nonempty [simp]: "wire f \<noteq> []" by (simp add: wire_def be32_def)

lemma talk [simp]: "tx talk = []" "quiet (rx talk)" "list_all progress (wr talk)" "accepts (wr talk) = 60"
  "delivered (rx talk) = wire sample_frame @ wire (answer LUCP_MTYP_FTP_LOGIN_RESULT) @
     wire (answer LUCP_MTYP_FTP_DOWNLOAD_RESULT)"
  by (simp_all add: talk_def list_all_iff accepts_def)

lemma answer [simp]: "valid_frame (answer mt)" "msgType (answer mt) = mt" "status (answer mt) = LUCP_STAT_SUCCESS"
  using sample_frame_valid by (simp_all add: answer_def valid_frame_def wf_frame_def)

lemma sample_request: "msgType sample_frame = LUCP_MTYP_UPLOAD_REQUEST" "version_major sample_frame = LUCP_VER_MAJOR"
   "seq_num sample_frame = 7"
  by (simp_all add: sample_frame_def LUCP_VER_MAJOR_def)

lemma steady: "elapsed steady_env i (Suc i) = 1000"
proof -
  have "clock steady_env (Suc i) - clock steady_env i = 1000"
    by (simp add: steady_env_def distrib_left)
  then show ?thesis by (simp add: elapsed_def)
qed

lemma steady_up: "up steady_env i" "dice steady_env i = 3"
  by (simp_all add: steady_env_def)

definition talk_config :: lucpd_config where
  "talk_config = set_default_config zero_config"

lemma talk_config: "session_timeout_ms (protocol talk_config) = 2000" "validate_version (protocol talk_config)"
  by (simp_all add: talk_config_def set_default_config_def)

theorem lucpd_session_completes_witness:
  "\<exists>s a b. session_thread False talk_config steady_env fresh_ctx blank_frame blank_frame 4 talk = Some s \<and>
     st s = SESSION_COMPLETED \<and> tx (sk s) = wire a @ wire b \<and> is_ack 7 a \<and> is_notify 7 b \<and> input s = []"
proof -
  have "\<exists>s a b. session_thread False talk_config steady_env fresh_ctx blank_frame blank_frame 4 talk = Some s \<and>
     st s = SESSION_COMPLETED \<and> tx (sk s) = tx talk @ wire a @ wire b \<and> is_ack (seq_num sample_frame) a \<and>
     status a = LUCP_STAT_SUCCESS \<and> is_notify (seq_num sample_frame) b \<and> status b = LUCP_STAT_SUCCESS \<and>
     text_of b = bytes_of ''demo_logfile_20250925.log'' \<and> input s = []"
    by (rule lucpd_session_completes [where l = "answer LUCP_MTYP_FTP_LOGIN_RESULT"
          and d = "answer LUCP_MTYP_FTP_DOWNLOAD_RESULT"])
      (use sample_frame_valid in
        \<open>simp_all add: sample_request in_time_at_def steady talk_config steady_up\<close>)
  then show ?thesis by (simp only: talk(1) sample_request append_Nil) blast
qed


lemma talk_run:
  "\<exists>s. session_thread False talk_config steady_env fresh_ctx blank_frame blank_frame 4 talk = Some s \<and>
     st s = SESSION_COMPLETED"
proof -
  have i: "is_request sample_frame" "good_result mt (answer mt)" for mt
    by (simp_all add: is_request_def good_result_def sample_request)
  obtain s where "session_thread False talk_config steady_env fresh_ctx blank_frame blank_frame 4 talk = Some s"
      "st s = SESSION_COMPLETED"
    by (rule thread_upload [OF blank_text blank_text talk(2), of sample_frame "answer LUCP_MTYP_FTP_LOGIN_RESULT"
          "answer LUCP_MTYP_FTP_DOWNLOAD_RESULT" "[]" talk_config steady_env False fresh_ctx 4])
      (use sample_frame_valid i in \<open>simp_all add: sample_request in_time_at_def steady talk_config steady_up\<close>)
  then show ?thesis by blast
qed

text \<open>C9. No session completes without its evidence. If the session thread ends in the state COMPLETED,
  the bytes its socket delivered start with the wire forms of an upload request, a successful login
  result and a successful download result in this order, with only frames of other types between
  them, whatever the socket, the clock and the random numbers did.\<close>

theorem lucpd_session_completed_reads:
  assumes "session_thread be cfg e c f g n k = Some s" "st s = SESSION_COMPLETED"
    "length (textInfo f) = LUCP_MAX_TEXTINFO_LEN" "length (textInfo g) = LUCP_MAX_TEXTINFO_LEN"
  shows "\<exists>js r js' l js'' d rest.
     delivered (rx k) = concat (map wire (js @ [r] @ js' @ [l] @ js'' @ [d])) @ rest \<and>
     list_all valid_frame (js @ [r] @ js' @ [l] @ js'' @ [d]) \<and>
     is_request r \<and> good_result LUCP_MTYP_FTP_LOGIN_RESULT l \<and>
     good_result LUCP_MTYP_FTP_DOWNLOAD_RESULT d \<and>
     list_all (other_than LUCP_MTYP_UPLOAD_REQUEST) js \<and>
     list_all (other_than LUCP_MTYP_FTP_LOGIN_RESULT) js' \<and>
     list_all (other_than LUCP_MTYP_FTP_DOWNLOAD_RESULT) js''"
proof -
  obtain fs where fs: "read_all fs" "list_all valid_frame fs" "delivered (rx k) = concat (map wire fs) @ input s"
    using thread_keeps [OF assms(1,3,4), of False] assms(2) by (auto simp: keeps_def read_inv_def)
  then obtain js r js' l js'' d where "fs = js @ [r] @ js' @ [l] @ js'' @ [d]"
      "is_request r" "good_result LUCP_MTYP_FTP_LOGIN_RESULT l" "good_result LUCP_MTYP_FTP_DOWNLOAD_RESULT d"
      "list_all (other_than LUCP_MTYP_UPLOAD_REQUEST) js" "list_all (other_than LUCP_MTYP_FTP_LOGIN_RESULT) js'"
      "list_all (other_than LUCP_MTYP_FTP_DOWNLOAD_RESULT) js''"
    by (auto simp: read_all_def read_before_download_def read_before_login_def read_request_def)
  with fs(2,3) show ?thesis by blast
qed

theorem lucpd_session_completed_reads_witness:
  "\<exists>s js r js' l js'' d rest.
     session_thread False talk_config steady_env fresh_ctx blank_frame blank_frame 4 talk = Some s \<and>
     delivered (rx talk) = concat (map wire (js @ [r] @ js' @ [l] @ js'' @ [d])) @ rest \<and>
     is_request r \<and> good_result LUCP_MTYP_FTP_LOGIN_RESULT l \<and>
     good_result LUCP_MTYP_FTP_DOWNLOAD_RESULT d"
proof -
  obtain s where s: "session_thread False talk_config steady_env fresh_ctx blank_frame blank_frame 4 talk = Some s"
      "st s = SESSION_COMPLETED" using talk_run by blast
  from lucpd_session_completed_reads [OF s blank_text blank_text] s(1) show ?thesis by blast
qed

definition sent_in :: "session_state \<Rightarrow> lucp_frame \<Rightarrow> byte list \<Rightarrow> byte list \<Rightarrow> byte list \<Rightarrow> byte list \<Rightarrow> byte list \<Rightarrow> bool" where
  "sent_in x b out t p q r \<longleftrightarrow> (case x of
        SESSION_INIT \<Rightarrow> out = t
      | SESSION_WAITING_UPLOAD_REQUEST \<Rightarrow> out = t @ p
      | SESSION_ERROR \<Rightarrow> out \<in> {t, t @ r, t @ p, t @ p @ q} \<and>
          status b \<in> {LUCP_STAT_SUCCESS, LUCP_STAT_ARCHIVE_FAILED, LUCP_STAT_FTP_UPLOAD_FAILED}
      | _ \<Rightarrow> out = t @ p @ q \<and> status b = LUCP_STAT_SUCCESS)"

lemma written_whole [simp]: "written full f (wire f)"
  by (simp add: written_def)

lemma written_frames:
  assumes "has_written full t x seq out"
  obtains a b m p q r where "is_ack seq a" "status a = LUCP_STAT_SUCCESS" "is_notify seq b" "is_ack (seq_num m) m"
    "status m = LUCP_STAT_FAILED" "written full a p" "written full b q" "written full m r" "sent_in x b out t p q r"
proof -
  obtain a0 b0 m0 where o: "is_ack seq a0" "status a0 = LUCP_STAT_SUCCESS" "is_notify seq b0" "status b0 = LUCP_STAT_SUCCESS"
     "is_ack (seq_num m0) m0" "status m0 = LUCP_STAT_FAILED"
    using some_frame unfolding is_ack_def is_notify_def by metis
  consider "out = t" "x \<in> {SESSION_INIT, SESSION_ERROR}"
    | sq where "wrote_ack full t LUCP_STAT_FAILED sq out" "x = SESSION_ERROR"
    | "wrote_ack full t LUCP_STAT_SUCCESS seq out" "x \<in> {SESSION_WAITING_UPLOAD_REQUEST, SESSION_ERROR}"
    | stats where "wrote_both full t stats seq out" "x \<notin> {SESSION_INIT, SESSION_WAITING_UPLOAD_REQUEST}"
        "stats \<subseteq> {LUCP_STAT_SUCCESS, LUCP_STAT_ARCHIVE_FAILED, LUCP_STAT_FTP_UPLOAD_FAILED}"
        "x = SESSION_ERROR \<or> stats = {LUCP_STAT_SUCCESS}"
    using assms by (cases x) auto
  then show thesis
  proof cases
    case 1
    with o show thesis by (intro that [of a0 b0 m0 "wire a0" "wire b0" "wire m0"]) (auto simp: sent_in_def)
  next
    case 2
    then obtain m r where "is_ack (seq_num m) m" "status m = LUCP_STAT_FAILED" "written full m r" "out = t @ r"
      by (auto simp: wrote_ack_def is_ack_def)
    with o 2 show thesis by (intro that [of a0 b0 m "wire a0" "wire b0" r]) (auto simp: sent_in_def)
  next
    case 3
    then obtain a p where "is_ack seq a" "status a = LUCP_STAT_SUCCESS" "written full a p" "out = t @ p"
      by (auto simp: wrote_ack_def)
    with o 3 show thesis by (intro that [of a b0 m0 p "wire b0" "wire m0"]) (auto simp: sent_in_def)
  next
    case 4
    then obtain a b p q where "is_ack seq a" "status a = LUCP_STAT_SUCCESS" "written full a p" "is_notify seq b"
        "status b \<in> stats" "written full b q" "out = t @ p @ q"
      by (auto simp: wrote_both_def wrote_ack_def)
    with o 4 show thesis by (intro that [of a b m0 p q "wire m0"]) (cases x; auto simp: sent_in_def)+
  qed
qed

text \<open>C8. What a session has sent is determined by its final state. Whatever the socket, the clock and the
  random numbers did, a session that ends in INIT has sent nothing; one that ends in WAITING\_UPLOAD\_REQUEST has
  sent its successful acknowledgement; one that ends in WAITING\_FTP\_LOGIN\_RESULT,
  WAITING\_FTP\_DOWNLOAD\_RESULT or COMPLETED has sent the acknowledgement and then a successful notification, both
  with the sequence number the session holds; one that ends in ERROR has sent nothing, a negative
  acknowledgement, the successful acknowledgement, or that and a notification. Where the socket's writes do
  not fail, every one of these frames is written whole; a failing write may cut each of them short (and the
  session goes on: the code ignores the result of the sending calls).\<close>

theorem lucpd_session_writes:
  assumes "session_thread be cfg e c f g n k = Some s"
    "length (textInfo f) = LUCP_MAX_TEXTINFO_LEN" "length (textInfo g) = LUCP_MAX_TEXTINFO_LEN"
  shows "\<exists>a b m p q r.
     is_ack (sess_seq s) a \<and> status a = LUCP_STAT_SUCCESS \<and> is_notify (sess_seq s) b \<and>
     is_ack (seq_num m) m \<and> status m = LUCP_STAT_FAILED \<and>
     prefix p (wire a) \<and> prefix q (wire b) \<and> prefix r (wire m) \<and>
     (list_all progress (wr k) \<longrightarrow> p = wire a \<and> q = wire b \<and> r = wire m) \<and>
     (case st s of
        SESSION_INIT \<Rightarrow> tx (sk s) = tx k
      | SESSION_WAITING_UPLOAD_REQUEST \<Rightarrow> tx (sk s) = tx k @ p
      | SESSION_ERROR \<Rightarrow> tx (sk s) \<in> {tx k, tx k @ r, tx k @ p, tx k @ p @ q} \<and>
          status b \<in> {LUCP_STAT_SUCCESS, LUCP_STAT_ARCHIVE_FAILED, LUCP_STAT_FTP_UPLOAD_FAILED}
      | _ \<Rightarrow> tx (sk s) = tx k @ p @ q \<and> status b = LUCP_STAT_SUCCESS)"
proof -
  have "has_written (list_all progress (wr k)) (tx k) (st s) (sess_seq s) (tx (sk s))"
    using thread_keeps [OF assms, of "list_all progress (wr k)"] by (simp add: keeps_def write_inv_def)
  from written_frames [OF this] obtain a b m p q r where
    w: "is_ack (sess_seq s) a" "status a = LUCP_STAT_SUCCESS" "is_notify (sess_seq s) b" 
       "is_ack (seq_num m) m" "status m = LUCP_STAT_FAILED"
       "written (list_all progress (wr k)) a p" "written (list_all progress (wr k)) b q"
       "written (list_all progress (wr k)) m r" "sent_in (st s) b (tx (sk s)) (tx k) p q r" .
  show ?thesis
    by (rule exI [of _ a], rule exI [of _ b], rule exI [of _ m], rule exI [of _ p], rule exI [of _ q], rule exI [of _ r])
      (use w in \<open>simp add: written_def sent_in_def split: session_state.splits\<close>)
qed

theorem lucpd_session_writes_witness:
  "\<exists>s a b. session_thread False talk_config steady_env fresh_ctx blank_frame blank_frame 4 talk = Some s \<and>
     st s = SESSION_COMPLETED \<and> tx (sk s) = wire a @ wire b \<and>
     is_ack (sess_seq s) a \<and> status a = LUCP_STAT_SUCCESS \<and>
     is_notify (sess_seq s) b \<and> status b = LUCP_STAT_SUCCESS"
proof -
  obtain s where s: "session_thread False talk_config steady_env fresh_ctx blank_frame blank_frame 4 talk = Some s"
      "st s = SESSION_COMPLETED" using talk_run by blast
  have w: "list_all progress (wr talk)" by (rule talk(3))
  from lucpd_session_writes [OF s(1) blank_text blank_text] obtain a b where
    "tx (sk s) = wire a @ wire b" "is_ack (sess_seq s) a" "status a = LUCP_STAT_SUCCESS"
    "is_notify (sess_seq s) b" "status b = LUCP_STAT_SUCCESS"
    using w s(2) unfolding talk(1) append_Nil by auto
  with s show ?thesis by blast
qed

text \<open>C11. Every session ends when its peer does. If the peer's stream ends (the peer closes the
  connection or the connection fails) and the socket takes what is written, the session thread
  returns, whatever the peer sent before.\<close>

theorem lucpd_session_ends:
  assumes "\<exists>ev \<in> set (rx k). ev = Rd_Eof \<or> ev = Rd_Error" "list_all progress (wr k)" "66 \<le> accepts (wr k)"
    "length (textInfo f) = LUCP_MAX_TEXTINFO_LEN" "length (textInfo g) = LUCP_MAX_TEXTINFO_LEN"
  shows "\<exists>s. session_thread be cfg e c f g n k = Some s"
proof -
  obtain s where s: "session_thread be cfg e c f g n k = session_loop be cfg e s" "sess_inv s" "st s = SESSION_INIT"
      "sk s = k" using thread_start [OF assms(4,5)] by blast
  then have "not_stuck s" using assms(1-3) by (simp add: not_stuck_def will_end_def can_write_def)
  then show ?thesis using session_loop_not_stuck s(1) by metis
qed

theorem lucpd_session_ends_witness:
  "\<exists>s. session_thread True talk_config steady_env fresh_ctx blank_frame blank_frame 4
         (talk\<lparr>wr := replicate 80 (Wr_Accept 1), rx := [Rd_Data [0x4C, 0x55], Rd_Eintr, Rd_Eof]\<rparr>) = Some s"
proof -
  have "list_all progress (replicate 80 (Wr_Accept 1))" "accepts (replicate 80 (Wr_Accept 1)) = 80"
    by (simp_all add: list_all_iff accepts_def)
  then show ?thesis by (intro lucpd_session_ends) simp_all
qed

text \<open>Version check. With validation on, an upload request of another major version is answered
  with a negative acknowledgement that carries the text ``Bad version'' and the request's sequence
  number, and the session ends in the state ERROR without having sent anything else.\<close>

lemma lucpd_session_bad_version:
  assumes "length (textInfo f) = LUCP_MAX_TEXTINFO_LEN" "length (textInfo g) = LUCP_MAX_TEXTINFO_LEN"
    "quiet (rx k)" "delivered (rx k) = wire r @ rest" "valid_frame r" "msgType r = LUCP_MTYP_UPLOAD_REQUEST"
    "version_major r \<noteq> LUCP_VER_MAJOR" "validate_version (protocol cfg)"
    "list_all progress (wr k)" "25 \<le> accepts (wr k)" "\<And>i. up e i" "in_time_at cfg e 0"
  shows "\<exists>s a. session_thread be cfg e c f g n k = Some s \<and> st s = SESSION_ERROR \<and>
     tx (sk s) = tx k @ wire a \<and> is_ack (seq_num r) a \<and> status a = LUCP_STAT_FAILED \<and>
     text_of a = bytes_of ''Bad version'' \<and> input s = rest"
proof -
  obtain s0 where s0: "session_thread be cfg e c f g n k = session_loop be cfg e s0" "sess_inv s0" "running s0"
    "st s0 = SESSION_INIT" "sk s0 = k" "input s0 = delivered (rx k)" "ticks s0 = 1" "last_active s0 = clock e 0"
    using thread_start [OF assms(1,2)] by blast
  let ?s = "s0\<lparr>polls := Suc (polls s0), ticks := Suc (ticks s0)\<rparr>"
  have "ready e (s0\<lparr>polls := Suc (polls s0)\<rparr>)" using s0 assms(3) by (simp add: ready_def)
  from in_time [OF this, of cfg]
  have ct: "check_timeout cfg e (s0\<lparr>polls := Suc (polls s0)\<rparr>) = ?s"
    using assms(12) s0(7) by (simp add: in_time_at_def)
  have rd: "sess_inv ?s" "quiet (rx (sk ?s))" "input ?s = wire r @ rest" using s0 assms(3,4) by simp_all
  obtain d es where g: "get_frame be ?s = Some (0, ?s\<lparr>netctx := d, in_frame := received r (in_frame ?s), sk := (sk ?s)\<lparr>rx := es\<rparr>\<rparr>)"
      "net_inv d" "pending d @ delivered es = rest"
    using get_frame_frame [OF rd(1) assms(5) rd(2,3)] by blast
  let ?f = "received r (in_frame ?s)"
  let ?t = "?s\<lparr>netctx := d, in_frame := ?f, sk := (sk ?s)\<lparr>rx := es\<rparr>\<rparr>"
  have fr: "msgType ?f = LUCP_MTYP_UPLOAD_REQUEST" "version_major ?f = version_major r" "seq_num ?f = seq_num r"
    using received_valid [OF assms(5), of "in_frame ?s"] rd(1) assms(6) by (simp_all add: sess_inv_def)
  have t: "sess_inv ?t" "can_write (14 + unat (11::u16) + 0) ?t" "unat (11::u16) \<le> LUCP_MAX_TEXTINFO_LEN"
    using received_inv [OF assms(5) rd(1) g(2)] assms(9,10) s0(5) by (simp_all add: can_write_def lucp_consts)
  obtain a ws where a: "put_frame be (seq_num r) LUCP_MTYP_ACK_START LUCP_STAT_FAILED (Some (bytes_of ''Bad version'')) 11 ?t =
        Some (?t\<lparr>out_frame := a, sk := (sk ?t)\<lparr>wr := ws, tx := tx (sk ?t) @ wire a\<rparr>\<rparr>)"
     "valid_frame a" "seq_num a = seq_num r" "msgType a = LUCP_MTYP_ACK_START" "status a = LUCP_STAT_FAILED"
     "\<forall>u. Some (bytes_of ''Bad version'') = Some u \<longrightarrow> unat (11 :: u16) \<le> length u \<longrightarrow> text_of a = take (unat (11 :: u16)) u"
    using put_frame_completes [OF t] by blast
  let ?u = "?t\<lparr>out_frame := a, sk := (sk ?t)\<lparr>wr := ws, tx := tx (sk ?t) @ wire a\<rparr>, st := SESSION_ERROR\<rparr>"
  have t1: "session_turn be cfg e (s0\<lparr>polls := Suc (polls s0)\<rparr>) = Some ?u"
    using g(1) fr a(1) assms(7,8) s0(4) by (simp add: session_turn_def ct session_switch_def on_init_def)
  have stop: "\<exists>s'. session_loop be cfg e u = Some s' \<and> st s' = SESSION_ERROR \<and> sk s' = sk u \<and> input s' = input u"
    if "st u = SESSION_ERROR" "running u" for u
  proof -
    let ?v = "check_timeout cfg e (u\<lparr>polls := Suc (polls u)\<rparr>)"
    have v: "st ?v = SESSION_ERROR" "sk ?v = sk u" "input ?v = input u"
      using check_timeout_keeps [of cfg e "u\<lparr>polls := Suc (polls u)\<rparr>" ?v] that by simp_all
    have "session_turn be cfg e (u\<lparr>polls := Suc (polls u)\<rparr>) = Some (?v\<lparr>running := False\<rparr>)"
      using v(1) by (simp add: session_turn_def session_switch_def)
    then have "session_loop be cfg e u = session_loop be cfg e (?v\<lparr>running := False\<rparr>)"
      using session_loop_turn that(2) assms(11) by blast
    moreover have "session_loop be cfg e (?v\<lparr>running := False\<rparr>) = Some (?v\<lparr>running := False\<rparr>)"
      by (subst session_loop.simps) simp
    ultimately show ?thesis using v by simp
  qed
  obtain s' where s': "session_loop be cfg e ?u = Some s'" "st s' = SESSION_ERROR" "sk s' = sk ?u" "input s' = input ?u"
    using stop [of ?u] s0(3) by auto
  have "session_thread be cfg e c f g n k = Some s'"
    using s0(1) s'(1) session_loop_turn [OF s0(3) assms(11) t1] by simp
  moreover have "input s' = rest" using s'(4) g(3) by (simp add: input_def)
  moreover have "text_of a = bytes_of ''Bad version''" using a(6) by simp
  ultimately show ?thesis using s' a s0(5) by (auto simp: is_ack_def)
qed

lemma lucpd_session_bad_version_witness:
  "\<exists>s a. session_thread True talk_config steady_env fresh_ctx blank_frame blank_frame 4
         (talk\<lparr>rx := [Rd_Data (wire (sample_frame\<lparr>version_major := 2\<rparr>))]\<rparr>) = Some s \<and>
     st s = SESSION_ERROR \<and> tx (sk s) = wire a \<and> is_ack 7 a \<and> status a = LUCP_STAT_FAILED \<and>
     text_of a = bytes_of ''Bad version''"
proof -
  let ?k = "talk\<lparr>rx := [Rd_Data (wire (sample_frame\<lparr>version_major := 2\<rparr>))]\<rparr>"
  have "valid_frame (sample_frame\<lparr>version_major := 2\<rparr>)"
    using sample_frame_valid by (simp add: valid_frame_def wf_frame_def)
  from lucpd_session_bad_version [OF blank_text blank_text _ _ this, of ?k "[]" talk_config steady_env True fresh_ctx 4]
  have "\<exists>s a. session_thread True talk_config steady_env fresh_ctx blank_frame blank_frame 4 ?k = Some s \<and>
      st s = SESSION_ERROR \<and> tx (sk s) = tx ?k @ wire a \<and> is_ack (seq_num (sample_frame\<lparr>version_major := 2\<rparr>)) a \<and>
      status a = LUCP_STAT_FAILED \<and> text_of a = bytes_of ''Bad version'' \<and> input s = []"
    by (simp add: sample_request in_time_at_def steady talk_config steady_up LUCP_VER_MAJOR_def)
  then show ?thesis by (auto simp: sample_request)
qed

lemma signed_32: "0 \<le> k \<Longrightarrow> k < 2 ^ 32 \<Longrightarrow> signed_take_bit 31 k = (if k < 2 ^ 31 then k else k - 2 ^ 32)"
  for k :: int
  by (cases "k < 2 ^ 31")
    (simp_all add: signed_take_bit_eq_take_bit_shift take_bit_eq_mod mod_pos_pos_trivial mod_pos_geq)

lemma sint_cut: "sint (ucast w :: 32 word) =
    (if uint w mod 2 ^ 32 < 2 ^ 31 then uint w mod 2 ^ 32 else uint w mod 2 ^ 32 - 2 ^ 32)" for w :: u64
proof -
  have "uint (ucast w :: 32 word) = uint w mod 2 ^ 32"
    by (simp add: unsigned_ucast_eq take_bit_eq_mod)
  then show ?thesis using signed_32 [of "uint w mod 2 ^ 32"] by (simp add: sint_uint)
qed

text \<open>The time-out test. A turn of the session loop gives up exactly when the time since the last
  activity, taken modulo $2^{32}$ milliseconds, lies above the configured limit and below $2^{31}$:
  within about 24 days of inactivity the test is exact, after that it goes wrong for as long again.\<close>

lemma lucpd_timeout_window:
  assumes "st s \<noteq> SESSION_ERROR" "0 \<le> session_timeout_ms (protocol cfg)"
  shows "st (check_timeout cfg e s) = SESSION_ERROR \<longleftrightarrow>
     session_timeout_ms (protocol cfg) < uint (clock e (ticks s) - last_active s) mod 2 ^ 32 \<and>
     uint (clock e (ticks s) - last_active s) mod 2 ^ 32 < 2 ^ 31"
proof -
  let ?d = "uint (clock e (ticks s) - last_active s) mod 2 ^ 32"
  have "?d < 2 ^ 32" by simp
  then show ?thesis using assms unfolding check_timeout_def Let_def sint_cut
    by (cases "?d < 2 ^ 31") simp_all
qed

definition late_session :: session where
  "late_session = \<lparr>st = SESSION_INIT, sess_seq = 0, last_active = 0, netctx = fresh_ctx,
     in_frame = blank_frame, out_frame = blank_frame, running = True, sk = talk, ticks = 3, rolls = 0,
     polls = 0\<rparr>"

lemma lucpd_timeout_window_witness:
  "st (check_timeout talk_config steady_env late_session) = SESSION_ERROR \<and>
   st (check_timeout talk_config steady_env (late_session\<lparr>last_active := 3000 - 0x80000000\<rparr>)) \<noteq> SESSION_ERROR"
  using lucpd_timeout_window [of late_session talk_config steady_env]
    lucpd_timeout_window [of "late_session\<lparr>last_active := 3000 - 0x80000000\<rparr>" talk_config steady_env]
  by (simp add: talk_config late_session_def steady_env_def)


end
