(* ===== verification/Lucp_Log.thy ===== *)
theory Lucp_Log
  imports Prelude
begin

text \<open>
  The log messages of the library: \<open>lucp_set_log_callback\<close> and \<open>lucp_log_internal\<close> (\<open>lucplib/lucp.c\<close>,
  \<open>lucplib/lucp.h\<close>). The calls of \<open>lucp_log_internal\<close> in the other functions of the library are left out of their models.

  A level is the number of the enumeration, since the callbacks have a case for numbers outside of it. What a
  callback can do is to write to the terminal, the record \<open>terminal\<close>. \<open>c_vformat\<close> is what the programs use of
  \<open>vsnprintf\<close>: it has no value for a conversion or an argument that it does not know.
\<close>

section \<open>Formatted output\<close>

datatype c_arg = C_int int | C_uint u32 | C_string string

definition dec_int :: "int \<Rightarrow> string" where
  "dec_int i = (if i < 0 then CHR ''-'' # dec_digits (nat (- i)) else dec_digits (nat i))"

text \<open>Hexadecimal digits, small or large.\<close>

definition hex_digit :: "bool \<Rightarrow> nat \<Rightarrow> char" where
  "hex_digit large d = char_of (if d < 10 then 48 + d else if large then 55 + d else 87 + d)"

fun hex_digits :: "bool \<Rightarrow> nat \<Rightarrow> string" where
  "hex_digits large n = (if n < 16 then [hex_digit large n]
                         else hex_digits large (n div 16) @ [hex_digit large (n mod 16)])"

declare hex_digits.simps [simp del]

definition zero_pad :: "nat \<Rightarrow> string \<Rightarrow> string" where
  "zero_pad w s = replicate (w - length s) CHR ''0'' @ s"

text \<open>One conversion, with the width behind a leading zero, and its argument.\<close>

fun c_convert :: "nat \<Rightarrow> char \<Rightarrow> c_arg \<Rightarrow> string option" where
  "c_convert w c (C_int i) = (if c = CHR ''d'' \<and> w = 0 then Some (dec_int i) else None)"
| "c_convert w c (C_uint u) =
     (if c = CHR ''u'' then Some (zero_pad w (dec_digits (unat u)))
      else if c = CHR ''x'' then Some (zero_pad w (hex_digits False (unat u)))
      else if c = CHR ''X'' then Some (zero_pad w (hex_digits True (unat u)))
      else None)"
| "c_convert w c (C_string s) = (if c = CHR ''s'' \<and> w = 0 then Some (c_str s) else None)"

text \<open>The width, the conversion character and what follows a percent sign.\<close>

definition c_directive :: "string \<Rightarrow> (nat \<times> char \<times> string) option" where
  "c_directive fmt =
     (case fmt of
        [] \<Rightarrow> None
      | c # fmt' \<Rightarrow>
          if c = CHR ''0'' then
            (case fmt' of d # x # r \<Rightarrow> Some (of_char d - 48, x, r) | _ \<Rightarrow> None)
          else Some (0, c, fmt'))"

lemma c_directive_shorter: "c_directive fmt = Some (w, c, r) \<Longrightarrow> length r < length fmt"
  by (auto simp: c_directive_def split: list.splits if_splits)

function c_vformat :: "string \<Rightarrow> c_arg list \<Rightarrow> string option" where
  "c_vformat fmt args =
     (case fmt of
        [] \<Rightarrow> Some []
      | c # fmt' \<Rightarrow>
          if c \<noteq> CHR ''%'' then map_option ((#) c) (c_vformat fmt' args)
          else
            (case (c_directive fmt', args) of
               (Some (w, x, r), a # args') \<Rightarrow>
                 (case (c_convert w x a, c_vformat r args') of
                    (Some s, Some t) \<Rightarrow> Some (s @ t)
                  | _ \<Rightarrow> None)
             | _ \<Rightarrow> None))"
  by pat_completeness auto
termination
  by (relation "measure (\<lambda>(fmt, args). length fmt)") (auto dest!: c_directive_shorter [OF sym])

declare c_vformat.simps [simp del]

lemma c_vformat_Nil [simp]: "c_vformat [] args = Some []"
  by (simp add: c_vformat.simps [of "[]"])

lemma c_vformat_plain: "c \<noteq> CHR ''%'' \<Longrightarrow> c_vformat (c # fmt) args = map_option ((#) c) (c_vformat fmt args)"
  by (simp add: c_vformat.simps [of "c # fmt"])

lemma c_vformat_conv:
  "c_directive fmt = Some (w, x, r) \<Longrightarrow> c_vformat (CHR ''%'' # fmt) (a # args) =
     (case (c_convert w x a, c_vformat r args) of (Some s, Some t) \<Rightarrow> Some (s @ t) | _ \<Rightarrow> None)"
  by (simp add: c_vformat.simps [of "CHR ''%'' # fmt"])

text \<open>\<open>vsnprintf\<close> into an array of \<open>n\<close> characters: the string that is then in it.\<close>

definition c_vsnprintf :: "nat \<Rightarrow> string \<Rightarrow> c_arg list \<Rightarrow> string option" where
  "c_vsnprintf n fmt args = map_option (take (n - 1)) (c_vformat fmt args)"

section \<open>The callback\<close>

definition LUCP_LOG_DEBUG :: int where "LUCP_LOG_DEBUG = 0"
definition LUCP_LOG_INFO :: int where "LUCP_LOG_INFO = 1"
definition LUCP_LOG_WARN :: int where "LUCP_LOG_WARN = 2"
definition LUCP_LOG_ERROR :: int where "LUCP_LOG_ERROR = 3"

lemmas log_levels = LUCP_LOG_DEBUG_def LUCP_LOG_INFO_def LUCP_LOG_WARN_def LUCP_LOG_ERROR_def

record terminal =
  out_text :: string
  err_text :: string

type_synonym log_callback = "int \<Rightarrow> string \<Rightarrow> int \<Rightarrow> string \<Rightarrow> terminal \<Rightarrow> terminal option"

record logger =
  g_log_callback :: "log_callback option"

definition lucp_set_log_callback :: "log_callback option \<Rightarrow> logger \<Rightarrow> logger" where
  "lucp_set_log_callback callback l = l\<lparr>g_log_callback := callback\<rparr>"

definition lucp_log_internal ::
  "int \<Rightarrow> string \<Rightarrow> int \<Rightarrow> string \<Rightarrow> c_arg list \<Rightarrow> logger \<Rightarrow> terminal \<Rightarrow> terminal option" where
  "lucp_log_internal level name n fmt args l t =
     (case g_log_callback l of
        None \<Rightarrow> Some t
      | Some callback \<Rightarrow>
          (case c_vsnprintf 1024 fmt args of
             None \<Rightarrow> None
           | Some logmsg \<Rightarrow> callback level name n logmsg t))"

section \<open>What is logged\<close>

text \<open>Without a callback nothing happens, whatever the format; with one, the last that was set gets a message of at
  most 1023 characters.\<close>

lemma lucp_log_disabled:
  "lucp_log_internal level name n fmt args (lucp_set_log_callback None l) t = Some t"
  by (simp add: lucp_log_internal_def lucp_set_log_callback_def)

lemma lucp_log_calls:
  assumes "c_vformat fmt args = Some s"
  shows "lucp_log_internal level name n fmt args (lucp_set_log_callback (Some cb) (lucp_set_log_callback cb' l)) t =
     cb level name n (take 1023 s) t"
  using assms by (simp add: lucp_log_internal_def lucp_set_log_callback_def c_vsnprintf_def)

end
