(* ===== verification/Lucpd_Utils.thy ===== *)
theory Lucpd_Utils
  imports Lucp_Log "HOL-Library.Monad_Syntax"
begin

text \<open>
  The daemon's helpers (\<open>lucpd/src/lucpd_utils.c\<close>): its log functions, the handler that it registers for the
  messages of the library (the demonstration client has a copy of it, \<open>demo/lucp_client_demo.c\<close>), its clock and its
  pause. The rate limiter of the same file is in theory Lucpd_Rate. The local time comes from the C library and
  is an argument.
\<close>

section \<open>Output\<close>

definition c_fprintf_out :: "string \<Rightarrow> c_arg list \<Rightarrow> terminal \<Rightarrow> terminal option" where
  "c_fprintf_out fmt args t = map_option (\<lambda>s. t\<lparr>out_text := out_text t @ s\<rparr>) (c_vformat fmt args)"

definition c_fprintf_err :: "string \<Rightarrow> c_arg list \<Rightarrow> terminal \<Rightarrow> terminal option" where
  "c_fprintf_err fmt args t = map_option (\<lambda>s. t\<lparr>err_text := err_text t @ s\<rparr>) (c_vformat fmt args)"

abbreviation end_line :: string where "end_line \<equiv> [CHR 0x0A]"

section \<open>The handler of the library's messages\<close>

definition level_str :: "int \<Rightarrow> string" where
  "level_str level =
     (if level = LUCP_LOG_DEBUG then ''DEBUG''
      else if level = LUCP_LOG_INFO then ''INFO''
      else if level = LUCP_LOG_WARN then ''WARN''
      else if level = LUCP_LOG_ERROR then ''ERROR''
      else ''UNKNOWN'')"

definition handle_lucp_log :: log_callback where
  "handle_lucp_log level name n logmsg t =
     (let fmt = ''[%s] (%s:%d) %s'' @ end_line;
          args = [C_string (level_str level), C_string name, C_int n, C_string logmsg]
      in if level = LUCP_LOG_ERROR \<or> level = LUCP_LOG_WARN then c_fprintf_err fmt args t
         else c_fprintf_out fmt args t)"

section \<open>The daemon's own messages\<close>

text \<open>The fields of \<open>struct tm\<close> as they are printed, so with the year in full and months from 1; \<open>time_str\<close> is what \<open>strftime\<close> leaves in the
  array of 20 characters, with \<open>junk\<close> in it if the text does not fit.\<close>

record local_time =
  tm_year :: nat
  tm_mon :: nat
  tm_mday :: nat
  tm_hour :: nat
  tm_min :: nat
  tm_sec :: nat

definition two_digits :: "nat \<Rightarrow> string" where
  "two_digits n = zero_pad 2 (dec_digits n)"

definition time_str :: "string \<Rightarrow> local_time \<Rightarrow> string" where
  "time_str junk tm =
     (let s = dec_digits (tm_year tm) @ ''-'' @ two_digits (tm_mon tm) @ ''-'' @ two_digits (tm_mday tm) @ '' '' @
            two_digits (tm_hour tm) @ '':'' @ two_digits (tm_min tm) @ '':'' @ two_digits (tm_sec tm)
      in if length s < 20 then s else junk)"

definition log_debug :: "string \<Rightarrow> local_time \<Rightarrow> string \<Rightarrow> c_arg list \<Rightarrow> terminal \<Rightarrow> terminal option" where
  "log_debug junk tm fmt args t = do {
     t \<leftarrow> c_fprintf_out ''[%s] DEBUG: '' [C_string (time_str junk tm)] t;
     t \<leftarrow> c_fprintf_out fmt args t;
     c_fprintf_out end_line [] t
   }"

definition log_warn :: "string \<Rightarrow> local_time \<Rightarrow> string \<Rightarrow> c_arg list \<Rightarrow> terminal \<Rightarrow> terminal option" where
  "log_warn junk tm fmt args t = do {
     t \<leftarrow> c_fprintf_out ''[%s] WARN: '' [C_string (time_str junk tm)] t;
     t \<leftarrow> c_fprintf_out fmt args t;
     c_fprintf_out end_line [] t
   }"

definition log_error :: "string \<Rightarrow> local_time \<Rightarrow> string \<Rightarrow> c_arg list \<Rightarrow> terminal \<Rightarrow> terminal option" where
  "log_error junk tm fmt args t = do {
     t \<leftarrow> c_fprintf_err ''[%s] ERROR: '' [C_string (time_str junk tm)] t;
     t \<leftarrow> c_fprintf_err fmt args t;
     c_fprintf_err end_line [] t
   }"

section \<open>Clock and pause\<close>

text \<open>The two fields of \<open>struct timeval\<close>, seconds and microseconds, none of them negative.\<close>

definition get_now_ms :: "nat \<Rightarrow> nat \<Rightarrow> u64" where
  "get_now_ms tv_sec tv_usec = of_nat tv_sec * 1000 + of_nat (tv_usec div 1000)"

text \<open>The seconds that the caller sleeps.\<close>

definition simulate_delay :: "int \<Rightarrow> nat" where
  "simulate_delay seconds = (if 0 < seconds then nat seconds else 0)"

section \<open>Lines\<close>

lemma c_directive_simps [simp]:
  "c \<noteq> CHR ''0'' \<Longrightarrow> c_directive (c # r) = Some (0, c, r)"
  by (simp add: c_directive_def)

lemmas format_simps = c_vformat_plain c_vformat_conv

text \<open>Every message of the library is one line, on the error stream for warnings and errors.\<close>

definition log_line :: "int \<Rightarrow> string \<Rightarrow> int \<Rightarrow> string \<Rightarrow> string" where
  "log_line level name n msg = ''['' @ level_str level @ ''] ('' @ c_str name @ '':'' @ dec_int n @ '') '' @ c_str msg @ end_line"

lemma handle_lucp_log_line:
  "handle_lucp_log level name n msg t =
     Some (if level \<in> {LUCP_LOG_WARN, LUCP_LOG_ERROR} then t\<lparr>err_text := err_text t @ log_line level name n msg\<rparr>
           else t\<lparr>out_text := out_text t @ log_line level name n msg\<rparr>)"
proof -
  have "c_str (level_str level) = level_str level" by (simp add: level_str_def c_str_id)
  then have "c_vformat (''[%s] (%s:%d) %s'' @ end_line)
      [C_string (level_str level), C_string name, C_int n, C_string msg] = Some (log_line level name n msg)"
    by (simp add: format_simps log_line_def)
  then show ?thesis by (auto simp: handle_lucp_log_def Let_def c_fprintf_out_def c_fprintf_err_def)
qed

text \<open>What the daemon writes for a message of the library.\<close>

lemma lucpd_logs_library:
  assumes "c_vformat fmt args = Some s"
  shows "lucp_log_internal level name n fmt args (lucp_set_log_callback (Some handle_lucp_log) l) t =
     Some (if level \<in> {LUCP_LOG_WARN, LUCP_LOG_ERROR} then t\<lparr>err_text := err_text t @ log_line level name n (take 1023 s)\<rparr>
           else t\<lparr>out_text := out_text t @ log_line level name n (take 1023 s)\<rparr>)"
  using lucp_log_calls [OF assms, of level name n handle_lucp_log None l t]
  by (simp add: lucp_set_log_callback_def handle_lucp_log_line)

text \<open>The time of a year of four digits fits into its array.\<close>

lemma length_dec_digits: "n < 10 ^ k \<Longrightarrow> 0 < k \<Longrightarrow> length (dec_digits n) \<le> k"
proof (induction n arbitrary: k rule: dec_digits.induct)
  case (1 n)
  show ?case
  proof (cases "n < 10")
    case False
    obtain j where j: "k = Suc j" using 1(3) by (cases k) simp_all
    have "j \<noteq> 0" using False 1(2) j by (cases "j = 0") simp_all
    with j have k: "k = Suc j" "0 < j" by simp_all
    have "n div 10 < 10 ^ j" using 1(2) k(1) by (simp add: div_less_iff_less_mult mult.commute)
    then show ?thesis using 1(1) [OF False _ k(2)] False k by (simp add: dec_digits.simps [of n])
  qed (use 1(3) in \<open>simp add: dec_digits.simps [of n]\<close>)
qed

lemma length_two_digits: "n < 100 \<Longrightarrow> length (two_digits n) = 2"
  using length_dec_digits [of n 2] by (simp add: two_digits_def zero_pad_def)

lemma time_str_fits:
  assumes "tm_year tm < 10000" "tm_mon tm < 100" "tm_mday tm < 100" "tm_hour tm < 100" "tm_min tm < 100" "tm_sec tm < 100"
  shows "time_str junk tm = time_str junk' tm \<and> length (time_str junk tm) \<le> 19"
  using length_dec_digits [of "tm_year tm" 4] assms by (simp add: time_str_def Let_def length_two_digits)

section \<open>Milliseconds\<close>

text \<open>A moment in microseconds, and the reading of the clock at it.\<close>

definition now_at :: "nat \<Rightarrow> u64" where
  "now_at us = get_now_ms (us div 1000000) (us mod 1000000)"

lemma now_at_ms: "now_at us = of_nat (us div 1000)"
proof -
  have "us div 1000 = (us mod 1000000 + us div 1000000 * 1000 * 1000) div 1000"
    using div_mult_mod_eq [of us 1000000] by (simp add: ac_simps)
  also have "\<dots> = us div 1000000 * 1000 + us mod 1000000 div 1000" by (rule div_mult_self1) simp
  finally show ?thesis by (simp add: now_at_def get_now_ms_def)
qed

end
