(* ===== verification/Lucpd_Protocol.thy ===== *)
theory Lucpd_Protocol
  imports Lucpd_Session Lucpd_Utils
begin

text \<open>
  The protocol that a session of the daemon (\<open>session_thread\<close> of \<open>lucpd/src/lucpd.c\<close>) is meant to follow, as a
  function from the frames that the client sends to the bytes of the answers and the state the session ends
  in; and the proof that the session thread follows it, for every list of frames and every way of cutting the
  stream, up to the point where the client ends the connection.

  The protocol knows nothing of buffers, partial reads, sequence numbers in a structure, clocks or turns of a loop.
\<close>

section \<open>The protocol\<close>

text \<open>An answer with its sequence number, type, status and text, and its bytes.\<close>

datatype reply = Reply u32 byte byte "byte list"

fun reply_bytes :: "reply \<Rightarrow> byte list" where
  "reply_bytes (Reply seq mt stat t) =
     be32 LUCP_MAGIC @ [LUCP_VER_MAJOR, LUCP_VER_MINOR] @ be32 seq @ [mt, stat] @ be16 (of_nat (length t)) @ t"

text \<open>Waiting for the result of a step; frames of other types are passed over.\<close>

fun await :: "byte \<Rightarrow> (lucp_frame list \<Rightarrow> session_state) \<Rightarrow> lucp_frame list \<Rightarrow> session_state" where
  "await mt next_step [] = SESSION_ERROR"
| "await mt next_step (f # fs) =
     (if msgType f \<noteq> mt then await mt next_step fs
      else if status f \<noteq> LUCP_STAT_SUCCESS then SESSION_ERROR
      else next_step fs)"

definition await_download :: "lucp_frame list \<Rightarrow> session_state" where
  "await_download = await LUCP_MTYP_FTP_DOWNLOAD_RESULT (\<lambda>fs. SESSION_COMPLETED)"

definition await_results :: "lucp_frame list \<Rightarrow> session_state" where
  "await_results = await LUCP_MTYP_FTP_LOGIN_RESULT await_download"

text \<open>The whole conversation: whether the version is checked, and what comes of the preparation of the log.\<close>

fun conversation :: "bool \<Rightarrow> byte \<times> string \<Rightarrow> lucp_frame list \<Rightarrow> session_state \<times> reply list" where
  "conversation check (stat, msg) [] = (SESSION_ERROR, [])"
| "conversation check (stat, msg) (f # fs) =
     (if msgType f \<noteq> LUCP_MTYP_UPLOAD_REQUEST then conversation check (stat, msg) fs
      else if check \<and> version_major f \<noteq> LUCP_VER_MAJOR then
        (SESSION_ERROR, [Reply (seq_num f) LUCP_MTYP_ACK_START LUCP_STAT_FAILED (bytes_of ''Bad version'')])
      else
        (if stat = LUCP_STAT_SUCCESS then await_results fs else SESSION_ERROR,
         [Reply (seq_num f) LUCP_MTYP_ACK_START LUCP_STAT_SUCCESS [],
          Reply (seq_num f) LUCP_MTYP_NOTIFY_DONE stat (bytes_of msg)]))"

section \<open>A session that is served\<close>

text \<open>Between any two readings of the clock there is never more time than the session timeout.\<close>

definition prompt :: "lucpd_config \<Rightarrow> env \<Rightarrow> bool" where
  "prompt cfg e \<longleftrightarrow> (\<forall>i j. i < j \<longrightarrow> elapsed e i j \<le> session_timeout_ms (protocol cfg))"

text \<open>This is so if the readings are those of a clock that is never set back, and the whole session takes no longer
  than the timeout.\<close>

lemma prompt_wall_clock:
  assumes "\<And>i. clock e i = now_at (w i)" "\<And>i j. i \<le> j \<Longrightarrow> w i \<le> w j" "\<And>i. w i \<le> w 0 + 1000 * m"
    "int m \<le> session_timeout_ms (protocol cfg)" "m < 2 ^ 31"
  shows "prompt cfg e"
  unfolding prompt_def
proof (intro allI impI)
  fix i j :: nat assume "i < j"
  then have "w i \<le> w j" "w j \<le> w i + 1000 * m" using assms(2) [of i j] assms(2) [of 0 i] assms(3) [of j] by linarith+
  then have ab: "w i div 1000 \<le> w j div 1000" "w j div 1000 - w i div 1000 \<le> m"
    using div_le_mono [of "w j" "w i + m * 1000" 1000] by (simp_all add: div_le_mono ac_simps)
  have "clock e j - clock e i = of_nat (w j div 1000 - w i div 1000)" using ab(1) by (simp add: assms(1) now_at_ms of_nat_diff)
  moreover have "sint (ucast (of_nat n :: u64) :: 32 word) = int n" if "n < 2 ^ 31" for n
    using that by (simp add: unsigned_of_nat take_bit_nat_eq_self signed_of_nat signed_take_bit_int_eq_self)
  ultimately have "elapsed e i j = int (w j div 1000 - w i div 1000)"
    using ab(2) assms(5) by (simp add: elapsed_def)
  then show "elapsed e i j \<le> session_timeout_ms (protocol cfg)" using ab(2) assms(4) by linarith
qed

definition serving :: "env \<Rightarrow> session \<Rightarrow> bool" where
  "serving e s \<longleftrightarrow> sess_inv s \<and> running s \<and> (\<exists>es. rx (sk s) = es @ [Rd_Eof] \<and> quiet es) \<and>
     (\<exists>j < ticks s. last_active s = clock e j)"

text \<open>What is left of the stream: whole frames, and a part of another.\<close>

definition left_over :: "lucp_frame list \<Rightarrow> byte list \<Rightarrow> session \<Rightarrow> bool" where
  "left_over fs p s \<longleftrightarrow> list_all valid_frame fs \<and> (\<exists>f. valid_frame f \<and> strict_prefix p (wire f)) \<and>
     input s = concat (map wire fs) @ p"

lemma serving_simps [simp]:
  "serving e (s\<lparr>st := x\<rparr>) = serving e s" "serving e (s\<lparr>polls := n\<rparr>) = serving e s"
  "serving e (s\<lparr>rolls := n\<rparr>) = serving e s" "serving e (s\<lparr>sess_seq := q\<rparr>) = serving e s"
  "serving e s \<Longrightarrow> serving e (touch e s)" "serving e s \<Longrightarrow> serving e (s\<lparr>ticks := Suc (ticks s)\<rparr>)"
  "serving e s \<Longrightarrow> serving e (s\<lparr>polls := n, ticks := Suc (ticks s)\<rparr>)"
  by (auto simp: serving_def touch_def sess_inv_def less_Suc_eq)

lemma left_over_simps [simp]:
  "left_over fs p (s\<lparr>st := x\<rparr>) = left_over fs p s" "left_over fs p (s\<lparr>polls := n\<rparr>) = left_over fs p s"
  "left_over fs p (s\<lparr>rolls := n\<rparr>) = left_over fs p s" "left_over fs p (s\<lparr>sess_seq := q\<rparr>) = left_over fs p s"
  "left_over fs p (s\<lparr>ticks := n\<rparr>) = left_over fs p s" "left_over fs p (touch e s) = left_over fs p s"
  by (simp_all add: left_over_def)

lemma on_time:
  assumes "serving e s" "prompt cfg e"
  shows "check_timeout cfg e s = s\<lparr>ticks := Suc (ticks s)\<rparr>"
proof -
  obtain j where j: "j < ticks s" "last_active s = clock e j" using assms(1) by (auto simp: serving_def)
  then have "elapsed e j (ticks s) \<le> session_timeout_ms (protocol cfg)" using assms(2) by (simp add: prompt_def)
  then show ?thesis using j(2) by (simp add: check_timeout_def elapsed_def Let_def)
qed

lemma served_frame:
  assumes "serving e s" "left_over (f # fs) p s"
  obtains t where "get_frame be s = Some (0, t)" "serving e t" "left_over fs p t" "tx (sk t) = tx (sk s)" "wr (sk t) = wr (sk s)"
    "st t = st s" "in_frame t = received f (in_frame s)" "sess_seq t = sess_seq s" "rolls t = rolls s" "ticks t = ticks s"
proof -
  obtain es where es: "rx (sk s) = es @ [Rd_Eof]" "quiet es" using assms(1) by (auto simp: serving_def)
  have i: "net_inv (netctx s)" "length (textInfo (in_frame s)) = LUCP_MAX_TEXTINFO_LEN"
    using assms(1) by (simp_all add: serving_def sess_inv_def)
  have f: "valid_frame f" and p: "pending (netctx s) @ delivered (rx ((sk s)\<lparr>rx := es\<rparr>)) = wire f @ concat (map wire fs) @ p"
    using assms(2) es(1) by (simp_all add: left_over_def input_def)
  obtain c es' where r: "lucp_net_recv be (Some (netctx s)) (Some (in_frame s)) ((sk s)\<lparr>rx := es\<rparr>) =
        Some (0, Some c, Some (received f (in_frame s)), ((sk s)\<lparr>rx := es\<rparr>)\<lparr>rx := es'\<rparr>)"
      "net_inv c" "quiet es'" "pending c @ delivered es' = concat (map wire fs) @ p"
    using lucp_net_recv_frame [OF i(1) f i(2) _ p, of be] es(2) by auto
  let ?t = "s\<lparr>netctx := c, in_frame := received f (in_frame s), sk := (sk s)\<lparr>rx := es' @ [Rd_Eof]\<rparr>\<rparr>"
  have "(sk s)\<lparr>rx := es @ [Rd_Eof]\<rparr> = sk s" using es(1) by simp
  then have "get_frame be s = Some (0, ?t)"
    using lucp_net_recv_append [OF r(1), of "[Rd_Eof]"] by (simp add: get_frame_def)
  moreover have "serving e ?t"
    using assms(1) r(2,3) received_valid(4) [OF f i(2)] by (auto simp: serving_def sess_inv_def)
  moreover have "left_over fs p ?t" using assms(2) r(4) by (simp add: left_over_def input_def)
  ultimately show thesis using that by simp
qed

lemma served_end:
  assumes "serving e s" "left_over [] p s"
  obtains t where "get_frame be s = Some (-1, t)" "serving e t" "tx (sk t) = tx (sk s)"
proof -
  obtain es where es: "rx (sk s) = es @ [Rd_Eof]" "quiet es" using assms(1) by (auto simp: serving_def)
  have i: "net_inv (netctx s)" "length (textInfo (in_frame s)) = LUCP_MAX_TEXTINFO_LEN"
    using assms(1) by (simp_all add: serving_def sess_inv_def)
  obtain f u where f: "valid_frame f" "pending (netctx s) @ delivered es @ u = wire f" "u \<noteq> []"
    using assms(2) es(1) by (auto simp: left_over_def input_def strict_prefix_def prefix_def)
  obtain c g where r: "lucp_net_recv be (Some (netctx s)) (Some (in_frame s)) (sk s) = Some (-1, Some c, Some g, (sk s)\<lparr>rx := [Rd_Eof]\<rparr>)"
    using lucp_net_recv_cut(1) [OF i(1) f(1) i(2) es(2) f(2,3) es(1), of be] by blast
  have "net_inv c" "length (textInfo g) = LUCP_MAX_TEXTINFO_LEN" using lucp_net_recv_inv [OF i r] by simp_all
  then show thesis
    using that [of "s\<lparr>netctx := c, in_frame := g, sk := (sk s)\<lparr>rx := [Rd_Eof]\<rparr>\<rparr>"] r assms(1)
    by (auto simp: get_frame_def serving_def sess_inv_def intro: exI [of _ "[]"])
qed


section \<open>The steps of the thread\<close>

text \<open>An answer is written in full.\<close>

lemma put_reply:
  assumes "serving e s" "can_write (14 + length u + m) s" "length u \<le> LUCP_MAX_TEXTINFO_LEN"
    "t = Some u \<or> t = None \<and> u = []"
  obtains s' where "put_frame be seq mt x t (of_nat (length u)) s = Some s'" "serving e s'" "can_write m s'"
    "tx (sk s') = tx (sk s) @ reply_bytes (Reply seq mt x u)" "input s' = input s"
    "st s' = st s" "sess_seq s' = sess_seq s" "rolls s' = rolls s" "ticks s' = ticks s"
proof -
  have l: "unat (of_nat (length u) :: u16) = length u" "length (textInfo (out_frame s)) = LUCP_MAX_TEXTINFO_LEN"
    using assms(1,3) by (simp_all add: unat_of_nat lucp_consts serving_def sess_inv_def)
  have si: "sess_inv s" using assms(1) by (simp add: serving_def)
  have cw: "can_write (14 + unat (of_nat (length u) :: u16) + m) s" "unat (of_nat (length u) :: u16) \<le> LUCP_MAX_TEXTINFO_LEN"
    using assms(2,3) l(1) by simp_all
  obtain f es where f: "put_frame be seq mt x t (of_nat (length u)) s = Some (s\<lparr>out_frame := f, sk := (sk s)\<lparr>wr := es, tx := tx (sk s) @ wire f\<rparr>\<rparr>)"
    "valid_frame f" "list_all progress es" "m \<le> accepts es"
    using put_frame_completes [OF si cw, of be seq mt x t] by blast
  obtain g where "lucp_frame_make (Some (out_frame s)) seq mt x t (of_nat (length u)) = Some g" "wire g = reply_bytes (Reply seq mt x u)"
    using assms(3,4) l by (auto simp: lucp_frame_make_def Let_def wire_def put_bytes_0)
  with f(1) have "wire f = reply_bytes (Reply seq mt x u)"
    by (auto simp: put_frame_def dest!: arg_cong [of _ _ out_frame] split: option.splits prod.splits)
  moreover have "serving e (s\<lparr>out_frame := f, sk := (sk s)\<lparr>wr := es, tx := tx (sk s) @ wire f\<rparr>\<rparr>)"
    using assms(1) f(2) by (auto simp: serving_def sess_inv_def valid_frame_def wf_frame_def)
  ultimately show thesis using that [OF f(1)] f(3,4) by (simp add: can_write_def left_over_def input_def)
qed

lemma loop_turn:
  assumes "serving e s" "\<And>i. up e i" "prompt cfg e"
  shows "session_loop be cfg e s =
     (case session_switch be cfg e (s\<lparr>polls := Suc (polls s), ticks := Suc (ticks s)\<rparr>) of
        None \<Rightarrow> None | Some s' \<Rightarrow> session_loop be cfg e s')"
  using assms on_time [of e "s\<lparr>polls := Suc (polls s)\<rparr>" cfg]
  by (simp add: session_loop.simps [of be cfg e s] serving_def [of e s] session_turn_def)

text \<open>A session that is over.\<close>

lemma loop_over:
  assumes "serving e s" "\<And>i. up e i" "prompt cfg e" "st s = SESSION_COMPLETED \<or> st s = SESSION_ERROR"
  shows "\<exists>s'. session_loop be cfg e s = Some s' \<and> st s' = st s \<and> tx (sk s') = tx (sk s)"
proof -
  let ?t = "s\<lparr>polls := Suc (polls s), ticks := Suc (ticks s), running := False\<rparr>"
  have "session_loop be cfg e s = session_loop be cfg e ?t"
    using loop_turn [OF assms(1-3), of be] assms(4) by (auto simp: session_switch_def)
  moreover have "session_loop be cfg e ?t = Some ?t" by (subst session_loop.simps) simp
  ultimately show ?thesis by simp
qed

lemma loop_await:
  assumes env: "\<And>i. up e i" "prompt cfg e"
    and switch: "\<And>s. st s = x \<Longrightarrow> session_switch be cfg e s = on_result mt y be e s"
    and further: "\<And>s fs. serving e s \<Longrightarrow> left_over fs p s \<Longrightarrow> st s = y \<Longrightarrow>
      \<exists>s'. session_loop be cfg e s = Some s' \<and> st s' = next_step fs \<and> tx (sk s') = tx (sk s)"
    and s: "serving e s" "left_over fs p s" "st s = x"
  shows "\<exists>s'. session_loop be cfg e s = Some s' \<and> st s' = await mt next_step fs \<and> tx (sk s') = tx (sk s)"
  using s
proof (induction fs arbitrary: s)
  case Nil
  let ?s = "s\<lparr>polls := Suc (polls s), ticks := Suc (ticks s)\<rparr>"
  obtain t where t: "get_frame be ?s = Some (-1, t)" "serving e t" "tx (sk t) = tx (sk ?s)"
    by (rule served_end [of e ?s p be]) (use Nil in simp_all)
  then have "session_loop be cfg e s = session_loop be cfg e (t\<lparr>st := SESSION_ERROR\<rparr>)"
    using loop_turn [OF Nil(1) env] Nil(3) switch [of ?s] by (simp add: on_result_def)
  then show ?case using loop_over [of e "t\<lparr>st := SESSION_ERROR\<rparr>" cfg be] t env by simp
next
  case (Cons f fs)
  let ?s = "s\<lparr>polls := Suc (polls s), ticks := Suc (ticks s)\<rparr>"
  obtain t where t: "get_frame be ?s = Some (0, t)" "serving e t" "left_over fs p t" "tx (sk t) = tx (sk ?s)"
      "st t = st ?s" "in_frame t = received f (in_frame ?s)"
    by (rule served_frame [of e ?s f fs p be]) (use Cons.prems in simp_all)
  have f: "msgType (in_frame t) = msgType f" "status (in_frame t) = status f" by (simp_all add: t(6) received_def)
  have run: "session_loop be cfg e s = (case on_result mt y be e ?s of None \<Rightarrow> None | Some s' \<Rightarrow> session_loop be cfg e s')"
    using loop_turn [OF Cons.prems(1) env] Cons.prems(3) switch [of ?s] by simp
  consider "msgType f \<noteq> mt" | "msgType f = mt" "status f \<noteq> LUCP_STAT_SUCCESS" | "msgType f = mt" "status f = LUCP_STAT_SUCCESS"
    by blast
  then show ?case
  proof cases
    case 1
    then have "session_loop be cfg e s = session_loop be cfg e t" using run t(1) f by (simp add: on_result_def)
    then show ?thesis using Cons.IH [of t] t Cons.prems(3) 1 by simp
  next
    case 2
    then have "session_loop be cfg e s = session_loop be cfg e (touch e (t\<lparr>st := SESSION_ERROR\<rparr>))"
      using run t(1) f by (simp add: on_result_def)
    then show ?thesis using loop_over [of e "touch e (t\<lparr>st := SESSION_ERROR\<rparr>)" cfg be] t env 2 by simp
  next
    case 3
    then have "session_loop be cfg e s = session_loop be cfg e (touch e (t\<lparr>st := y\<rparr>))"
      using run t(1) f by (simp add: on_result_def)
    then show ?thesis using further [of "touch e (t\<lparr>st := y\<rparr>)" fs] t 3 by simp
  qed
qed

lemma loop_results:
  assumes "\<And>i. up e i" "prompt cfg e" "serving e s" "left_over fs p s" "st s = SESSION_WAITING_FTP_LOGIN_RESULT"
  shows "\<exists>s'. session_loop be cfg e s = Some s' \<and> st s' = await_results fs \<and> tx (sk s') = tx (sk s)"
  unfolding await_results_def
proof (rule loop_await [OF assms(1,2) _ _ assms(3-5)])
  show "session_switch be cfg e s = on_login_result be e s" if "st s = SESSION_WAITING_FTP_LOGIN_RESULT" for s
    using that by (simp add: session_switch_def)
  show "\<exists>s'. session_loop be cfg e s = Some s' \<and> st s' = await_download fs \<and> tx (sk s') = tx (sk s)"
    if "serving e s" "left_over fs p s" "st s = SESSION_WAITING_FTP_DOWNLOAD_RESULT" for s fs
    unfolding await_download_def
  proof (rule loop_await [OF assms(1,2) _ _ that])
    show "session_switch be cfg e s = on_download_result be e s" if "st s = SESSION_WAITING_FTP_DOWNLOAD_RESULT" for s
      using that by (simp add: session_switch_def)
  qed (use loop_over assms(1,2) in metis)
qed

lemma prep_length: "prep_result r = (x, msg) \<Longrightarrow> length (bytes_of msg) \<le> 37"
  by (auto simp: prep_result_def bytes_of_def split: if_splits)

lemma loop_notify:
  assumes "\<And>i. up e i" "prompt cfg e" "serving e s" "left_over fs p s" "st s = SESSION_WAITING_UPLOAD_REQUEST"
    "can_write 51 s" "prep_result (dice e (rolls s) mod 10) = (x, msg)"
  shows "\<exists>s'. session_loop be cfg e s = Some s' \<and>
     st s' = (if x = LUCP_STAT_SUCCESS then await_results fs else SESSION_ERROR) \<and>
     tx (sk s') = tx (sk s) @ reply_bytes (Reply (sess_seq s) LUCP_MTYP_NOTIFY_DONE x (bytes_of msg))"
proof -
  let ?s = "s\<lparr>polls := Suc (polls s), ticks := Suc (ticks s), rolls := Suc (rolls s)\<rparr>"
  have cw: "can_write (14 + length (bytes_of msg) + 0) ?s" using assms(6) prep_length [OF assms(7)] by (auto intro: can_write_less)
  have l: "length (bytes_of msg) \<le> LUCP_MAX_TEXTINFO_LEN" using prep_length [OF assms(7)] by (simp add: lucp_consts)
  have sv: "serving e ?s" using assms(3) serving_simps(3) [where s = "s\<lparr>polls := Suc (polls s), ticks := Suc (ticks s)\<rparr>"] by simp
  obtain t where t: "put_frame be (sess_seq s) LUCP_MTYP_NOTIFY_DONE x (Some (bytes_of msg)) (of_nat (length (bytes_of msg))) ?s = Some t"
      "serving e t" "can_write 0 t" "tx (sk t) = tx (sk ?s) @ reply_bytes (Reply (sess_seq s) LUCP_MTYP_NOTIFY_DONE x (bytes_of msg))"
      "input t = input ?s"
    using put_reply [OF sv cw l disjI1 [OF refl], of be "sess_seq s" LUCP_MTYP_NOTIFY_DONE x] by blast
  define y where "y = (if x \<noteq> LUCP_STAT_SUCCESS then SESSION_ERROR else SESSION_WAITING_FTP_LOGIN_RESULT)"
  define u where "u = touch e (t\<lparr>st := y\<rparr>)"
  have u: "serving e u" "left_over fs p u" "st u = y" "tx (sk u) = tx (sk t)"
    using t(2,5) assms(4) by (simp_all add: u_def left_over_def)
  have "session_loop be cfg e s = session_loop be cfg e u"
    using loop_turn [OF assms(3,1,2), of be] assms(5,7) t(1)
    by (simp add: session_switch_def on_upload_request_def u_def y_def bytes_of_def)
  then show ?thesis
    using loop_results [OF assms(1,2) u(1,2), of be] loop_over [OF u(1) assms(1,2), of be] u(3,4) t(4) by (auto simp: y_def)
qed

lemma loop_conversation:
  assumes "\<And>i. up e i" "prompt cfg e" "serving e s" "left_over fs p s" "st s = SESSION_INIT"
    "can_write 65 s" "conversation (validate_version (protocol cfg)) (prep_result (dice e (rolls s) mod 10)) fs = (y, rs)"
  shows "\<exists>s'. session_loop be cfg e s = Some s' \<and> st s' = y \<and> tx (sk s') = tx (sk s) @ concat (map reply_bytes rs)"
  using assms(3-7)
proof (induction fs arbitrary: s)
  case Nil
  let ?s = "s\<lparr>polls := Suc (polls s), ticks := Suc (ticks s)\<rparr>"
  obtain t where t: "get_frame be ?s = Some (-1, t)" "serving e t" "tx (sk t) = tx (sk ?s)"
    by (rule served_end [of e ?s p be]) (use Nil in simp_all)
  then have "session_loop be cfg e s = session_loop be cfg e (t\<lparr>st := SESSION_ERROR\<rparr>)"
    using loop_turn [OF Nil(1) assms(1,2), of be] Nil(3) by (simp add: session_switch_def on_init_def)
  moreover have "y = SESSION_ERROR" "rs = []"
    using Nil(5) by (cases "prep_result (dice e (rolls s) mod 10)"; simp)+
  ultimately show ?case using loop_over [of e "t\<lparr>st := SESSION_ERROR\<rparr>" cfg be] t assms(1,2) by simp
next
  case (Cons f fs)
  let ?s = "s\<lparr>polls := Suc (polls s), ticks := Suc (ticks s)\<rparr>"
  obtain x msg where prep: "prep_result (dice e (rolls s) mod 10) = (x, msg)" by fastforce
  obtain t where t: "get_frame be ?s = Some (0, t)" "serving e t" "left_over fs p t" "tx (sk t) = tx (sk ?s)" "wr (sk t) = wr (sk ?s)"
      "st t = st ?s" "in_frame t = received f (in_frame ?s)" "rolls t = rolls ?s"
    by (rule served_frame [of e ?s f fs p be]) (use Cons.prems in simp_all)
  have f: "msgType (in_frame t) = msgType f" "seq_num (in_frame t) = seq_num f" "version_major (in_frame t) = version_major f"
    by (simp_all add: t(7) received_def)
  have w: "can_write 65 t" using Cons.prems(4) t(5) by (simp add: can_write_def)
  have run: "session_loop be cfg e s = (case on_init be cfg e ?s of None \<Rightarrow> None | Some s' \<Rightarrow> session_loop be cfg e s')"
    using loop_turn [OF Cons.prems(1) assms(1,2), of be] Cons.prems(3) by (simp add: session_switch_def)
  let ?bad = "validate_version (protocol cfg) \<and> version_major f \<noteq> LUCP_VER_MAJOR"
  consider "msgType f \<noteq> LUCP_MTYP_UPLOAD_REQUEST" | "msgType f = LUCP_MTYP_UPLOAD_REQUEST" ?bad
    | "msgType f = LUCP_MTYP_UPLOAD_REQUEST" "\<not> ?bad" by blast
  then show ?case
  proof cases
    case 1
    then have "session_loop be cfg e s = session_loop be cfg e t" using run t(1) f by (simp add: on_init_def)
    then show ?thesis using Cons.IH [of t] t Cons.prems(3,5) w 1 prep by simp
  next
    case 2
    have l: "length (bytes_of ''Bad version'') = 11" by (simp add: bytes_of_def)
    have "can_write (14 + length (bytes_of ''Bad version'') + 0) t" using w by (auto simp: l intro: can_write_less)
    moreover have "length (bytes_of ''Bad version'') \<le> LUCP_MAX_TEXTINFO_LEN" by (simp add: l lucp_consts)
    ultimately obtain u where u: "put_frame be (seq_num f) LUCP_MTYP_ACK_START LUCP_STAT_FAILED (Some (bytes_of ''Bad version''))
         (of_nat (length (bytes_of ''Bad version''))) t = Some u"
      "serving e u" "can_write 0 u"
      "tx (sk u) = tx (sk t) @ reply_bytes (Reply (seq_num f) LUCP_MTYP_ACK_START LUCP_STAT_FAILED (bytes_of ''Bad version''))"
      using put_reply [OF t(2) _ _ disjI1 [OF refl], of "bytes_of ''Bad version''" 0 be "seq_num f" LUCP_MTYP_ACK_START LUCP_STAT_FAILED] by blast
    then have "session_loop be cfg e s = session_loop be cfg e (u\<lparr>st := SESSION_ERROR\<rparr>)"
      using run t(1) f 2 l by (simp add: on_init_def)
    then show ?thesis
      using loop_over [of e "u\<lparr>st := SESSION_ERROR\<rparr>" cfg be] u(2,4) t(4) assms(1,2) Cons.prems(5) 2 prep by auto
  next
    case 3
    let ?t = "touch e (t\<lparr>sess_seq := seq_num f, st := SESSION_WAITING_UPLOAD_REQUEST\<rparr>)"
    have sv: "serving e ?t" using t(2) by simp
    have tt: "left_over fs p ?t" using t(3) by simp
    have rt: "rolls ?t = rolls s" using t(8) by (simp add: touch_def)
    have w': "can_write (14 + length ([] :: byte list) + 51) ?t" "length ([] :: byte list) \<le> LUCP_MAX_TEXTINFO_LEN" using w by simp_all
    obtain u where u: "put_frame be (seq_num f) LUCP_MTYP_ACK_START LUCP_STAT_SUCCESS None (of_nat (length ([] :: byte list))) ?t = Some u"
        "serving e u" "can_write 51 u"
        "tx (sk u) = tx (sk ?t) @ reply_bytes (Reply (seq_num f) LUCP_MTYP_ACK_START LUCP_STAT_SUCCESS [])"
        "input u = input ?t" "st u = st ?t" "sess_seq u = sess_seq ?t" "rolls u = rolls ?t"
      using put_reply [OF sv w' disjI2 [OF conjI [OF refl refl]], of be "seq_num f" LUCP_MTYP_ACK_START LUCP_STAT_SUCCESS] by blast
    have uu: "left_over fs p u" "st u = SESSION_WAITING_UPLOAD_REQUEST" "sess_seq u = seq_num f" "rolls u = rolls s"
      using u(5-8) tt rt by (simp_all add: left_over_def)
    have "session_loop be cfg e s = session_loop be cfg e u"
      using run t(1) f 3 u(1) by (simp add: on_init_def Let_def)
    moreover obtain s' where "session_loop be cfg e u = Some s'"
        "st s' = (if x = LUCP_STAT_SUCCESS then await_results fs else SESSION_ERROR)"
        "tx (sk s') = tx (sk u) @ reply_bytes (Reply (sess_seq u) LUCP_MTYP_NOTIFY_DONE x (bytes_of msg))"
      using loop_notify [OF assms(1,2) u(2) uu(1,2) u(3), of x msg be] prep uu(4) by auto
    moreover have "y = (if x = LUCP_STAT_SUCCESS then await_results fs else SESSION_ERROR)"
        "rs = [Reply (seq_num f) LUCP_MTYP_ACK_START LUCP_STAT_SUCCESS [], Reply (seq_num f) LUCP_MTYP_NOTIFY_DONE x (bytes_of msg)]"
      using Cons.prems(5) 3 unfolding prep by (simp_all only: conversation.simps simp_thms if_True if_False prod.inject)
    ultimately show ?thesis using u(4) uu(3) t(4) by (simp only: touch_simps list.map concat.simps) simp
  qed
qed

text \<open>The thread, from its start.\<close>

lemma thread_conversation:
  assumes "rx k = es @ [Rd_Eof]" "quiet es" "delivered es = concat (map wire fs) @ p"
    "list_all valid_frame fs" "valid_frame h" "strict_prefix p (wire h)"
    "list_all progress (wr k)" "65 \<le> accepts (wr k)" "\<And>i. up e i" "prompt cfg e"
    "length (textInfo f) = LUCP_MAX_TEXTINFO_LEN" "length (textInfo g) = LUCP_MAX_TEXTINFO_LEN"
  shows "\<exists>s. session_thread be cfg e c f g n k = Some s \<and>
     (st s, tx (sk s)) =
       (case conversation (validate_version (protocol cfg)) (prep_result (dice e 0 mod 10)) fs of
          (x, rs) \<Rightarrow> (x, tx k @ concat (map reply_bytes rs)))"
proof -
  obtain s where s: "session_thread be cfg e c f g n k = session_loop be cfg e s" "sess_inv s" "running s"
    "st s = SESSION_INIT" "sk s = k" "input s = delivered (rx k)" "ticks s = 1" "rolls s = 0" "last_active s = clock e 0"
    using thread_start [OF assms(11,12)] by blast
  have "serving e s" using s assms(1,2) by (auto simp: serving_def)
  moreover have "left_over fs p s" using s(6) assms(1,3-6) by (auto simp: left_over_def)
  moreover have "can_write 65 s" using s(5) assms(7,8) by (simp add: can_write_def)
  moreover obtain x rs where "conversation (validate_version (protocol cfg)) (prep_result (dice e (rolls s) mod 10)) fs = (x, rs)"
    by fastforce
  ultimately show ?thesis
    using loop_conversation [OF assms(9,10), of s fs p x rs be] s(1,4,5,8) by auto
qed

section \<open>Properties\<close>

text \<open>C3. The session thread implements the protocol. Let a client send any valid frames, in any number and
  order, and end the connection, perhaps in the middle of another frame. However the bytes are cut into
  reads and interrupted, whatever the byte order of the host, and if the clock stays within the session
  timeout and the socket takes what is written, the thread ends in the state and has written exactly
  the bytes of the answers that the protocol gives for these frames.\<close>

theorem lucpd_session_refines:
  assumes "rx k = es @ [Rd_Eof]" "quiet es" "delivered es = concat (map wire fs) @ p"
    "list_all valid_frame fs" "valid_frame h" "strict_prefix p (wire h)"
    "list_all progress (wr k)" "65 \<le> accepts (wr k)" "\<And>i. up e i" "prompt cfg e"
    "length (textInfo f) = LUCP_MAX_TEXTINFO_LEN" "length (textInfo g) = LUCP_MAX_TEXTINFO_LEN"
  shows "\<exists>s. session_thread be cfg e c f g n k = Some s \<and>
     (st s, tx (sk s)) =
       (case conversation (validate_version (protocol cfg)) (prep_result (dice e 0 mod 10)) fs of
          (x, rs) \<Rightarrow> (x, tx k @ concat (map reply_bytes rs)))"
  by (rule thread_conversation [OF assms])

definition cut_talk :: sock where
  "cut_talk = \<lparr>rx = [Rd_Data (wire sample_frame), Rd_Eintr, Rd_Data (wire (answer LUCP_MTYP_FTP_LOGIN_RESULT) @
      wire (answer LUCP_MTYP_FTP_DOWNLOAD_RESULT) @ [0x4C]), Rd_Eof], wr = replicate 70 (Wr_Accept 9), sel = [], tx = []\<rparr>"

theorem lucpd_session_refines_witness:
  "\<exists>s. session_thread False talk_config (steady_env\<lparr>clock := \<lambda>i. 0\<rparr>) fresh_ctx blank_frame blank_frame 4 cut_talk = Some s \<and>
     st s = SESSION_COMPLETED \<and>
     tx (sk s) = reply_bytes (Reply 7 LUCP_MTYP_ACK_START LUCP_STAT_SUCCESS []) @
       reply_bytes (Reply 7 LUCP_MTYP_NOTIFY_DONE LUCP_STAT_SUCCESS (bytes_of ''demo_logfile_20250925.log''))"
proof -
  let ?fs = "[sample_frame, answer LUCP_MTYP_FTP_LOGIN_RESULT, answer LUCP_MTYP_FTP_DOWNLOAD_RESULT]"
  let ?es = "[Rd_Data (wire sample_frame), Rd_Eintr, Rd_Data (wire (answer LUCP_MTYP_FTP_LOGIN_RESULT) @
      wire (answer LUCP_MTYP_FTP_DOWNLOAD_RESULT) @ [0x4C])]"
  have conv: "conversation True (prep_result (dice steady_env 0 mod 10)) ?fs =
      (SESSION_COMPLETED, [Reply 7 LUCP_MTYP_ACK_START LUCP_STAT_SUCCESS [],
        Reply 7 LUCP_MTYP_NOTIFY_DONE LUCP_STAT_SUCCESS (bytes_of ''demo_logfile_20250925.log'')])"
    by (simp add: steady_env_def prep_result_def sample_request await_results_def await_download_def)
  have "rx cut_talk = ?es @ [Rd_Eof]" "quiet ?es" "delivered ?es = concat (map wire ?fs) @ [0x4C]"
    "list_all progress (wr cut_talk)" "65 \<le> accepts (wr cut_talk)" "tx cut_talk = []"
    by (simp_all add: cut_talk_def list_all_iff accepts_def)
  moreover have "list_all valid_frame ?fs" "strict_prefix [0x4C] (wire sample_frame)"
    using sample_frame_valid by (simp_all add: wire_sample strict_prefix_def)
  moreover have "prompt talk_config (steady_env\<lparr>clock := \<lambda>i. 0\<rparr>)" "up (steady_env\<lparr>clock := \<lambda>i. 0\<rparr>) i" for i
    by (simp_all add: prompt_def elapsed_def talk_config steady_env_def)
  ultimately show ?thesis
    using lucpd_session_refines [of cut_talk ?es ?fs "[0x4C]" sample_frame "steady_env\<lparr>clock := \<lambda>i. 0\<rparr>" talk_config
        blank_frame blank_frame False fresh_ctx 4] sample_frame_valid
    by (simp add: talk_config conv del: reply_bytes.simps conversation.simps)
qed

text \<open>C10. A silent client is never timed out. If a client connects, sends a part of a frame or nothing at all and
  then neither sends more nor closes, the session thread never returns, whatever the clock shows and
  however long the session timeout is: the timeout is looked at between two calls of \<open>lucp_net_recv\<close> only.\<close>

theorem lucpd_session_silent_client:
  assumes "quiet (rx k)" "strict_prefix (delivered (rx k)) (wire h)" "valid_frame h"
    "up e 0" "elapsed e 0 1 \<le> session_timeout_ms (protocol cfg)"
    "length (textInfo f) = LUCP_MAX_TEXTINFO_LEN" "length (textInfo g) = LUCP_MAX_TEXTINFO_LEN"
  shows "session_thread be cfg e c f g n k = None"
proof -
  obtain s where s: "session_thread be cfg e c f g n k = session_loop be cfg e s" "sess_inv s" "running s"
    "st s = SESSION_INIT" "sk s = k" "input s = delivered (rx k)" "ticks s = 1" "polls s = 0" "last_active s = clock e 0"
    using thread_start [OF assms(6,7)] by blast
  obtain u where u: "pending (netctx s) @ delivered (rx k) @ u = wire h" "u \<noteq> []"
    using assms(2) s(5,6) by (auto simp: strict_prefix_def prefix_def input_def)
  have i: "net_inv (netctx s)" "length (textInfo (in_frame s)) = LUCP_MAX_TEXTINFO_LEN"
    using s(2) by (simp_all add: sess_inv_def)
  let ?s = "s\<lparr>polls := 1, ticks := Suc 1\<rparr>"
  have "check_timeout cfg e (s\<lparr>polls := 1\<rparr>) = ?s"
    using assms(5) s(7,9) by (simp add: check_timeout_def elapsed_def Let_def)
  moreover have "get_frame be ?s = None"
    using lucp_net_recv_cut(2) [OF i(1) assms(3) i(2) assms(1) u, of k be] s(5) by (simp add: get_frame_def)
  ultimately have "session_turn be cfg e (s\<lparr>polls := 1\<rparr>) = None"
    using s(4) by (simp add: session_turn_def session_switch_def on_init_def)
  then show ?thesis using s(1,3,8) assms(4) by (simp add: session_loop.simps [of be cfg e s])
qed

theorem lucpd_session_silent_client_witness:
  "session_thread False talk_config (steady_env\<lparr>clock := \<lambda>i. if i < 2 then 0 else 10 ^ 9\<rparr>) fresh_ctx blank_frame blank_frame 4
     (cut_talk\<lparr>rx := [Rd_Data [0x4C]]\<rparr>) = None"
  by (rule lucpd_session_silent_client [where h = sample_frame])
    (use sample_frame_valid in \<open>simp_all add: wire_sample strict_prefix_def elapsed_def talk_config steady_env_def\<close>)

end
