(* ===== verification/Lucp_Upload.thy ===== *)
theory Lucp_Upload
  imports Lucpd_Protocol
begin

text \<open>
  Both ends of a request for an upload: a client that sends it with \<open>lucp_net_send_with_retries\<close>
  (\<open>lucplib/lucp.c\<close>), and the session thread of the daemon that reads what the client sent
  (\<open>lucpd/src/lucpd.c\<close>). What one side has written is what the other side's socket delivers, cut in any way.
\<close>

section \<open>Answers as frames\<close>

fun reply_frame :: "reply \<Rightarrow> lucp_frame" where
  "reply_frame (Reply seq mt stat t) =
     \<lparr>magic = LUCP_MAGIC, version_major = LUCP_VER_MAJOR, version_minor = LUCP_VER_MINOR, seq_num = seq,
      msgType = mt, status = stat, textInfo_len = of_nat (length t),
      textInfo = t @ replicate (LUCP_MAX_TEXTINFO_LEN - length t) 0\<rparr>"

lemma reply_frame_wire:
  assumes "length t \<le> LUCP_MAX_TEXTINFO_LEN"
  shows "valid_frame (reply_frame (Reply seq mt stat t))" "wire (reply_frame (Reply seq mt stat t)) = reply_bytes (Reply seq mt stat t)"
proof -
  have "unat (of_nat (length t) :: u16) = length t" using assms by (simp add: unat_of_nat lucp_consts)
  then show "valid_frame (reply_frame (Reply seq mt stat t))" "wire (reply_frame (Reply seq mt stat t)) = reply_bytes (Reply seq mt stat t)"
    using assms by (simp_all add: valid_frame_def wf_frame_def wire_def)
qed

section \<open>Requests that are sent again\<close>

text \<open>After the first request the session passes over further ones, so retransmissions change nothing.\<close>

lemma await_skips: "list_all (\<lambda>f. msgType f \<noteq> mt) js \<Longrightarrow> await mt next_step (js @ fs) = await mt next_step fs"
  by (induction js) auto

lemma await_results_skips:
  "list_all is_request js \<Longrightarrow> await_results (js @ fs) = await_results fs"
  unfolding await_results_def by (rule await_skips) (auto simp: is_request_def list_all_iff lucp_consts)

lemma conversation_retransmitted:
  assumes "is_request f" "version_major f = LUCP_VER_MAJOR"
  shows "conversation check (stat, msg) (replicate (Suc m) f @ fs) =
     (if stat = LUCP_STAT_SUCCESS then await_results fs else SESSION_ERROR,
      [Reply (seq_num f) LUCP_MTYP_ACK_START LUCP_STAT_SUCCESS [],
       Reply (seq_num f) LUCP_MTYP_NOTIFY_DONE stat (bytes_of msg)])"
  using await_results_skips [of "replicate m f" fs] assms by (simp add: is_request_def list_all_iff)

section \<open>Properties\<close>

text \<open>C4. A request and its retransmissions. A client sends an upload request with \<open>lucp_net_send_with_retries\<close>, and
  its first attempts, fewer than \<open>n_retries\<close>, time out. A session of the daemon reads everything the client sends, all the copies of
  the request and any further frames, cut in any way, and the client reads what the session writes, cut in any way. Then the
  call returns 0 with the acknowledgement, the notification is what the client reads next and the last thing it
  gets, and the session ends as if the request had been sent once.\<close>

theorem lucp_upload_request_served:
  assumes f: "valid_frame f" "is_request f" "version_major f = LUCP_VER_MAJOR"
    and client: "net_inv c" "pending c = []" "length (textInfo g) = LUCP_MAX_TEXTINFO_LEN" "quiet (rx s)" "tx s = []"
      "sel s = replicate m Sel_Timeout @ Sel_Ready # evs" "int m < n" "list_all progress (wr s)"
      "Suc m * length (wire f) \<le> accepts (wr s)"
    and daemon: "rx k = es @ [Rd_Eof]" "quiet es" "tx k = []" "list_all progress (wr k)" "65 \<le> accepts (wr k)"
      "\<And>i. up e i" "prompt cfg e" "length (textInfo fi) = LUCP_MAX_TEXTINFO_LEN" "length (textInfo fo) = LUCP_MAX_TEXTINFO_LEN"
      "list_all valid_frame fs" "prep_result (dice e 0 mod 10) = (stat, msg)"
    and requests: "delivered es = concat (replicate (Suc m) (wire f)) @ concat (map wire fs)"
    and answers: "session_thread be' cfg e d fi fo fd' k = Some t" "delivered (rx s) = tx (sk t)"
  shows "\<exists>c' h s'. lucp_net_send_with_retries be (Some c) (Some f) (Some g) LUCP_MTYP_ACK_START n s = Some (0, Some c', Some h, s') \<and>
     tx s' = concat (replicate (Suc m) (wire f)) \<and>
     wire h = reply_bytes (Reply (seq_num f) LUCP_MTYP_ACK_START LUCP_STAT_SUCCESS []) \<and>
     pending c' @ delivered (rx s') = reply_bytes (Reply (seq_num f) LUCP_MTYP_NOTIFY_DONE stat (bytes_of msg)) \<and>
     st t = (if stat = LUCP_STAT_SUCCESS then await_results fs else SESSION_ERROR)"
proof -
  let ?a = "Reply (seq_num f) LUCP_MTYP_ACK_START LUCP_STAT_SUCCESS []"
  let ?b = "Reply (seq_num f) LUCP_MTYP_NOTIFY_DONE stat (bytes_of msg)"
  have len: "length (wire f) \<ge> 14" using f(1) by (simp add: valid_frame_def length_wire)
  have "\<exists>u. session_thread be' cfg e d fi fo fd' k = Some u \<and> (st u, tx (sk u)) =
      (case conversation (validate_version (protocol cfg)) (prep_result (dice e 0 mod 10)) (replicate (Suc m) f @ fs) of
         (x, rs) \<Rightarrow> (x, tx k @ concat (map reply_bytes rs)))"
    by (rule thread_conversation [OF daemon(1,2) _ _ f(1) _ daemon(4-9), where p = "[]"])
      (use requests daemon(10) f(1) len in \<open>auto simp: list_all_iff strict_prefix_def concat_replicate_trivial\<close>)
  then have t: "st t = (if stat = LUCP_STAT_SUCCESS then await_results fs else SESSION_ERROR)" "tx (sk t) = reply_bytes ?a @ reply_bytes ?b"
    using answers(1) daemon(3) conversation_retransmitted [OF f(2,3), of "validate_version (protocol cfg)" stat msg m fs]
    by (simp_all add: daemon(11) del: replicate.simps reply_bytes.simps)
  have a: "valid_frame (reply_frame ?a)" "wire (reply_frame ?a) = reply_bytes ?a"
    by (rule reply_frame_wire; simp)+
  have to: "set (replicate m Sel_Timeout) \<subseteq> {Sel_Ready, Sel_Timeout}" "count_list (replicate m Sel_Timeout) Sel_Ready = 0"
    by (auto simp: count_list_0_iff)
  have "\<exists>c' h s'. retry_loop be (nat n) c f g LUCP_MTYP_ACK_START s = Some (0, Some c', Some h, s') \<and> wire h = wire (reply_frame ?a) \<and>
     text_of h = text_of (reply_frame ?a) \<and>
     tx s' = tx s @ concat (replicate (Suc (length (replicate m Sel_Timeout))) (wire f)) \<and> sel s' = evs \<and>
     pending c' @ delivered (rx s') = reply_bytes ?b"
    by (rule retry_loop_succeeds [OF f(1) a(1) _ _ client(1,3,4), where js = "[]"])
      (use client answers(2) t(2) a(2) to in \<open>simp_all del: reply_bytes.simps\<close>)
  then show ?thesis using t(1) a(2) client(5) by (simp add: lucp_net_send_with_retries_def del: reply_bytes.simps) blast
qed

definition retry_sock :: sock where
  "retry_sock = \<lparr>rx = [Rd_Data (reply_bytes (Reply 7 LUCP_MTYP_ACK_START LUCP_STAT_SUCCESS []) @
        reply_bytes (Reply 7 LUCP_MTYP_NOTIFY_DONE LUCP_STAT_SUCCESS (bytes_of ''demo_logfile_20250925.log'')))],
     wr = replicate 48 (Wr_Accept 9), sel = [Sel_Timeout, Sel_Ready], tx = []\<rparr>"

definition twice_sock :: sock where
  "twice_sock = \<lparr>rx = [Rd_Data (wire sample_frame), Rd_Eintr, Rd_Data (wire sample_frame), Rd_Eof],
     wr = replicate 70 (Wr_Accept 9), sel = [], tx = []\<rparr>"

theorem lucp_upload_request_served_witness:
  "\<exists>c' h s'. lucp_net_send_with_retries True (Some fresh_ctx) (Some sample_frame) (Some blank_frame) LUCP_MTYP_ACK_START 3 retry_sock =
       Some (0, Some c', Some h, s') \<and> tx s' = wire sample_frame @ wire sample_frame"
proof -
  let ?e = "steady_env\<lparr>clock := \<lambda>i. 0\<rparr>"
  have up: "up ?e i" and pr: "prompt talk_config ?e" for i
    by (simp_all add: prompt_def elapsed_def talk_config steady_env_def)
  have prep: "prep_result (dice ?e 0 mod 10) = (LUCP_STAT_SUCCESS, ''demo_logfile_20250925.log'')"
    by (simp add: steady_env_def prep_result_def)
  let ?es = "[Rd_Data (wire sample_frame), Rd_Eintr, Rd_Data (wire sample_frame)]"
  have k: "rx twice_sock = ?es @ [Rd_Eof]" "quiet ?es" "tx twice_sock = []" "list_all progress (wr twice_sock)"
    "65 \<le> accepts (wr twice_sock)"
    by (simp_all add: twice_sock_def list_all_iff accepts_def)
  have f: "valid_frame sample_frame" "is_request sample_frame" "version_major sample_frame = LUCP_VER_MAJOR" "seq_num sample_frame = 7"
    using sample_frame_valid sample_request by (simp_all add: is_request_def sample_frame_def)
  have "\<exists>t. session_thread False talk_config ?e fresh_ctx blank_frame blank_frame 4 twice_sock = Some t \<and>
      (st t, tx (sk t)) = (case conversation (validate_version (protocol talk_config)) (prep_result (dice ?e 0 mod 10))
         (replicate (Suc 1) sample_frame @ []) of (x, rs) \<Rightarrow> (x, tx twice_sock @ concat (map reply_bytes rs)))"
    by (rule thread_conversation [OF k(1,2) _ _ f(1) _ k(4,5) up pr blank_text blank_text, where p = "[]"])
      (use f(1) in \<open>simp_all add: wire_sample strict_prefix_def\<close>)
  then obtain t where t: "session_thread False talk_config ?e fresh_ctx blank_frame blank_frame 4 twice_sock = Some t"
      "tx (sk t) = reply_bytes (Reply 7 LUCP_MTYP_ACK_START LUCP_STAT_SUCCESS []) @
        reply_bytes (Reply 7 LUCP_MTYP_NOTIFY_DONE LUCP_STAT_SUCCESS (bytes_of ''demo_logfile_20250925.log''))"
    unfolding prep conversation_retransmitted [OF f(2,3)] using f(4) k(3) by (auto simp del: reply_bytes.simps)
  have s: "quiet (rx retry_sock)" "tx retry_sock = []" "sel retry_sock = replicate 1 Sel_Timeout @ Sel_Ready # []"
    "list_all progress (wr retry_sock)" "Suc 1 * length (wire sample_frame) \<le> accepts (wr retry_sock)" "delivered (rx retry_sock) = tx (sk t)"
    using t(2) by (simp_all add: retry_sock_def list_all_iff accepts_def wire_sample)
  note fresh = fresh_ctx
  from lucp_upload_request_served [OF f(1-3) fresh blank_text s(1-3) _ s(4,5) k up pr blank_text blank_text _ prep _ t(1) s(6), of 3 "[]" True]
  show ?thesis by (simp del: reply_bytes.simps) blast
qed

end
