(* ===== verification/Lucpd_Server.thy ===== *)
theory Lucpd_Server
  imports Lucpd_Cfg
begin

text \<open>
  The accept loop of the upload daemon's \<open>main\<close> (\<open>lucpd/src/lucpd.c\<close>), the signal handler, and the
  part of every session thread that the loop shares with it: the atomic counter \<open>client_count\<close>.

  The main thread, the session threads and the signal handler run at the same time; a step of
  \<open>srv_step\<close> is one access to what they share by one of them, and every interleaving is a path of steps. The
  program counter \<open>pc\<close> of the main thread is the access it does next: the test of \<open>server_running\<close> at the head of the loop,
  \<open>accept\<close>, \<open>atomic_load\<close>, \<open>pthread_create\<close>, \<open>atomic_fetch_add\<close>, and the \<open>close\<close> behind the loop. A
  signal can arrive between any two of them. The handler first resets \<open>server_running\<close> and then
  closes the listening descriptor; \<open>handlers\<close> counts the runs that are between the two. A session thread closes its
  socket before it decrements the counter.

  \<open>open_sessions\<close> counts the threads that hold an open socket,
  \<open>closing_sessions\<close> those between the two actions at their end, \<open>lost_sessions\<close> the connections
  for which \<open>pthread_create\<close> failed: its result is not looked at
  (what \<open>pthread_detach\<close> then does with the unset thread identifier is left out).
  \<open>listen_closes\<close> counts the calls of \<open>close\<close> on the listening descriptor: one by each run of the signal handler,
  one by the main thread behind its loop.
\<close>

datatype main_pc = Testing | Accepting | Checking | Creating | Counting | Leaving | Stopped

record srv =
  server_running :: bool
  client_count :: int
  pc :: main_pc
  open_sessions :: nat
  closing_sessions :: nat
  lost_sessions :: nat
  handlers :: nat
  listen_closes :: nat

definition srv_start :: srv where
  "srv_start = \<lparr>server_running = True, client_count = 0, pc = Testing, open_sessions = 0,
     closing_sessions = 0, lost_sessions = 0, handlers = 0, listen_closes = 0\<rparr>"

text \<open>The two actions of the handler of SIGINT and SIGTERM; the loop runs only with a valid descriptor.\<close>

definition sig_stop :: "srv \<Rightarrow> srv" where
  "sig_stop s = s\<lparr>server_running := False, handlers := Suc (handlers s)\<rparr>"

definition sig_close :: "srv \<Rightarrow> srv" where
  "sig_close s = s\<lparr>handlers := handlers s - 1, listen_closes := Suc (listen_closes s)\<rparr>"

text \<open>The two actions at the end of a session thread.\<close>

definition session_close :: "srv \<Rightarrow> srv" where
  "session_close s = s\<lparr>open_sessions := open_sessions s - 1, closing_sessions := Suc (closing_sessions s)\<rparr>"

definition session_uncount :: "srv \<Rightarrow> srv" where
  "session_uncount s = s\<lparr>closing_sessions := closing_sessions s - 1, client_count := client_count s - 1\<rparr>"

lemmas srv_action_defs = sig_stop_def sig_close_def session_close_def session_uncount_def

inductive srv_step :: "int \<Rightarrow> srv \<Rightarrow> srv \<Rightarrow> bool" for limit :: int where
  Test: "pc s = Testing \<Longrightarrow>
    srv_step limit s (s\<lparr>pc := if server_running s then Accepting else Leaving\<rparr>)"
| Accept_interrupted: "pc s = Accepting \<Longrightarrow> srv_step limit s (s\<lparr>pc := Testing\<rparr>)"
| Accept_failed: "pc s = Accepting \<Longrightarrow> srv_step limit s (s\<lparr>pc := Leaving\<rparr>)"
| Accept: "pc s = Accepting \<Longrightarrow> srv_step limit s (s\<lparr>pc := Checking\<rparr>)"
| Check: "pc s = Checking \<Longrightarrow>
    srv_step limit s (s\<lparr>pc := if limit \<le> client_count s then Testing else Creating\<rparr>)"
| Create: "pc s = Creating \<Longrightarrow>
    srv_step limit s (s\<lparr>pc := Counting, open_sessions := Suc (open_sessions s)\<rparr>)"
| Create_failed: "pc s = Creating \<Longrightarrow>
    srv_step limit s (s\<lparr>pc := Counting, lost_sessions := Suc (lost_sessions s)\<rparr>)"
| Count: "pc s = Counting \<Longrightarrow>
    srv_step limit s (s\<lparr>pc := Testing, client_count := client_count s + 1\<rparr>)"
| Leave: "pc s = Leaving \<Longrightarrow>
    srv_step limit s (s\<lparr>pc := Stopped, listen_closes := Suc (listen_closes s)\<rparr>)"
| Session_close: "0 < open_sessions s \<Longrightarrow> srv_step limit s (session_close s)"
| Session_uncount: "0 < closing_sessions s \<Longrightarrow> srv_step limit s (session_uncount s)"
| Sig_stop: "srv_step limit s (sig_stop s)"
| Sig_close: "0 < handlers s \<Longrightarrow> srv_step limit s (sig_close s)"

inductive_cases srv_stepE: "srv_step limit s s'"

inductive srv_reach :: "int \<Rightarrow> srv \<Rightarrow> bool" for limit :: int where
  Start: "srv_reach limit srv_start"
| Step: "srv_reach limit s \<Longrightarrow> srv_step limit s s' \<Longrightarrow> srv_reach limit s'"

definition taken :: "srv \<Rightarrow> nat" where
  "taken s = open_sessions s + closing_sessions s + lost_sessions s"

definition srv_inv :: "int \<Rightarrow> srv \<Rightarrow> bool" where
  "srv_inv limit s \<longleftrightarrow>
     int (taken s) = client_count s + (if pc s = Counting then 1 else 0) \<and>
     int (taken s) \<le> max limit 0 \<and> (pc s = Creating \<longrightarrow> int (taken s) < limit)"

lemma srv_step_inv: "srv_step limit s s' \<Longrightarrow> srv_inv limit s \<Longrightarrow> srv_inv limit s'"
  by (induction rule: srv_step.induct) (auto simp: srv_inv_def taken_def srv_action_defs split: if_splits)

lemma srv_reach_inv: "srv_reach limit s \<Longrightarrow> srv_inv limit s"
proof (induction rule: srv_reach.induct)
  case Start
  show ?case by (simp add: srv_inv_def taken_def srv_start_def)
next
  case (Step s s')
  then show ?case using srv_step_inv by blast
qed

lemma srv_step_lost: "srv_step limit s s' \<Longrightarrow> lost_sessions s \<le> lost_sessions s'"
  by (induction rule: srv_step.induct) (auto simp: srv_action_defs)

text \<open>A daemon that was stopped by a signal has closed its listening descriptor more than once.\<close>

lemma srv_closes_twice:
  assumes "srv_reach limit s"
  shows "(if server_running s then 0 else 1) + (if pc s = Stopped then 1 else 0) \<le> listen_closes s + handlers s"
  using assms
proof (induction rule: srv_reach.induct)
  case (Step s s')
  from Step(2,3) show ?case by (cases rule: srv_step.cases) (auto simp: srv_action_defs split: if_splits)
qed (simp add: srv_start_def)

section \<open>Properties\<close>

text \<open>C26. The limit on sessions. In every interleaving of the main thread, the session threads and the
  signal handler, never more sessions are open than \<open>max_clients\<close> allows, and the counter is the
  number of connections that hold a place, one less while the main thread has started a thread
  and not counted it yet (so it may be read as -1, never lower).\<close>

theorem lucpd_client_limit:
  assumes "srv_reach (max_clients (network cfg)) s" "0 \<le> max_clients (network cfg)"
  shows "int (open_sessions s) \<le> max_clients (network cfg) \<and> -1 \<le> client_count s \<and>
     client_count s = int (open_sessions s + closing_sessions s + lost_sessions s) -
       (if pc s = Counting then 1 else 0)"
  using srv_reach_inv [OF assms(1)] assms(2) by (auto simp: srv_inv_def taken_def split: if_splits)

text \<open>A run of the main thread up to a thread creation.\<close>

lemma reach_creating: "0 < limit \<Longrightarrow> srv_reach limit (srv_start\<lparr>pc := Creating\<rparr>)"
proof -
  assume l: "0 < limit"
  have "srv_reach limit (srv_start\<lparr>pc := Accepting\<rparr>)"
    using Step [OF Start Test [of srv_start limit]] by (simp add: srv_start_def)
  from Step [OF this Accept] have "srv_reach limit (srv_start\<lparr>pc := Checking\<rparr>)" by simp
  from Step [OF this Check] show ?thesis using l by (simp add: srv_start_def)
qed

theorem lucpd_client_limit_witness:
  "\<exists>s. srv_reach 1 s \<and> pc s = Counting \<and> client_count s = -1 \<and> int (open_sessions s) \<le> 1"
proof -
  let ?s2 = "srv_start\<lparr>pc := Counting, open_sessions := 1\<rparr>"
  let ?s3 = "?s2\<lparr>open_sessions := 0, closing_sessions := 1\<rparr>"
  let ?s4 = "?s3\<lparr>closing_sessions := 0, client_count := -1\<rparr>"
  have "srv_reach 1 ?s2" using Step [OF reach_creating Create] by (simp add: srv_start_def)
  moreover have "srv_step 1 ?s2 ?s3" using Session_close [of ?s2 1] by (simp add: srv_start_def session_close_def)
  moreover have "srv_step 1 ?s3 ?s4" using Session_uncount [of ?s3 1] by (simp add: srv_start_def session_uncount_def)
  ultimately have r: "srv_reach 1 ?s4" by (meson Step)
  have "int (open_sessions ?s4) \<le> 1"
    using lucpd_client_limit [of "zero_config\<lparr>network := (network zero_config)\<lparr>max_clients := 1\<rparr>\<rparr>" ?s4] r by simp
  then show ?thesis using r by (intro exI [of _ ?s4]) simp
qed

text \<open>Failed thread creations take their places for good. Once as many creations have failed as
  clients are allowed, the server is at its limit in every later state: whenever it looks at the counter, it
  turns the connection away, although no session is running.\<close>

lemma lucpd_lost_sessions_block:
  assumes "srv_reach limit s" "limit \<le> int (lost_sessions s)" "(srv_step limit)\<^sup>*\<^sup>* s s'" "pc s' = Checking"
  shows "limit \<le> client_count s' \<and> open_sessions s' = 0"
proof -
  have "srv_reach limit s' \<and> lost_sessions s \<le> lost_sessions s'" using assms(3,1)
  proof (induction rule: rtranclp_induct)
    case (step y z)
    then show ?case using srv_reach.Step [of limit y z] srv_step_lost [of limit y z] by auto
  qed simp
  then have "srv_inv limit s'" "limit \<le> int (lost_sessions s')" using srv_reach_inv assms(2) by auto
  then show ?thesis using assms(4) by (auto simp: srv_inv_def taken_def max_def split: if_splits)
qed

end
