(* ===== verification/Lucpd_Rate.thy ===== *)
theory Lucpd_Rate
  imports Prelude
begin

text \<open>
  The rate limiter of \<open>lucpd/src/lucpd_utils.c\<close>: \<open>ip_hash_function\<close> and \<open>check_rate_limit\<close>.

  The static table \<open>ip_hash\<close> is a list of 1024 character arrays of 16 cells, the caller's array of
  times a list of integers. The clock's reading is an argument, and so is whether \<open>char\<close> is signed
  on the host (\<open>schar\<close>). \<open>limit_spec\<close> is the intended behaviour: a map from addresses to the time
  of the last admitted request.
\<close>

definition RATE_LIMIT_SECONDS :: int where "RATE_LIMIT_SECONDS = 3"
definition IP_HASH_SIZE :: nat where "IP_HASH_SIZE = 1024"

type_synonym ip_table = "string list"

definition ip_hash_function :: "bool \<Rightarrow> string \<Rightarrow> nat" where
  "ip_hash_function schar ip =
     unat (foldl (\<lambda>hash c. push_bit 5 hash + hash + char_u32 schar c) 0 ip) mod IP_HASH_SIZE"

definition check_rate_limit ::
  "bool \<Rightarrow> int \<Rightarrow> string option \<Rightarrow> int list option \<Rightarrow> ip_table \<Rightarrow> bool \<times> int list option \<times> ip_table" where
  "check_rate_limit schar now client_ip last_access tab =
     (case (client_ip, last_access) of
        (Some ip, Some la) \<Rightarrow>
          let hash = ip_hash_function schar ip in
          if c_str (tab ! hash) = ip then
            if now - la ! hash < RATE_LIMIT_SECONDS then (False, Some la, tab)
            else (True, Some (la[hash := now]), tab)
          else
            let row = c_strncpy (tab ! hash) ip 15;
                row = row[15 := NUL]
            in (True, Some (la[hash := now]), tab[hash := row])
      | _ \<Rightarrow> (False, last_access, tab))"

text \<open>The calls of a run: the clock and the address of each.\<close>

fun check_all ::
  "bool \<Rightarrow> (int \<times> string) list \<Rightarrow> int list \<Rightarrow> ip_table \<Rightarrow> bool list" where
  "check_all schar [] la tab = []"
| "check_all schar ((now, ip) # cs) la tab =
     (case check_rate_limit schar now (Some ip) (Some la) tab of
        (ok, Some la', tab') \<Rightarrow> ok # check_all schar cs la' tab'
      | (ok, None, tab') \<Rightarrow> [ok])"

fun limit_spec :: "(int \<times> string) list \<Rightarrow> (string \<rightharpoonup> int) \<Rightarrow> bool list" where
  "limit_spec [] m = []"
| "limit_spec ((now, ip) # cs) m =
     (case m ip of
        Some t \<Rightarrow> if now - t < RATE_LIMIT_SECONDS then False # limit_spec cs m
                  else True # limit_spec cs (m(ip \<mapsto> now))
      | None \<Rightarrow> True # limit_spec cs (m(ip \<mapsto> now)))"

definition empty_table :: ip_table where
  "empty_table = replicate IP_HASH_SIZE (replicate 16 NUL)"

section \<open>The table against the map\<close>

definition ip_ok :: "string \<Rightarrow> bool" where
  "ip_ok ip \<longleftrightarrow> ip \<noteq> [] \<and> length ip \<le> 15 \<and> NUL \<notin> set ip"

definition wf_table :: "int list \<Rightarrow> ip_table \<Rightarrow> bool" where
  "wf_table la tab \<longleftrightarrow> length la = IP_HASH_SIZE \<and> length tab = IP_HASH_SIZE \<and>
     (\<forall>i < IP_HASH_SIZE. length (tab ! i) = 16)"

definition table_map :: "bool \<Rightarrow> string set \<Rightarrow> int list \<Rightarrow> ip_table \<Rightarrow> (string \<rightharpoonup> int) \<Rightarrow> bool" where
  "table_map schar S la tab m \<longleftrightarrow>
     (\<forall>ip \<in> S. m ip = (if c_str (tab ! ip_hash_function schar ip) = ip
                       then Some (la ! ip_hash_function schar ip) else None))"

lemma hash_less [simp]: "ip_hash_function schar ip < IP_HASH_SIZE"
  by (simp add: ip_hash_function_def IP_HASH_SIZE_def)

lemma row_stores:
  assumes "length row = 16" "ip_ok ip"
  shows "c_str ((c_strncpy row ip 15)[15 := NUL]) = ip" "length ((c_strncpy row ip 15)[15 := NUL]) = 16"
proof -
  have c: "c_str ip = ip" using assms(2) by (simp add: ip_ok_def c_str_id)
  have "length (ip @ replicate (15 - length ip) NUL) = 15" using assms(2) by (simp add: ip_ok_def)
  moreover have "take 15 (ip @ replicate 15 NUL) = ip @ replicate (15 - length ip) NUL"
    using assms(2) by (simp add: ip_ok_def min_def)
  moreover have "length (drop 15 row) = Suc 0" using assms(1) by simp
  then obtain x where "drop 15 row = [x]" by (cases "drop 15 row") auto
  ultimately have "(c_strncpy row ip 15)[15 := NUL] = ip @ NUL # replicate (15 - length ip) NUL"
    using assms(1) unfolding c_strncpy_def c put_bytes_0
    by (simp add: list_update_append replicate_append_same)
  then show "c_str ((c_strncpy row ip 15)[15 := NUL]) = ip"
    using assms(2) by (simp add: ip_ok_def c_str_append_NUL)
  show "length ((c_strncpy row ip 15)[15 := NUL]) = 16" using assms(1) by simp
qed

lemma check_rate_limit_refines:
  assumes "wf_table la tab" "table_map schar S la tab m" "ip \<in> S" "inj_on (ip_hash_function schar) S"
    "\<forall>ip \<in> S. ip_ok ip"
  obtains la' tab' m' where
    "check_rate_limit schar now (Some ip) (Some la) tab =
       (case m ip of Some t \<Rightarrow> \<not> now - t < RATE_LIMIT_SECONDS | None \<Rightarrow> True, Some la', tab')"
    "wf_table la' tab'" "table_map schar S la' tab' m'"
    "m' = (case m ip of Some t \<Rightarrow> if now - t < RATE_LIMIT_SECONDS then m else m(ip \<mapsto> now)
           | None \<Rightarrow> m(ip \<mapsto> now))"
proof -
  let ?h = "ip_hash_function schar"
  have mi: "m ip = (if c_str (tab ! ?h ip) = ip then Some (la ! ?h ip) else None)"
    using assms(2,3) by (simp add: table_map_def)
  have l: "?h ip < length la" "?h ip < length tab" "length (tab ! ?h ip) = 16"
    using assms(1) by (simp_all add: wf_table_def)
  have other: "?h ip \<noteq> ?h jp" if "jp \<in> S" "jp \<noteq> ip" for jp
    using assms(3,4) that by (auto simp: inj_on_def)
  show thesis
  proof (cases "c_str (tab ! ?h ip) = ip")
    case True
    show thesis
    proof (cases "now - la ! ?h ip < RATE_LIMIT_SECONDS")
      case late: False
      have "table_map schar S (la[?h ip := now]) tab (m(ip \<mapsto> now))"
        using assms(2) other l True by (auto simp: table_map_def)
      then show thesis
        using that [of "la[?h ip := now]" tab "m(ip \<mapsto> now)"] True late mi assms(1)
        by (simp add: check_rate_limit_def Let_def wf_table_def)
    qed (use that [of la tab m] True mi assms(1,2) in \<open>simp add: check_rate_limit_def Let_def\<close>)
  next
    case False
    let ?row = "(c_strncpy (tab ! ?h ip) ip 15)[15 := NUL]"
    note r = row_stores [OF l(3), of ip]
    have ok: "ip_ok ip" using assms(3,5) by blast
    have "table_map schar S (la[?h ip := now]) (tab[?h ip := ?row]) (m(ip \<mapsto> now))"
      using assms(2) other l r ok by (auto simp: table_map_def)
    moreover have "wf_table (la[?h ip := now]) (tab[?h ip := ?row])"
      using assms(1) r ok by (auto simp: wf_table_def nth_list_update)
    ultimately show thesis
      using that [of "la[?h ip := now]" "tab[?h ip := ?row]" "m(ip \<mapsto> now)"] False mi
      by (simp add: check_rate_limit_def Let_def)
  qed
qed

lemma check_all_refines:
  assumes "inj_on (ip_hash_function schar) S" "\<forall>ip \<in> S. ip_ok ip"
  shows "wf_table la tab \<Longrightarrow> table_map schar S la tab m \<Longrightarrow> snd ` set cs \<subseteq> S \<Longrightarrow>
    check_all schar cs la tab = limit_spec cs m"
proof (induction cs arbitrary: la tab m)
  case (Cons c cs)
  obtain now ip where c: "c = (now, ip)" by fastforce
  have ip: "ip \<in> S" using Cons.prems(3) c by simp
  obtain la' tab' m' where r: "check_rate_limit schar now (Some ip) (Some la) tab =
       (case m ip of Some t \<Rightarrow> \<not> now - t < RATE_LIMIT_SECONDS | None \<Rightarrow> True, Some la', tab')"
    "wf_table la' tab'" "table_map schar S la' tab' m'"
    "m' = (case m ip of Some t \<Rightarrow> if now - t < RATE_LIMIT_SECONDS then m else m(ip \<mapsto> now)
           | None \<Rightarrow> m(ip \<mapsto> now))"
    using check_rate_limit_refines [OF Cons.prems(1,2) ip assms] by blast
  have "check_all schar cs la' tab' = limit_spec cs m'" using Cons.IH [OF r(2,3)] Cons.prems(3) by simp
  then show ?case using r(1,4) c by (auto split: option.split)
qed simp

lemma empty_table_maps:
  assumes "\<forall>ip \<in> S. ip_ok ip" "length la = IP_HASH_SIZE"
  shows "wf_table la empty_table" "table_map schar S la empty_table Map.empty"
proof -
  have n: "empty_table ! i = replicate 16 NUL" if "i < IP_HASH_SIZE" for i
    using that by (simp add: empty_table_def)
  show "wf_table la empty_table" using assms(2) n by (simp add: wf_table_def) (simp add: empty_table_def)
  have e: "c_str (replicate 16 NUL) = []" by (simp add: c_str_def)
  show "table_map schar S la empty_table Map.empty"
    using assms(1) by (auto simp: table_map_def n e ip_ok_def)
qed

section \<open>Properties\<close>

text \<open>C27. The rate limiter keeps one time per address. As long as the addresses asked about have
  different hash values and fit the table (at most 15 characters), a run of \<open>check_rate_limit\<close> from
  the empty table gives the answers of the specification: a request is refused exactly when the same
  address was admitted less than three seconds before.\<close>

theorem lucpd_rate_limit_refines:
  assumes "inj_on (ip_hash_function schar) (snd ` set cs)" "\<forall>ip \<in> snd ` set cs. ip_ok ip"
    "length la = IP_HASH_SIZE"
  shows "check_all schar cs la empty_table = limit_spec cs Map.empty"
  using check_all_refines [OF assms(1,2) empty_table_maps [OF assms(2,3)]] by simp

definition calls :: "(int \<times> string) list" where
  "calls = [(100, ''10.0.0.1''), (101, ''10.0.0.2''), (102, ''10.0.0.1''), (103, ''10.0.0.1'')]"

theorem lucpd_rate_limit_refines_witness:
  "check_all True calls (replicate 1024 0) empty_table = [True, True, False, True]"
proof -
  have "snd ` set calls = {''10.0.0.1'', ''10.0.0.2''}" by (auto simp: calls_def)
  moreover have "ip_hash_function True ''10.0.0.1'' \<noteq> ip_hash_function True ''10.0.0.2''"
    by (simp add: ip_hash_function_def char_u32_def IP_HASH_SIZE_def push_bit_eq_mult)
  ultimately have "inj_on (ip_hash_function True) (snd ` set calls)" "\<forall>ip \<in> snd ` set calls. ip_ok ip"
    by (simp_all add: ip_ok_def)
  from lucpd_rate_limit_refines [OF this, of "replicate 1024 0"] show ?thesis
    by (simp add: IP_HASH_SIZE_def calls_def RATE_LIMIT_SECONDS_def)
qed

text \<open>Colliding addresses lift each other's limit. If another address with the same hash value
  asks between two requests of one address, the second request is admitted however soon it comes.\<close>

lemma lucpd_rate_limit_collision:
  assumes "ip_hash_function schar ip = ip_hash_function schar jp" "ip \<noteq> jp" "ip_ok ip" "ip_ok jp"
    "wf_table la tab"
  shows "\<exists>x y. check_all schar [(t, ip), (t', jp), (t'', ip)] la tab = [x, y, True] \<and>
     (c_str (tab ! ip_hash_function schar ip) \<noteq> ip \<longrightarrow> x)"
proof -
  let ?h = "ip_hash_function schar ip"
  have l: "?h < length la" "?h < length tab" "length (tab ! ?h) = 16" "?h < IP_HASH_SIZE"
    using assms(5) by (simp_all add: wf_table_def)
  let ?row = "(c_strncpy (tab ! ?h) ip 15)[15 := NUL]"
  let ?row' = "\<lambda>r. (c_strncpy r jp 15)[15 := NUL]"
  note r = row_stores [OF l(3) assms(3)] row_stores [OF l(3) assms(4)]
    row_stores [OF row_stores(2) [OF l(3) assms(3)] assms(4)]
  show ?thesis using assms(2) l r
    by (auto simp: check_rate_limit_def Let_def assms(1) [symmetric])
qed

lemma lucpd_rate_limit_collision_witness:
  "\<exists>x y. check_all True [(100, ''10.0.0.120''), (100, ''10.0.0.201''), (100, ''10.0.0.120'')] (replicate 1024 0) empty_table = [x, y, True]"
proof -
  have "wf_table (replicate 1024 0) empty_table"
    using empty_table_maps(1) [of "{}" "replicate 1024 0"] by (simp add: IP_HASH_SIZE_def)
  moreover have "ip_hash_function True ''10.0.0.120'' = ip_hash_function True ''10.0.0.201''"
    by (simp add: ip_hash_function_def char_u32_def IP_HASH_SIZE_def push_bit_eq_mult)
  moreover have "ip_ok ''10.0.0.120''" "ip_ok ''10.0.0.201''" by (simp_all add: ip_ok_def)
  ultimately show ?thesis
    using lucpd_rate_limit_collision [of True "''10.0.0.120''" "''10.0.0.201''" "replicate 1024 0"
        empty_table 100 100 100] by blast
qed

end
