(* ===== verification/Lucfg_Double.thy ===== *)
theory Lucfg_Double
  imports Prelude Complex_Main
begin

text \<open>
  The C type \<open>double\<close> as \<open>third_party/lucfg/src/lucfg.c\<close> uses it: the numbers of IEEE 754 binary64
  with rounding to nearest, ties to even, their arithmetic and comparison, the conversion to an
  integer type, and the scanner of the library function \<open>strtod\<close> in the C locale.

  A finite number other than zero is the rational number it stands for; \<open>dbl_round\<close> rounds a
  rational to the format (53 bits, least exponent -1074, overflow to infinity). Only results of
  \<open>dbl_round\<close> are ever put into \<open>Num\<close>.
\<close>

datatype dbl = NaN | Inf bool | Zero bool | Num rat

section \<open>Rounding\<close>

fun bit_len :: "nat \<Rightarrow> nat" where
  "bit_len n = (if n = 0 then 0 else Suc (bit_len (n div 2)))"

declare bit_len.simps [simp del]

definition pow2 :: "int \<Rightarrow> rat" where
  "pow2 k = (if 0 \<le> k then 2 ^ nat k else 1 / 2 ^ nat (- k))"

text \<open>The exponent \<open>k\<close> with \<open>pow2 k \<le> a < pow2 (k + 1)\<close>, for positive \<open>a\<close>.\<close>

definition rat_log2 :: "rat \<Rightarrow> int" where
  "rat_log2 a =
     (let (n, d) = quotient_of a;
          k = int (bit_len (nat n)) - int (bit_len (nat d))
      in if pow2 k \<le> a then k else k - 1)"

definition round_even :: "rat \<Rightarrow> int" where
  "round_even a =
     (let f = \<lfloor>a\<rfloor>; r = a - of_int f
      in if r < 1 / 2 \<or> r = 1 / 2 \<and> even f then f else f + 1)"

definition dbl_round :: "bool \<Rightarrow> rat \<Rightarrow> dbl" where
  "dbl_round neg a =
     (let e = max (rat_log2 a - 52) (- 1074);
          v = of_int (round_even (a / pow2 e)) * pow2 e
      in if pow2 1024 \<le> v then Inf neg
         else if v = 0 then Zero neg
         else Num (if neg then - v else v))"

definition dbl_of :: "rat \<Rightarrow> dbl" where
  "dbl_of r = (if r = 0 then Zero False else dbl_round (r < 0) \<bar>r\<bar>)"

section \<open>Arithmetic and comparison\<close>

fun dbl_neg_sign :: "dbl \<Rightarrow> bool" where
  "dbl_neg_sign (Inf s) = s"
| "dbl_neg_sign (Zero s) = s"
| "dbl_neg_sign (Num r) \<longleftrightarrow> r < 0"
| "dbl_neg_sign NaN = False"

definition dbl_add :: "dbl \<Rightarrow> dbl \<Rightarrow> dbl" where
  "dbl_add x y =
     (case (x, y) of
        (NaN, _) \<Rightarrow> NaN | (_, NaN) \<Rightarrow> NaN
      | (Inf s, Inf t) \<Rightarrow> if s = t then Inf s else NaN
      | (Inf s, _) \<Rightarrow> Inf s | (_, Inf t) \<Rightarrow> Inf t
      | (Zero s, Zero t) \<Rightarrow> Zero (s \<and> t)
      | (Zero _, Num b) \<Rightarrow> Num b | (Num a, Zero _) \<Rightarrow> Num a
      | (Num a, Num b) \<Rightarrow> dbl_of (a + b))"

fun dbl_neg :: "dbl \<Rightarrow> dbl" where
  "dbl_neg NaN = NaN"
| "dbl_neg (Inf s) = Inf (\<not> s)"
| "dbl_neg (Zero s) = Zero (\<not> s)"
| "dbl_neg (Num r) = Num (- r)"

definition dbl_sub :: "dbl \<Rightarrow> dbl \<Rightarrow> dbl" where
  "dbl_sub x y = dbl_add x (dbl_neg y)"

definition dbl_mul :: "dbl \<Rightarrow> dbl \<Rightarrow> dbl" where
  "dbl_mul x y =
     (let s = (dbl_neg_sign x \<noteq> dbl_neg_sign y) in
      case (x, y) of
        (NaN, _) \<Rightarrow> NaN | (_, NaN) \<Rightarrow> NaN
      | (Inf _, Zero _) \<Rightarrow> NaN | (Zero _, Inf _) \<Rightarrow> NaN
      | (Inf _, _) \<Rightarrow> Inf s | (_, Inf _) \<Rightarrow> Inf s
      | (Zero _, _) \<Rightarrow> Zero s | (_, Zero _) \<Rightarrow> Zero s
      | (Num a, Num b) \<Rightarrow> dbl_round s \<bar>a * b\<bar>)"

definition dbl_div :: "dbl \<Rightarrow> dbl \<Rightarrow> dbl" where
  "dbl_div x y =
     (let s = (dbl_neg_sign x \<noteq> dbl_neg_sign y) in
      case (x, y) of
        (NaN, _) \<Rightarrow> NaN | (_, NaN) \<Rightarrow> NaN
      | (Inf _, Inf _) \<Rightarrow> NaN | (Zero _, Zero _) \<Rightarrow> NaN
      | (Inf _, _) \<Rightarrow> Inf s | (_, Inf _) \<Rightarrow> Zero s
      | (Zero _, _) \<Rightarrow> Zero s | (_, Zero _) \<Rightarrow> Inf s
      | (Num a, Num b) \<Rightarrow> dbl_round s \<bar>a / b\<bar>)"

text \<open>The rational behind a number; every comparison with a NaN is false.\<close>

fun dbl_less :: "dbl \<Rightarrow> dbl \<Rightarrow> bool" where
  "dbl_less NaN _ = False"
| "dbl_less _ NaN = False"
| "dbl_less (Inf s) y \<longleftrightarrow> s \<and> y \<noteq> Inf True"
| "dbl_less x (Inf t) \<longleftrightarrow> \<not> t"
| "dbl_less (Zero _) (Zero _) = False"
| "dbl_less (Zero _) (Num b) \<longleftrightarrow> 0 < b"
| "dbl_less (Num a) (Zero _) \<longleftrightarrow> a < 0"
| "dbl_less (Num a) (Num b) \<longleftrightarrow> a < b"

fun dbl_is_zero :: "dbl \<Rightarrow> bool" where
  "dbl_is_zero (Zero _) = True"
| "dbl_is_zero _ = False"

text \<open>Conversion to an integer type with the values \<open>lo\<close> to \<open>hi\<close>: the fraction is cut off; the
  result is undefined (\<open>None\<close>) when the cut value does not fit.\<close>

definition dbl_to_int :: "int \<Rightarrow> int \<Rightarrow> dbl \<Rightarrow> int option" where
  "dbl_to_int lo hi x =
     (case x of
        Zero _ \<Rightarrow> Some 0
      | Num r \<Rightarrow> let n = (if r < 0 then - \<lfloor>- r\<rfloor> else \<lfloor>r\<rfloor>)
                 in if lo \<le> n \<and> n \<le> hi then Some n else None
      | _ \<Rightarrow> None)"

text \<open>An integer converted to \<open>double\<close>.\<close>

definition dbl_of_int :: "int \<Rightarrow> dbl" where
  "dbl_of_int n = dbl_of (of_int n)"

section \<open>The scanner of \<open>strtod\<close>\<close>

definition c_isdigit :: "char \<Rightarrow> bool" where
  "c_isdigit c \<longleftrightarrow> 48 \<le> (of_char c :: nat) \<and> (of_char c :: nat) \<le> 57"

definition c_isxdigit :: "char \<Rightarrow> bool" where
  "c_isxdigit c \<longleftrightarrow> c_isdigit c \<or>
     97 \<le> (of_char (c_tolower c) :: nat) \<and> (of_char (c_tolower c) :: nat) \<le> 102"

definition digit_val :: "char \<Rightarrow> nat" where
  "digit_val c = (if c_isdigit c then of_char c - 48 else of_char (c_tolower c) - 87)"

definition digits_val :: "nat \<Rightarrow> string \<Rightarrow> nat" where
  "digits_val base ds = foldl (\<lambda>v c. base * v + digit_val c) 0 ds"

definition starts_nocase :: "string \<Rightarrow> string \<Rightarrow> bool" where
  "starts_nocase p s \<longleftrightarrow> length p \<le> length s \<and> c_strcaseeq p (take (length p) s)"

definition scan_sign :: "string \<Rightarrow> bool \<times> string" where
  "scan_sign s =
     (case s of
        c # t \<Rightarrow> if c = CHR ''-'' then (True, t) else if c = CHR ''+'' then (False, t) else (False, s)
      | [] \<Rightarrow> (False, s))"

text \<open>Digits with an optional point: their value, how many stand behind the point, and the rest.\<close>

definition scan_mantissa :: "(char \<Rightarrow> bool) \<Rightarrow> nat \<Rightarrow> string \<Rightarrow> (nat \<times> nat \<times> string) option" where
  "scan_mantissa P base s =
     (let ds = takeWhile P s; r = dropWhile P s;
          (fs, r') = (case r of
                        c # t \<Rightarrow> if c = CHR ''.'' then (takeWhile P t, dropWhile P t) else ([], r)
                      | [] \<Rightarrow> ([], r))
      in if ds = [] \<and> fs = [] then None
         else Some (digits_val base (ds @ fs), length fs, r'))"

definition scan_exponent :: "char \<Rightarrow> string \<Rightarrow> int \<times> string" where
  "scan_exponent e s =
     (case s of
        c # t \<Rightarrow>
          if c_tolower c = e then
            let (neg, u) = scan_sign t; ds = takeWhile c_isdigit u in
            if ds = [] then (0, s)
            else (if neg then - int (digits_val 10 ds) else int (digits_val 10 ds), dropWhile c_isdigit u)
          else (0, s)
      | [] \<Rightarrow> (0, s))"

definition pow10 :: "int \<Rightarrow> rat" where
  "pow10 k = (if 0 \<le> k then 10 ^ nat k else 1 / 10 ^ nat (- k))"

definition signed_dbl :: "bool \<Rightarrow> rat \<Rightarrow> dbl" where
  "signed_dbl neg a = (if a = 0 then Zero neg else dbl_round neg a)"

definition scan_nan :: "string \<Rightarrow> string" where
  "scan_nan s =
     (case s of
        c # t \<Rightarrow>
          if c = CHR ''('' then
            let u = dropWhile (\<lambda>c. c_isdigit c \<or> c = CHR ''_'' \<or>
                       97 \<le> (of_char (c_tolower c) :: nat) \<and> (of_char (c_tolower c) :: nat) \<le> 122) t
            in case u of d # v \<Rightarrow> if d = CHR '')'' then v else s | [] \<Rightarrow> s
          else s
      | [] \<Rightarrow> s)"

text \<open>\<open>None\<close> means that there is no number: \<open>*endptr\<close> is the start of the string.\<close>

definition strtod :: "string \<Rightarrow> (dbl \<times> string) option" where
  "strtod s0 =
     (let (neg, s) = scan_sign (dropWhile c_isspace s0);
          dec = map_option (\<lambda>(m, k, r).
                  let (x, r') = scan_exponent CHR ''e'' r
                  in (signed_dbl neg (of_nat m * pow10 (x - int k)), r')) (scan_mantissa c_isdigit 10 s)
      in if starts_nocase ''infinity'' s then Some (Inf neg, drop 8 s)
         else if starts_nocase ''inf'' s then Some (Inf neg, drop 3 s)
         else if starts_nocase ''nan'' s then Some (NaN, scan_nan (drop 3 s))
         else if starts_nocase ''0x'' s then
           (case scan_mantissa c_isxdigit 16 (drop 2 s) of
              Some (m, k, r) \<Rightarrow>
                let (x, r') = scan_exponent CHR ''p'' r
                in Some (signed_dbl neg (of_nat m * pow2 (x - 4 * int k)), r')
            | None \<Rightarrow> dec)
         else dec)"

text \<open>\<open>strtol\<close> with base 10: the value is clamped to the range of \<open>long\<close>.\<close>

definition LONG_MIN :: int where "LONG_MIN = - (2 ^ 63)"
definition LONG_MAX :: int where "LONG_MAX = 2 ^ 63 - 1"

definition strtol :: "string \<Rightarrow> int \<times> string" where
  "strtol s0 =
     (let (neg, s) = scan_sign (dropWhile c_isspace s0); ds = takeWhile c_isdigit s
      in if ds = [] then (0, s0)
         else (max LONG_MIN (min LONG_MAX
                 (if neg then - int (digits_val 10 ds) else int (digits_val 10 ds))),
               dropWhile c_isdigit s))"

section \<open>Rounding is exact on the numbers of the format\<close>

lemma pow2_powi: "pow2 k = 2 powi k"
  by (simp add: pow2_def power_int_def power_inverse field_simps)

lemma pow2_pos [simp]: "0 < pow2 k" "pow2 k \<noteq> 0" "pow2 0 = 1"
  by (simp_all add: pow2_def)

lemma pow2_nonneg [simp]: "0 \<le> pow2 k"
  by (simp add: pow2_def)

lemma abs_pow2 [simp]: "\<bar>pow2 k\<bar> = pow2 k"
  by (simp add: order_less_imp_le)

lemma pow2_add: "pow2 (j + k) = pow2 j * pow2 k"
  by (simp add: pow2_powi power_int_add)

lemma pow2_less_iff [simp]: "pow2 j < pow2 k \<longleftrightarrow> j < k" "pow2 j \<le> pow2 k \<longleftrightarrow> j \<le> k"
proof -
  have "pow2 j < pow2 k" if "j < k" for j k
    using that by (simp add: pow2_powi power_int_strict_increasing)
  then show "pow2 j < pow2 k \<longleftrightarrow> j < k" "pow2 j \<le> pow2 k \<longleftrightarrow> j \<le> k"
    by (metis linorder_less_linear order_less_irrefl order_less_trans not_less)+
qed

lemma pow2_nat: "pow2 (int n) = 2 ^ n"
  by (simp add: pow2_def)

lemma bit_len_bounds: "0 < n \<Longrightarrow> 2 ^ (bit_len n - 1) \<le> n \<and> n < 2 ^ bit_len n \<and> 0 < bit_len n"
proof (induction n rule: bit_len.induct)
  case (1 n)
  show ?case
  proof (cases "n = 1")
    case True
    have "bit_len 0 = 0" by (subst bit_len.simps) simp
    then have "bit_len 1 = 1" by (subst bit_len.simps) simp
    then show ?thesis using True by simp
  next
    case False
    then have n: "0 < n div 2" using 1(2) by (cases n) auto
    let ?b = "bit_len (n div 2)"
    have h: "2 ^ (?b - 1) \<le> n div 2" "n div 2 < 2 ^ ?b" "0 < ?b" using 1(1) n 1(2) by auto
    have "2 * 2 ^ (?b - 1) = (2 :: nat) ^ ?b" using h(3) by (metis Suc_diff_1 power_Suc)
    moreover have "2 * (n div 2) \<le> n" "n < 2 * (n div 2) + 2" by linarith+
    ultimately have "2 ^ ?b \<le> n" "n < 2 * 2 ^ ?b" using h(1,2) by linarith+
    then show ?thesis using 1(2) by (simp add: bit_len.simps [of n])
  qed
qed

lemma nat_power_rat:
  "0 < n \<Longrightarrow> 2 ^ k \<le> nat n \<Longrightarrow> pow2 (int k) \<le> of_int n"
  "0 < n \<Longrightarrow> nat n < 2 ^ k \<Longrightarrow> of_int n < pow2 (int k)"
proof -
  assume n: "0 < n"
  then have e: "(of_int n :: rat) = of_nat (nat n)" by simp
  show "pow2 (int k) \<le> of_int n" if "2 ^ k \<le> nat n"
  proof -
    have "(of_nat (2 ^ k) :: rat) \<le> of_nat (nat n)" using that by (simp only: of_nat_le_iff)
    then show ?thesis by (simp only: pow2_nat e of_nat_power of_nat_numeral)
  qed
  show "of_int n < pow2 (int k)" if "nat n < 2 ^ k"
  proof -
    have "(of_nat (nat n) :: rat) < of_nat (2 ^ k)" using that by (simp only: of_nat_less_iff)
    then show ?thesis by (simp only: pow2_nat e of_nat_power of_nat_numeral)
  qed
qed

lemma rat_log2_bounds:
  assumes "0 < a"
  shows "pow2 (rat_log2 a) \<le> a \<and> a < pow2 (rat_log2 a + 1)"
proof -
  obtain n d where q: "quotient_of a = (n, d)" by fastforce
  have d: "0 < d" using quotient_of_denom_pos [OF q] .
  have a: "a = of_int n / of_int d" using quotient_of_div [OF q] .
  have n: "0 < n" using assms a d by (simp add: zero_less_divide_iff)
  let ?bn = "bit_len (nat n)" and ?bd = "bit_len (nat d)"
  have hn: "2 ^ (?bn - 1) \<le> nat n" "nat n < 2 ^ ?bn" "0 < ?bn" using bit_len_bounds [of "nat n"] n by auto
  have hd: "2 ^ (?bd - 1) \<le> nat d" "nat d < 2 ^ ?bd" "0 < ?bd" using bit_len_bounds [of "nat d"] d by auto
  have N: "pow2 (int ?bn - 1) \<le> of_int n" "of_int n < pow2 (int ?bn)"
    using nat_power_rat [OF n, of "?bn - 1"] nat_power_rat [OF n, of ?bn] hn by (simp_all add: of_nat_diff)
  have D: "pow2 (int ?bd - 1) \<le> of_int d" "of_int d < pow2 (int ?bd)"
    using nat_power_rat [OF d, of "?bd - 1"] nat_power_rat [OF d, of ?bd] hd by (simp_all add: of_nat_diff)
  let ?k = "int ?bn - int ?bd"
  have d0: "(0 :: rat) < of_int d" using d by simp
  have "pow2 (?k - 1) * of_int d \<le> pow2 (?k - 1) * pow2 (int ?bd)" using D(2) by (intro mult_left_mono) simp_all
  also have "\<dots> = pow2 (int ?bn - 1)" by (simp flip: pow2_add)
  finally have lo: "pow2 (?k - 1) \<le> a" using N(1) d0 unfolding a by (simp add: pos_le_divide_eq)
  have "pow2 (int ?bn) = pow2 (?k + 1) * pow2 (int ?bd - 1)" by (simp flip: pow2_add)
  also have "\<dots> \<le> pow2 (?k + 1) * of_int d" using D(1) by (intro mult_left_mono) simp_all
  finally have hi: "a < pow2 (?k + 1)" using N(2) d0 unfolding a by (simp add: pos_divide_less_eq)
  show ?thesis using lo hi by (auto simp: rat_log2_def q Let_def)
qed

lemma round_even_of_int [simp]: "round_even (of_int n) = n"
  by (simp add: round_even_def)

lemma round_even_le:
  assumes "a \<le> of_int n"
  shows "round_even a \<le> n"
proof (cases "\<lfloor>a\<rfloor> = n")
  case True
  then have "a = of_int n" using assms by (metis dual_order.antisym of_int_floor_le)
  then show ?thesis by simp
next
  case False
  then have "\<lfloor>a\<rfloor> + 1 \<le> n" using assms by (metis floor_mono floor_of_int order_le_less zless_imp_add1_zle)
  moreover have "round_even a \<le> \<lfloor>a\<rfloor> + 1" by (simp add: round_even_def Let_def)
  ultimately show ?thesis by simp
qed

lemma round_even_nonneg: "0 \<le> a \<Longrightarrow> 0 \<le> round_even a"
  by (simp add: round_even_def Let_def)

text \<open>The numbers of the format.\<close>

definition fits :: "rat \<Rightarrow> bool" where
  "fits a \<longleftrightarrow> (\<exists>m e. a = of_int m * pow2 e \<and> 0 < m \<and> m \<le> 2 ^ 53 \<and> - 1074 \<le> e) \<and> a < pow2 1024"

fun is_dbl :: "dbl \<Rightarrow> bool" where
  "is_dbl (Num r) \<longleftrightarrow> r \<noteq> 0 \<and> fits \<bar>r\<bar>"
| "is_dbl _ = True"

lemma dbl_round_fits:
  assumes "fits a"
  shows "dbl_round neg a = Num (if neg then - a else a)"
proof -
  obtain m e where a: "a = of_int m * pow2 e" "0 < m" "m \<le> 2 ^ 53" "- 1074 \<le> e" "a < pow2 1024"
    using assms by (auto simp: fits_def)
  have pos: "0 < a" using a(1,2) by simp
  let ?L = "rat_log2 a" and ?e = "max (rat_log2 a - 52) (- 1074)"
  have L: "pow2 ?L \<le> a" "a < pow2 (?L + 1)" using rat_log2_bounds [OF pos] by auto
  obtain n :: int where n: "a / pow2 ?e = of_int n"
  proof (cases "?e \<le> e")
    case True
    then have "pow2 e = pow2 ?e * 2 ^ nat (e - ?e)"
      by (metis add.commute diff_add_cancel int_nat_eq diff_ge_0_iff_ge pow2_add pow2_nat)
    then have "a / pow2 ?e = of_int (m * 2 ^ nat (e - ?e))" using a(1) by (simp add: field_simps)
    then show thesis by (rule that)
  next
    case False
    then have e: "?e = ?L - 52" "e < ?L - 52" using a(4) by (auto simp: max_def split: if_splits)
    have "of_int m * pow2 e \<le> 2 ^ 53 * pow2 e" using a(3)
      by (intro mult_right_mono) (simp_all add: order_less_imp_le)
    also have "2 ^ 53 * pow2 e = pow2 (53 + e)" using pow2_nat [of 53] by (simp add: pow2_add)
    finally have le: "a \<le> pow2 (53 + e)" using a(1) by simp
    then have "?L \<le> 53 + e" using L(1) by (metis order_trans pow2_less_iff(2))
    then have "?L = 53 + e" using e(2) by simp
    then have "a = pow2 (53 + e)" "?e = e + 1" using le L(1) e(1) by simp_all
    then have "a / pow2 ?e = pow2 52 * pow2 (e + 1) / pow2 (e + 1)" by (simp flip: pow2_add)
    then have "a / pow2 ?e = of_int (2 ^ 52)" using pow2_nat [of 52] by simp
    then show thesis by (rule that)
  qed
  have "of_int (round_even (a / pow2 ?e)) * pow2 ?e = a"
    unfolding n round_even_of_int using n [symmetric] by simp
  then show ?thesis using pos a(5) by (simp add: dbl_round_def Let_def)
qed

lemma is_dbl_round: "0 < a \<Longrightarrow> is_dbl (dbl_round neg a)"
proof -
  assume pos: "0 < a"
  let ?L = "rat_log2 a" and ?e = "max (rat_log2 a - 52) (- 1074)"
  have L: "a < pow2 (?L + 1)" using rat_log2_bounds [OF pos] by auto
  have "a < pow2 (53 + ?e)" using L by (rule order_less_le_trans) simp
  then have "a / pow2 ?e \<le> of_int (2 ^ 53)" using pow2_nat [of 53]
    by (simp add: pow2_add pos_divide_le_eq order_less_imp_le)
  then have m: "round_even (a / pow2 ?e) \<le> 2 ^ 53" by (rule round_even_le)
  have "0 \<le> round_even (a / pow2 ?e)" 
    using pos by (intro round_even_nonneg) (simp add: zero_le_divide_iff order_less_imp_le)
  then consider "round_even (a / pow2 ?e) = 0" | "0 < round_even (a / pow2 ?e)" by linarith
  then show ?thesis
  proof cases
    case 2
    then have "of_int (round_even (a / pow2 ?e)) * pow2 ?e < pow2 1024 \<Longrightarrow>
        fits (of_int (round_even (a / pow2 ?e)) * pow2 ?e)"
      using m unfolding fits_def by (intro conjI exI [of _ "round_even (a / pow2 ?e)"] exI [of _ ?e]) auto
    then show ?thesis using 2 by (auto simp: dbl_round_def Let_def not_le abs_mult)
  qed (simp add: dbl_round_def Let_def)
qed

lemma is_dbl_signed [simp]: "0 \<le> a \<Longrightarrow> is_dbl (signed_dbl neg a)"
  using is_dbl_round [of a neg] by (simp add: signed_dbl_def order_less_le)

lemma is_dbl_of [simp]: "is_dbl (dbl_of r)"
  using is_dbl_round [of "\<bar>r\<bar>" "r < 0"] by (simp add: dbl_of_def)

lemma is_dbl_neg [simp]: "is_dbl (dbl_neg x) = is_dbl x"
  by (cases x) simp_all

lemma is_dbl_add [simp]: "is_dbl x \<Longrightarrow> is_dbl y \<Longrightarrow> is_dbl (dbl_add x y)"
  by (cases x; cases y) (simp_all add: dbl_add_def)

lemma is_dbl_sub [simp]: "is_dbl x \<Longrightarrow> is_dbl y \<Longrightarrow> is_dbl (dbl_sub x y)"
  by (simp add: dbl_sub_def)

lemma is_dbl_mul [simp]: "is_dbl x \<Longrightarrow> is_dbl y \<Longrightarrow> is_dbl (dbl_mul x y)"
  by (cases x; cases y) (simp_all add: dbl_mul_def Let_def is_dbl_round)

lemma is_dbl_div [simp]: "is_dbl x \<Longrightarrow> is_dbl y \<Longrightarrow> is_dbl (dbl_div x y)"
  by (cases x; cases y) (simp_all add: dbl_div_def Let_def is_dbl_round)

lemma dbl_mul_one: "is_dbl x \<Longrightarrow> dbl_mul (Num 1) x = x"
  by (cases x) (auto simp: dbl_mul_def Let_def dbl_round_fits)

lemma dbl_mul_minus_one: "is_dbl x \<Longrightarrow> dbl_mul (Num (-1)) x = dbl_neg x"
  by (cases x) (auto simp: dbl_mul_def Let_def dbl_round_fits)

lemma fits_int:
  assumes "0 < n" "n \<le> 2 ^ 53"
  shows "fits (of_int n)"
proof -
  have "of_int n \<le> pow2 53" using assms(2) by (simp add: pow2_def)
  also have "pow2 53 < pow2 1024" by simp
  finally show ?thesis unfolding fits_def
    using assms by (intro conjI exI [of _ n] exI [of _ "0 :: int"]) simp_all
qed

lemma dbl_of_int_exact:
  assumes "\<bar>n\<bar> \<le> 2 ^ 53"
  shows "dbl_of_int n = (if n = 0 then Zero False else Num (of_int n))"
proof (cases "n = 0")
  case False
  then have "fits (of_int \<bar>n\<bar>)" using assms by (intro fits_int) simp_all
  then show ?thesis using False by (auto simp: dbl_of_int_def dbl_of_def dbl_round_fits)
qed (simp add: dbl_of_int_def dbl_of_def)

lemma dbl_to_int_of_int:
  "\<bar>n\<bar> \<le> 2 ^ 53 \<Longrightarrow> lo \<le> n \<Longrightarrow> n \<le> hi \<Longrightarrow> dbl_to_int lo hi (dbl_of_int n) = Some n"
  by (simp add: dbl_of_int_exact dbl_to_int_def)

text \<open>Integer arithmetic inside this range is exact.\<close>

lemma dbl_add_int:
  assumes "\<bar>a\<bar> \<le> 2 ^ 53" "\<bar>b\<bar> \<le> 2 ^ 53"
  shows "dbl_add (dbl_of_int a) (dbl_of_int b) = dbl_of_int (a + b)"
proof -
  consider "a = 0" | "b = 0" "a \<noteq> 0" | "a \<noteq> 0" "b \<noteq> 0" by blast
  then show ?thesis
  proof cases
    case 3
    then have "dbl_add (dbl_of_int a) (dbl_of_int b) = dbl_of (of_int a + of_int b)"
      using dbl_of_int_exact [OF assms(1)] dbl_of_int_exact [OF assms(2)] by (simp add: dbl_add_def)
    then show ?thesis by (simp add: dbl_of_int_def)
  qed (use dbl_of_int_exact [OF assms(1)] dbl_of_int_exact [OF assms(2)] in \<open>auto simp: dbl_add_def\<close>)
qed

lemma dbl_mul_int:
  assumes "\<bar>a\<bar> \<le> 2 ^ 53" "\<bar>b\<bar> \<le> 2 ^ 53" "a \<noteq> 0" "b \<noteq> 0"
  shows "dbl_mul (dbl_of_int a) (dbl_of_int b) = dbl_of_int (a * b)"
proof -
  have "dbl_mul (dbl_of_int a) (dbl_of_int b) = dbl_round (of_int a * of_int b < (0 :: rat)) \<bar>of_int a * of_int b\<bar>"
    using dbl_of_int_exact [OF assms(1)] dbl_of_int_exact [OF assms(2)] assms(3,4)
    by (cases "a < 0"; cases "b < 0") (simp_all add: dbl_mul_def Let_def mult_less_0_iff)
  then show ?thesis using assms(3,4) by (simp add: dbl_of_int_def dbl_of_def)
qed


end
