(* ===== verification/Lucfg_Expr.thy ===== *)
theory Lucfg_Expr
  imports Lucfg_Double
begin

text \<open>
  The expression parser of \<open>third_party/lucfg/src/lucfg.c\<close>: \<open>expr_skip_ws\<close>, \<open>expr_atom\<close>,
  \<open>expr_term\<close>, \<open>expr_parse\<close> and \<open>try_eval_expr\<close>.

  The parser state \<open>expr_t\<close> is the text that is left: \<open>e->s\<close> is its start and \<open>e->end\<close> its end. The
  call of \<open>expr_parse\<close> from \<open>expr_atom\<close>, behind an open parenthesis, is the argument \<open>parse\<close>, and the
  loops and this recursion have fuel: \<open>expr_parse_total\<close> shows that one unit more than the text has
  characters is enough, and \<open>try_eval_expr\<close> starts with it (the depth of the C stack is not
  modelled). \<open>aexpr\<close> is an abstract syntax of arithmetic expressions, \<open>print_sum\<close>
  writes it down with the parentheses that precedence needs.
\<close>

definition expr_skip_ws :: "string \<Rightarrow> string" where
  "expr_skip_ws s = dropWhile c_isspace s"

type_synonym parsed = "(dbl \<times> string) option"

definition expr_atom :: "(string \<Rightarrow> parsed) \<Rightarrow> string \<Rightarrow> parsed" where
  "expr_atom parse s =
     (let s = expr_skip_ws s;
          (sign, s) = (case s of
                         c # t \<Rightarrow> if c = CHR ''-'' then (Num (-1), t) else (Num 1, s)
                       | [] \<Rightarrow> (Num 1, s))
      in if s \<noteq> [] \<and> hd s = CHR ''('' then
           (case parse (tl s) of
              None \<Rightarrow> None
            | Some (v, r) \<Rightarrow>
                let r = expr_skip_ws r;
                    r = (if r \<noteq> [] \<and> hd r = CHR '')'' then tl r else r)
                in Some (dbl_mul sign v, r))
         else
           (case strtod s of
              None \<Rightarrow> Some (NaN, [])
            | Some (v, r) \<Rightarrow> Some (dbl_mul sign v, r)))"

primrec term_loop :: "nat \<Rightarrow> (string \<Rightarrow> parsed) \<Rightarrow> dbl \<Rightarrow> string \<Rightarrow> parsed" where
  "term_loop 0 parse left s = None"
| "term_loop (Suc n) parse left s =
     (case expr_skip_ws s of
        [] \<Rightarrow> Some (left, [])
      | op # t \<Rightarrow>
          if op \<noteq> CHR ''*'' \<and> op \<noteq> CHR ''/'' then Some (left, op # t)
          else
            (case expr_atom parse t of
               None \<Rightarrow> None
             | Some (right, r) \<Rightarrow>
                 term_loop n parse (if op = CHR ''*'' then dbl_mul left right
                                    else dbl_div left right) r))"

definition expr_term :: "nat \<Rightarrow> (string \<Rightarrow> parsed) \<Rightarrow> string \<Rightarrow> parsed" where
  "expr_term n parse s =
     (case expr_atom parse s of
        None \<Rightarrow> None
      | Some (left, r) \<Rightarrow> term_loop n parse left r)"

primrec parse_loop :: "nat \<Rightarrow> nat \<Rightarrow> (string \<Rightarrow> parsed) \<Rightarrow> dbl \<Rightarrow> string \<Rightarrow> parsed" where
  "parse_loop 0 m parse left s = None"
| "parse_loop (Suc n) m parse left s =
     (case expr_skip_ws s of
        [] \<Rightarrow> Some (left, [])
      | op # t \<Rightarrow>
          if op \<noteq> CHR ''+'' \<and> op \<noteq> CHR ''-'' then Some (left, op # t)
          else
            (case expr_term m parse t of
               None \<Rightarrow> None
             | Some (right, r) \<Rightarrow>
                 parse_loop n m parse (if op = CHR ''+'' then dbl_add left right
                                       else dbl_sub left right) r))"

primrec expr_parse :: "nat \<Rightarrow> string \<Rightarrow> parsed" where
  "expr_parse 0 s = None"
| "expr_parse (Suc n) s =
     (case expr_term (Suc n) (expr_parse n) s of
        None \<Rightarrow> None
      | Some (left, r) \<Rightarrow> parse_loop (Suc n) (Suc n) (expr_parse n) left r)"

definition expr_fuel :: "string \<Rightarrow> nat" where
  "expr_fuel s = Suc (length s)"

text \<open>\<open>None\<close> is the result 0: the string is no expression.\<close>

definition try_eval_expr :: "string \<Rightarrow> dbl option" where
  "try_eval_expr str =
     (case expr_parse (expr_fuel str) str of
        Some (v, r) \<Rightarrow> if expr_skip_ws r \<noteq> [] \<or> v = NaN then None else Some v
      | None \<Rightarrow> None)"

lemma expr_atom_eq:
  assumes "(case expr_skip_ws s of
           c # t \<Rightarrow> if c = CHR ''-'' then (Num (-1), t) else (Num 1, expr_skip_ws s)
         | [] \<Rightarrow> (Num 1, expr_skip_ws s)) = (sign, u)"
  shows "expr_atom p s =
     (if u \<noteq> [] \<and> hd u = CHR ''('' then
        (case p (tl u) of None \<Rightarrow> None
         | Some (v, r) \<Rightarrow> Some (dbl_mul sign v, if expr_skip_ws r \<noteq> [] \<and> hd (expr_skip_ws r) = CHR '')''
             then tl (expr_skip_ws r) else expr_skip_ws r))
      else (case strtod u of None \<Rightarrow> Some (NaN, []) | Some (v, r) \<Rightarrow> Some (dbl_mul sign v, r)))"
  by (simp only: expr_atom_def Let_def assms prod.case)

section \<open>The parser always returns\<close>

lemma scan_sign_length: "scan_sign s = (b, t) \<Longrightarrow> length t \<le> length s"
  by (auto simp: scan_sign_def split: list.splits if_splits)

lemma scan_mantissa_length: "scan_mantissa P b s = Some (m, k, r) \<Longrightarrow> length r \<le> length s"
proof -
  assume h: "scan_mantissa P b s = Some (m, k, r)"
  have d: "length (dropWhile P t) \<le> length t" for t by (rule length_dropWhile_le)
  show ?thesis
  proof (cases "dropWhile P s")
    case (Cons c t)
    have "length (dropWhile P t) \<le> length t" "Suc (length t) \<le> length s"
      using d [of t] d [of s] Cons by simp_all
    then show ?thesis using h by (auto simp: scan_mantissa_def Let_def Cons split: if_splits)
  qed (use h in \<open>auto simp: scan_mantissa_def Let_def simp del: dropWhile_eq_Nil_conv split: if_splits\<close>)
qed

lemma scan_exponent_length: "scan_exponent e s = (x, r) \<Longrightarrow> length r \<le> length s"
proof -
  assume h: "scan_exponent e s = (x, r)"
  show ?thesis
  proof (cases s)
    case (Cons c t)
    obtain b u where u: "scan_sign t = (b, u)" by fastforce
    have "length (dropWhile c_isdigit u) \<le> length u" by (rule length_dropWhile_le)
    then show ?thesis using h Cons u scan_sign_length [OF u]
      by (auto simp: scan_exponent_def Let_def split: if_splits)
  qed (use h in \<open>simp add: scan_exponent_def\<close>)
qed

lemma scan_nan_length: "length (scan_nan s) \<le> length s"
proof (cases s)
  case (Cons c t)
  let ?u = "dropWhile (\<lambda>c. c_isdigit c \<or> c = CHR ''_'' \<or>
       97 \<le> (of_char (c_tolower c) :: nat) \<and> (of_char (c_tolower c) :: nat) \<le> 122) t"
  have "length ?u \<le> length t" by (rule length_dropWhile_le)
  then show ?thesis unfolding scan_nan_def Cons list.case Let_def
    by (cases ?u) (simp_all del: dropWhile_eq_Nil_conv)
qed (simp add: scan_nan_def)

lemma strtod_length:
  assumes "strtod s = Some (v, r)"
  shows "length r \<le> length s"
proof -
  obtain b t where t: "scan_sign (dropWhile c_isspace s) = (b, t)" by fastforce
  have l: "length t \<le> length s"
    using scan_sign_length [OF t] length_dropWhile_le [of c_isspace s] by linarith
  have dec: "length r \<le> length s"
    if h: "map_option (\<lambda>(m, k, r). let (x, r') = scan_exponent CHR ''e'' r in (f m k x, r'))
          (scan_mantissa c_isdigit 10 t) = Some (v, r)" for f :: "nat \<Rightarrow> nat \<Rightarrow> int \<Rightarrow> dbl"
  proof -
    obtain m k q where q: "scan_mantissa c_isdigit 10 t = Some (m, k, q)"
      by (cases "scan_mantissa c_isdigit 10 t") (use h in auto)
    obtain x q' where x: "scan_exponent CHR ''e'' q = (x, q')" by fastforce
    show ?thesis using h q x scan_mantissa_length [OF q] scan_exponent_length [OF x] l by auto
  qed
  have hex: "length r \<le> length s" if "scan_mantissa c_isxdigit 16 (drop 2 t) = Some (m, k, q)" 
    "scan_exponent CHR ''p'' q = (x, r)" for m k q x
    using scan_mantissa_length [OF that(1)] scan_exponent_length [OF that(2)] l by simp
  have nan: "length (scan_nan (drop 3 t)) \<le> length s" using scan_nan_length [of "drop 3 t"] l by simp
  have dec': "length r \<le> length s"
    if "map_option (\<lambda>(m, k, r). let (x, r') = scan_exponent CHR ''e'' r
          in (signed_dbl b (of_nat m * pow10 (x - int k)), r')) (scan_mantissa c_isdigit 10 t) = Some (v, r)"
    by (rule dec [OF that])
  note e = assms [unfolded strtod_def t Let_def prod.case]
  consider "starts_nocase ''infinity'' t \<or> starts_nocase ''inf'' t \<or> starts_nocase ''nan'' t"
    | "\<not> (starts_nocase ''infinity'' t \<or> starts_nocase ''inf'' t \<or> starts_nocase ''nan'' t)" by blast
  then show ?thesis
  proof cases
    case 1
    then show ?thesis using e nan l by (auto split: if_splits)
  next
    case 2
    show ?thesis
    proof (cases "starts_nocase ''0x'' t")
      case True
      show ?thesis
      proof (cases "scan_mantissa c_isxdigit 16 (drop 2 t)")
        case None
        then show ?thesis using e 2 True dec' by (simp add: Let_def)
      next
        case (Some mkq)
        obtain m k q where "mkq = (m, k, q)" by (cases mkq)
        moreover obtain x q' where "scan_exponent CHR ''p'' q = (x, q')" by fastforce
        ultimately show ?thesis using e 2 True Some hex by (auto simp: Let_def)
      qed
    qed (use e 2 dec' in \<open>simp add: Let_def\<close>)
  qed
qed

lemma skip_length: "length (expr_skip_ws s) \<le> length s"
  by (simp add: expr_skip_ws_def length_dropWhile_le)

definition total_below :: "nat \<Rightarrow> (string \<Rightarrow> parsed) \<Rightarrow> bool" where
  "total_below L p \<longleftrightarrow> (\<forall>s. length s < L \<longrightarrow> (\<exists>v r. p s = Some (v, r) \<and> length r \<le> length s))"

lemma expr_atom_total:
  assumes "total_below L p" "length s \<le> L"
  shows "\<exists>v r. expr_atom p s = Some (v, r) \<and> length r \<le> length s"
proof -
  obtain sign u where u: "(case expr_skip_ws s of
         c # t \<Rightarrow> if c = CHR ''-'' then (Num (-1), t) else (Num 1, expr_skip_ws s)
       | [] \<Rightarrow> (Num 1, expr_skip_ws s)) = (sign, u)" by fastforce
  have lu: "length u \<le> length s"
  proof (cases "expr_skip_ws s")
    case (Cons c t)
    then have "length (c # t) \<le> length s" using skip_length [of s] by simp
    then show ?thesis using u by (auto simp: Cons split: if_splits)
  qed (use u in simp)
  show ?thesis
  proof (cases "u \<noteq> [] \<and> hd u = CHR ''(''")
    case True
    then have lt: "length (tl u) < length u" by (cases u) auto
    then have "length (tl u) < L" using lu assms(2) by simp
    then obtain v r where r: "p (tl u) = Some (v, r)" "length r \<le> length (tl u)"
      using assms(1) unfolding total_below_def by blast
    let ?r = "if expr_skip_ws r \<noteq> [] \<and> hd (expr_skip_ws r) = CHR '')'' then tl (expr_skip_ws r) else expr_skip_ws r"
    have "length ?r \<le> length s" using r(2) lt lu skip_length [of r] by auto
    moreover have "expr_atom p s = Some (dbl_mul sign v, ?r)" using True r(1) by (simp add: expr_atom_eq [OF u])
    ultimately show ?thesis by blast
  next
    case False
    then have e: "expr_atom p s = (case strtod u of None \<Rightarrow> Some (NaN, []) | Some (v, r) \<Rightarrow> Some (dbl_mul sign v, r))"
      by (simp only: expr_atom_eq [OF u] if_False)
    show ?thesis
    proof (cases "strtod u")
      case (Some q)
      then show ?thesis using e lu strtod_length [of u] by (cases q) fastforce
    qed (use e in simp)
  qed
qed

lemma term_loop_total:
  "total_below L p \<Longrightarrow> length s \<le> L \<Longrightarrow> length s < n \<Longrightarrow>
     \<exists>v r. term_loop n p x s = Some (v, r) \<and> length r \<le> length s"
proof (induction n arbitrary: s x)
  case (Suc n)
  show ?case
  proof (cases "expr_skip_ws s")
    case (Cons c t)
    then have lt: "length t < length s" using skip_length [of s] by simp
    show ?thesis
    proof (cases "c \<noteq> CHR ''*'' \<and> c \<noteq> CHR ''/''")
      case False
      obtain v r where v: "expr_atom p t = Some (v, r)" "length r \<le> length t"
        using expr_atom_total [OF Suc.prems(1), of t] lt Suc.prems(2) by auto
      let ?x = "if c = CHR ''*'' then dbl_mul x v else dbl_div x v"
      obtain w q where "term_loop n p ?x r = Some (w, q)" "length q \<le> length r"
        using Suc.IH [OF Suc.prems(1), of r ?x] v(2) lt Suc.prems(2,3) by auto
      then show ?thesis using Cons False v lt by auto
    qed (use Cons lt in simp)
  qed simp
qed simp

lemma expr_term_total:
  assumes "total_below L p" "length s \<le> L" "length s < n"
  shows "\<exists>v r. expr_term n p s = Some (v, r) \<and> length r \<le> length s"
proof -
  obtain v r where v: "expr_atom p s = Some (v, r)" "length r \<le> length s"
    using expr_atom_total [OF assms(1,2)] by blast
  then obtain w q where "term_loop n p v r = Some (w, q)" "length q \<le> length r"
    using term_loop_total [OF assms(1), of r n v] assms(2,3) by auto
  then show ?thesis using v by (simp add: expr_term_def)
qed

lemma parse_loop_total:
  "total_below L p \<Longrightarrow> length s \<le> L \<Longrightarrow> length s < n \<Longrightarrow> length s < m \<Longrightarrow>
     \<exists>v r. parse_loop n m p x s = Some (v, r) \<and> length r \<le> length s"
proof (induction n arbitrary: s x)
  case (Suc n)
  show ?case
  proof (cases "expr_skip_ws s")
    case (Cons c t)
    then have lt: "length t < length s" using skip_length [of s] by simp
    show ?thesis
    proof (cases "c \<noteq> CHR ''+'' \<and> c \<noteq> CHR ''-''")
      case False
      obtain v r where v: "expr_term m p t = Some (v, r)" "length r \<le> length t"
        using expr_term_total [OF Suc.prems(1), of t m] lt Suc.prems(2,4) by auto
      let ?x = "if c = CHR ''+'' then dbl_add x v else dbl_sub x v"
      obtain w q where "parse_loop n m p ?x r = Some (w, q)" "length q \<le> length r"
        using Suc.IH [OF Suc.prems(1), of r ?x] v(2) lt Suc.prems(2-4) by auto
      then show ?thesis using Cons False v lt by auto
    qed (use Cons lt in simp)
  qed simp
qed simp

lemma expr_parse_total_below: "total_below n (expr_parse n)"
proof (induction n)
  case (Suc n)
  show ?case unfolding total_below_def
  proof (intro allI impI)
    fix s :: string assume "length s < Suc n"
    then have s: "length s \<le> n" by simp
    obtain v r where v: "expr_term (Suc n) (expr_parse n) s = Some (v, r)" "length r \<le> length s"
      using expr_term_total [OF Suc s, of "Suc n"] s by auto
    then obtain w q where "parse_loop (Suc n) (Suc n) (expr_parse n) v r = Some (w, q)" "length q \<le> length r"
      using parse_loop_total [OF Suc, of r "Suc n" "Suc n" v] s by auto
    then show "\<exists>v r. expr_parse (Suc n) s = Some (v, r) \<and> length r \<le> length s"
      using v by (simp del: parse_loop.simps)
  qed
qed (simp add: total_below_def)

lemma expr_parse_total: "\<exists>v r. expr_parse (expr_fuel s) s = Some (v, r) \<and> length r \<le> length s"
  using expr_parse_total_below [of "expr_fuel s"] by (simp add: total_below_def expr_fuel_def del: expr_parse.simps)

section \<open>More fuel changes nothing\<close>

definition refines :: "(string \<Rightarrow> parsed) \<Rightarrow> (string \<Rightarrow> parsed) \<Rightarrow> bool" where
  "refines p q \<longleftrightarrow> (\<forall>s x. p s = Some x \<longrightarrow> q s = Some x)"

lemma expr_atom_mono: "refines p q \<Longrightarrow> refines (expr_atom p) (expr_atom q)"
proof -
  assume pq: "refines p q"
  show ?thesis unfolding refines_def
  proof (intro allI impI)
    fix s x assume h: "expr_atom p s = Some x"
    obtain sign u where u: "(case expr_skip_ws s of
           c # t \<Rightarrow> if c = CHR ''-'' then (Num (-1), t) else (Num 1, expr_skip_ws s)
         | [] \<Rightarrow> (Num 1, expr_skip_ws s)) = (sign, u)" by fastforce
    note e = expr_atom_eq [OF u]
    show "expr_atom q s = Some x"
    proof (cases "u \<noteq> [] \<and> hd u = CHR ''(''")
      case True
      have "p (tl u) \<noteq> None"
        using h unfolding e if_P [OF True] by (metis option.case(1) option.distinct(1))
      then obtain y where y: "p (tl u) = Some y" by blast
      then have y': "q (tl u) = Some y" using pq unfolding refines_def by blast
      show ?thesis using h unfolding e if_P [OF True] y y' .
    next
      case False
      show ?thesis using h unfolding e if_not_P [OF False] .
    qed
  qed
qed

lemma term_loop_mono:
  assumes "refines p q"
  shows "term_loop n p l s = Some x \<Longrightarrow> n \<le> m \<Longrightarrow> term_loop m q l s = Some x"
proof (induction n arbitrary: m l s)
  case (Suc n)
  obtain k where m: "m = Suc k" "n \<le> k" using Suc.prems(2) by (cases m) auto
  show ?case
  proof (cases "expr_skip_ws s")
    case (Cons c t)
    show ?thesis
    proof (cases "c \<noteq> CHR ''*'' \<and> c \<noteq> CHR ''/''")
      case False
      obtain v r where v: "expr_atom p t = Some (v, r)"
          "term_loop n p (if c = CHR ''*'' then dbl_mul l v else dbl_div l v) r = Some x"
        using Suc.prems(1) Cons False by (auto split: option.splits)
      have "expr_atom q t = Some (v, r)" using expr_atom_mono [OF assms] v(1) by (simp add: refines_def)
      then show ?thesis using Suc.IH [OF v(2) m(2)] Cons False m(1) by auto
    qed (use Suc.prems Cons m in simp)
  qed (use Suc.prems m in simp)
qed simp

lemma expr_term_mono:
  assumes "refines p q" "n \<le> m"
  shows "refines (expr_term n p) (expr_term m q)"
  unfolding refines_def
proof (intro allI impI)
  fix s x assume "expr_term n p s = Some x"
  then obtain v r where v: "expr_atom p s = Some (v, r)" "term_loop n p v r = Some x"
    by (auto simp: expr_term_def split: option.splits)
  then have "expr_atom q s = Some (v, r)" "term_loop m q v r = Some x"
    using expr_atom_mono [OF assms(1)] term_loop_mono [OF assms(1) v(2) assms(2)] by (simp_all add: refines_def)
  then show "expr_term m q s = Some x" by (simp add: expr_term_def)
qed

lemma parse_loop_mono:
  assumes "refines p q" "m \<le> m'"
  shows "parse_loop n m p l s = Some x \<Longrightarrow> n \<le> n' \<Longrightarrow> parse_loop n' m' q l s = Some x"
proof (induction n arbitrary: n' l s)
  case (Suc n)
  obtain k where m: "n' = Suc k" "n \<le> k" using Suc.prems(2) by (cases n') auto
  show ?case
  proof (cases "expr_skip_ws s")
    case (Cons c t)
    show ?thesis
    proof (cases "c \<noteq> CHR ''+'' \<and> c \<noteq> CHR ''-''")
      case False
      obtain v r where v: "expr_term m p t = Some (v, r)"
          "parse_loop n m p (if c = CHR ''+'' then dbl_add l v else dbl_sub l v) r = Some x"
        using Suc.prems(1) Cons False by (auto split: option.splits)
      have "expr_term m' q t = Some (v, r)" using expr_term_mono [OF assms] v(1) by (simp add: refines_def)
      then show ?thesis using Suc.IH [OF v(2) m(2)] Cons False m(1) by auto
    qed (use Suc.prems Cons m in simp)
  qed (use Suc.prems m in simp)
qed simp

lemma expr_parse_mono_Suc: "refines (expr_parse n) (expr_parse (Suc n))"
proof (induction n)
  case (Suc n)
  show ?case unfolding refines_def
  proof (intro allI impI)
    fix s x assume "expr_parse (Suc n) s = Some x"
    then obtain v r where v: "expr_term (Suc n) (expr_parse n) s = Some (v, r)"
        "parse_loop (Suc n) (Suc n) (expr_parse n) v r = Some x"
      by (auto simp del: parse_loop.simps split: option.splits)
    have "expr_term (Suc (Suc n)) (expr_parse (Suc n)) s = Some (v, r)"
      using expr_term_mono [OF Suc, of "Suc n" "Suc (Suc n)"] v(1) by (simp add: refines_def del: expr_parse.simps)
    moreover have "parse_loop (Suc (Suc n)) (Suc (Suc n)) (expr_parse (Suc n)) v r = Some x"
      by (rule parse_loop_mono [OF Suc _ v(2)]) simp_all
    ultimately show "expr_parse (Suc (Suc n)) s = Some x"
      by (subst expr_parse.simps) (simp del: parse_loop.simps expr_parse.simps)
  qed
qed (simp add: refines_def)

lemma expr_parse_mono: "n \<le> m \<Longrightarrow> refines (expr_parse n) (expr_parse m)"
proof (induction m rule: dec_induct)
  case (step m)
  then show ?case using expr_parse_mono_Suc [of m] by (simp add: refines_def del: expr_parse.simps)
qed (simp add: refines_def)


section \<open>Printed expressions\<close>

datatype aexpr = Lit nat | Neg aexpr | Add aexpr aexpr | Sub aexpr aexpr | Mul aexpr aexpr | Div aexpr aexpr

primrec eval :: "aexpr \<Rightarrow> dbl" where
  "eval (Lit n) = dbl_of_int (int n)"
| "eval (Neg a) = dbl_neg (eval a)"
| "eval (Add a b) = dbl_add (eval a) (eval b)"
| "eval (Sub a b) = dbl_sub (eval a) (eval b)"
| "eval (Mul a b) = dbl_mul (eval a) (eval b)"
| "eval (Div a b) = dbl_div (eval a) (eval b)"

definition paren :: "bool \<Rightarrow> string \<Rightarrow> string" where
  "paren b s = (if b then ''('' @ s @ '')'' else s)"

text \<open>The places an expression can stand in: an operand of a sum (0), of a product (1), behind a
  product's operator (2), behind a sign (3).\<close>

primrec print_at :: "nat \<Rightarrow> aexpr \<Rightarrow> string" where
  "print_at l (Lit n) = dec_digits n"
| "print_at l (Neg a) = paren (2 < l) (''-'' @ print_at 3 a)"
| "print_at l (Add a b) = paren (0 < l) (print_at 0 a @ ''+'' @ print_at 1 b)"
| "print_at l (Sub a b) = paren (0 < l) (print_at 0 a @ ''-'' @ print_at 1 b)"
| "print_at l (Mul a b) = paren (1 < l) (print_at 1 a @ ''*'' @ print_at 2 b)"
| "print_at l (Div a b) = paren (1 < l) (print_at 1 a @ ''/'' @ print_at 2 b)"

lemma is_dbl_eval [simp]: "is_dbl (eval a)"
  by (induction a) (simp_all add: dbl_of_int_def)

subsection \<open>Numerals\<close>

lemma digit_char:
  assumes "d < 10"
  shows "c_isdigit (char_of (48 + d))" "digit_val (char_of (48 + d)) = d"
  using assms by (simp_all add: c_isdigit_def digit_val_def)

lemma dec_digits_digits: "\<forall>c \<in> set (dec_digits n). c_isdigit c"
proof (induction n rule: dec_digits.induct)
  case (1 n)
  then show ?case
    by (cases "n < 10") (simp_all add: dec_digits.simps [of n] digit_char)
qed

lemma dec_digits_val: "digits_val 10 (dec_digits n) = n"
proof (induction n rule: dec_digits.induct)
  case (1 n)
  then show ?case
    by (cases "n < 10") (simp_all add: dec_digits.simps [of n] digit_char digits_val_def)
qed

lemma dec_digits_nonempty [simp]: "dec_digits n \<noteq> []"
  by (subst dec_digits.simps) simp

definition num_stop :: "string \<Rightarrow> bool" where
  "num_stop s \<longleftrightarrow> s = [] \<or> hd s \<in> {CHR ''+'', CHR ''-'', CHR ''*'', CHR ''/'', CHR '')''}"

lemma digit_plain:
  assumes "c_isdigit c"
  shows "\<not> c_isspace c" "c_tolower c = c" "c \<noteq> CHR ''-''" "c \<noteq> CHR ''+''" "c \<noteq> CHR ''(''" "c \<noteq> CHR ''i''" "c \<noteq> CHR ''n''"
    "c \<noteq> CHR ''x''"
  using assms by (auto simp: c_isdigit_def c_isspace_def c_tolower_def)

lemma num_stop_cases:
  assumes "num_stop s"
  obtains "s = []" | c t where "s = c # t" "\<not> c_isdigit c" "\<not> c_isspace c" "c \<noteq> CHR ''.''" 
    "c_tolower c \<noteq> CHR ''e''" "c_tolower c \<noteq> CHR ''x''"
proof (cases s)
  case (Cons c t)
  then show thesis using assms that(2) [of c t]
    by (auto simp: num_stop_def c_isdigit_def c_isspace_def c_tolower_def)
qed (use that in blast)

lemma starts_nocase_Cons:
  "starts_nocase (p # ps) (c # cs) \<longleftrightarrow> c_tolower p = c_tolower c \<and> starts_nocase ps cs"
  by (auto simp: starts_nocase_def c_strcaseeq_def)

lemma starts_nocase_Nil [simp]: "\<not> starts_nocase (p # ps) []"
  by (simp add: starts_nocase_def)

lemma tolower_consts [simp]:
  "c_tolower CHR ''i'' = CHR ''i''" "c_tolower CHR ''n'' = CHR ''n''" "c_tolower CHR ''x'' = CHR ''x''"
  by (simp_all add: c_tolower_def)

lemma strtod_digits:
  assumes "ds \<noteq> []" "\<forall>c \<in> set ds. c_isdigit c" "num_stop rest"
    "scan_sign (dropWhile c_isspace s) = (neg, ds @ rest)"
  shows "strtod s = Some (signed_dbl neg (of_nat (digits_val 10 ds)), rest)"
proof -
  obtain c cs where ds: "ds = c # cs" using assms(1) by (cases ds) auto
  have d: "c_isdigit c" "\<forall>c \<in> set cs. c_isdigit c" using assms(2) ds by auto
  note p = digit_plain [OF d(1)]
  have hex: "\<not> starts_nocase ''0x'' (c # cs @ rest)"
  proof (cases "cs @ rest")
    case (Cons y ys)
    have "c_tolower y \<noteq> CHR ''x''"
    proof (cases cs)
      case Nil
      then have r: "rest = y # ys" using Cons by simp
      show ?thesis using assms(3) r by (cases rule: num_stop_cases [OF assms(3)]) auto
    qed (use Cons d digit_plain in auto)
    then show ?thesis using Cons by (simp add: starts_nocase_Cons)
  qed (simp add: starts_nocase_Cons)
  have t: "takeWhile c_isdigit (ds @ rest) = ds" "dropWhile c_isdigit (ds @ rest) = rest"
    using assms(2)
    by (cases rule: num_stop_cases [OF assms(3)]; simp add: takeWhile_append dropWhile_append)+
  have m: "scan_mantissa c_isdigit 10 (ds @ rest) = Some (digits_val 10 ds, 0, rest)"
    unfolding scan_mantissa_def t Let_def
    by (cases rule: num_stop_cases [OF assms(3)]) (simp_all add: assms(1))
  have e: "scan_exponent CHR ''e'' rest = (0, rest)"
    by (cases rule: num_stop_cases [OF assms(3)]) (simp_all add: scan_exponent_def)
  have v: "of_nat n * pow10 (0 - int 0) = of_nat n" for n by (simp add: pow10_def)
  have no: "\<not> starts_nocase (CHR ''i'' # q) (ds @ rest)" "\<not> starts_nocase (CHR ''n'' # q) (ds @ rest)"
    "\<not> starts_nocase ''0x'' (ds @ rest)" for q
    using p hex by (simp_all add: ds starts_nocase_Cons)
  show ?thesis
    by (simp only: strtod_def assms(4) Let_def prod.case no if_False m e v option.map)
qed

lemma signed_dbl_nat: "signed_dbl False (of_nat n) = dbl_of_int (int n)"
  by (simp add: signed_dbl_def dbl_of_int_def dbl_of_def)

lemma strtod_dec:
  assumes "num_stop rest"
  shows "strtod (dec_digits n @ rest) = Some (dbl_of_int (int n), rest)"
proof -
  obtain c ds where ds: "dec_digits n = c # ds" by (cases "dec_digits n") auto
  have "c_isdigit c" using dec_digits_digits [of n] ds by auto
  then have "scan_sign (dropWhile c_isspace (dec_digits n @ rest)) = (False, dec_digits n @ rest)"
    using digit_plain [of c] by (simp add: ds scan_sign_def)
  from strtod_digits [OF dec_digits_nonempty dec_digits_digits assms this] show ?thesis
    by (simp add: dec_digits_val signed_dbl_nat)
qed

subsection \<open>Parsing without fuel\<close>

definition parses :: "string \<Rightarrow> dbl \<times> string \<Rightarrow> bool" where
  "parses s x \<longleftrightarrow> (\<exists>n. expr_parse n s = Some x)"

definition atom_parses :: "string \<Rightarrow> dbl \<times> string \<Rightarrow> bool" where
  "atom_parses s x \<longleftrightarrow> (\<exists>n. expr_atom (expr_parse n) s = Some x)"

definition term_parses :: "string \<Rightarrow> dbl \<times> string \<Rightarrow> bool" where
  "term_parses s x \<longleftrightarrow> (\<exists>n. expr_term n (expr_parse n) s = Some x)"

definition term_rest :: "dbl \<Rightarrow> string \<Rightarrow> dbl \<times> string \<Rightarrow> bool" where
  "term_rest l s x \<longleftrightarrow> (\<exists>n. term_loop n (expr_parse n) l s = Some x)"

definition sum_rest :: "dbl \<Rightarrow> string \<Rightarrow> dbl \<times> string \<Rightarrow> bool" where
  "sum_rest l s x \<longleftrightarrow> (\<exists>n. parse_loop n n (expr_parse n) l s = Some x)"

lemma atom_upto: "expr_atom (expr_parse n) s = Some x \<Longrightarrow> n \<le> m \<Longrightarrow> expr_atom (expr_parse m) s = Some x"
  using expr_atom_mono [OF expr_parse_mono [of n m]] unfolding refines_def by blast

lemma term_upto: "expr_term n (expr_parse n) s = Some x \<Longrightarrow> n \<le> m \<Longrightarrow> expr_term m (expr_parse m) s = Some x"
  using expr_term_mono [OF expr_parse_mono [of n m], of n m] unfolding refines_def by blast

lemma term_loop_upto: "term_loop n (expr_parse n) l s = Some x \<Longrightarrow> n \<le> m \<Longrightarrow> term_loop m (expr_parse m) l s = Some x"
  using term_loop_mono [OF expr_parse_mono [of n m]] by blast

lemma parse_loop_upto:
  "parse_loop n n (expr_parse n) l s = Some x \<Longrightarrow> n \<le> m \<Longrightarrow> parse_loop m m (expr_parse m) l s = Some x"
  using parse_loop_mono [OF expr_parse_mono [of n m], of n m n l s x m] by blast

lemma term_parsesI:
  assumes "atom_parses s (l, r)" "term_rest l r x"
  shows "term_parses s x"
proof -
  obtain n m where "expr_atom (expr_parse n) s = Some (l, r)" "term_loop m (expr_parse m) l r = Some x"
    using assms by (auto simp: atom_parses_def term_rest_def)
  then have "expr_term (max n m) (expr_parse (max n m)) s = Some x"
    using atom_upto [of n s "(l, r)" "max n m"] term_loop_upto [of m l r x "max n m"] by (simp add: expr_term_def)
  then show ?thesis by (auto simp: term_parses_def)
qed

lemma parsesI:
  assumes "term_parses s (l, r)" "sum_rest l r x"
  shows "parses s x"
proof -
  obtain n m where nm: "expr_term n (expr_parse n) s = Some (l, r)" "parse_loop m m (expr_parse m) l r = Some x"
    using assms by (auto simp: term_parses_def sum_rest_def)
  let ?k = "max n m"
  have "expr_term (Suc ?k) (expr_parse ?k) s = Some (l, r)"
    using expr_term_mono [OF expr_parse_mono [of n ?k], of n "Suc ?k"] nm(1) unfolding refines_def by force
  moreover have "parse_loop (Suc ?k) (Suc ?k) (expr_parse ?k) l r = Some x"
    by (rule parse_loop_mono [OF expr_parse_mono [of m ?k] _ nm(2)]) simp_all
  ultimately have "expr_parse (Suc ?k) s = Some x" by (simp del: parse_loop.simps)
  then show ?thesis unfolding parses_def by blast
qed

lemma term_rest_op:
  assumes "expr_skip_ws s = op # t" "op = CHR ''*'' \<or> op = CHR ''/''" "atom_parses t (v, r)"
    "term_rest (if op = CHR ''*'' then dbl_mul l v else dbl_div l v) r x"
  shows "term_rest l s x"
proof -
  obtain n m where "expr_atom (expr_parse n) t = Some (v, r)"
    "term_loop m (expr_parse m) (if op = CHR ''*'' then dbl_mul l v else dbl_div l v) r = Some x"
    using assms(3,4) by (auto simp: atom_parses_def term_rest_def)
  moreover have "term_loop (max n m) (expr_parse (Suc (max n m))) (if op = CHR ''*'' then dbl_mul l v else dbl_div l v) r = Some x"
    by (rule term_loop_mono [OF expr_parse_mono]) (use calculation in auto)
  ultimately have "term_loop (Suc (max n m)) (expr_parse (Suc (max n m))) l s = Some x"
    using assms(1,2) atom_upto [of n t "(v, r)" "Suc (max n m)"]
    by (auto simp del: expr_parse.simps)
  then show ?thesis unfolding term_rest_def by blast
qed

lemma sum_rest_op:
  assumes "expr_skip_ws s = op # t" "op = CHR ''+'' \<or> op = CHR ''-''" "term_parses t (v, r)"
    "sum_rest (if op = CHR ''+'' then dbl_add l v else dbl_sub l v) r x"
  shows "sum_rest l s x"
proof -
  obtain n m where "expr_term n (expr_parse n) t = Some (v, r)"
    and m: "parse_loop m m (expr_parse m) (if op = CHR ''+'' then dbl_add l v else dbl_sub l v) r = Some x"
    using assms(3,4) by (auto simp: term_parses_def sum_rest_def)
  moreover have "parse_loop (max n m) (Suc (max n m)) (expr_parse (Suc (max n m)))
      (if op = CHR ''+'' then dbl_add l v else dbl_sub l v) r = Some x"
    by (rule parse_loop_mono [OF expr_parse_mono _ m]) auto
  ultimately have "parse_loop (Suc (max n m)) (Suc (max n m)) (expr_parse (Suc (max n m))) l s = Some x"
    using assms(1,2) term_upto [of n t "(v, r)" "Suc (max n m)"]
    by (auto simp del: expr_parse.simps)
  then show ?thesis unfolding sum_rest_def by blast
qed

lemma term_rest_stop:
  "expr_skip_ws s = s \<Longrightarrow> s = [] \<or> hd s \<noteq> CHR ''*'' \<and> hd s \<noteq> CHR ''/'' \<Longrightarrow> term_rest l s (l, s)"
  unfolding term_rest_def by (rule exI [of _ 1]) (cases s; auto)

lemma sum_rest_stop:
  "expr_skip_ws s = s \<Longrightarrow> s = [] \<or> hd s \<noteq> CHR ''+'' \<and> hd s \<noteq> CHR ''-'' \<Longrightarrow> sum_rest l s (l, s)"
  unfolding sum_rest_def by (rule exI [of _ 1]) (cases s; auto)

subsection \<open>Printing and parsing\<close>

lemma print_first:
  "\<exists>c t. print_at l a = c # t \<and> (c_isdigit c \<or> c = CHR ''-'' \<or> c = CHR ''('') \<and> (l = 3 \<longrightarrow> c \<noteq> CHR ''-'')"
proof (induction a arbitrary: l)
  case (Lit n)
  obtain c t where "dec_digits n = c # t" by (cases "dec_digits n") auto
  then show ?case using dec_digits_digits [of n] digit_plain(3) by auto
next
  case (Add a b)
  then show ?case by (cases "0 < l") (auto simp: paren_def, metis append_Cons)
next
  case (Sub a b)
  then show ?case by (cases "0 < l") (auto simp: paren_def, metis append_Cons)
next
  case (Mul a b)
  then show ?case by (cases "1 < l") (auto simp: paren_def, metis append_Cons)
next
  case (Div a b)
  then show ?case by (cases "1 < l") (auto simp: paren_def, metis append_Cons)
qed (auto simp: paren_def)

lemma skip_print [simp]: "expr_skip_ws (print_at l a @ s) = print_at l a @ s"
proof -
  obtain c t where "print_at l a = c # t" "c_isdigit c \<or> c = CHR ''-'' \<or> c = CHR ''(''"
    using print_first [of l a] by blast
  then show ?thesis using digit_plain(1) by (auto simp: expr_skip_ws_def c_isspace_def)
qed

lemma skip_op [simp]: "\<not> c_isspace c \<Longrightarrow> expr_skip_ws (c # s) = c # s"
  by (simp add: expr_skip_ws_def)

lemma op_nospace [simp]: "\<not> c_isspace CHR ''+''" "\<not> c_isspace CHR ''-''" "\<not> c_isspace CHR ''*''"
  "\<not> c_isspace CHR ''/''" "\<not> c_isspace CHR '')''" "\<not> c_isspace CHR ''(''"
  by (simp_all add: c_isspace_def)

lemma skip_stop: "num_stop s \<Longrightarrow> expr_skip_ws s = s"
  by (erule num_stop_cases) (simp_all add: expr_skip_ws_def)

text \<open>An operand behind an optional sign: a numeral or a sum in parentheses.\<close>

definition unit_parses :: "string \<Rightarrow> dbl \<Rightarrow> string \<Rightarrow> bool" where
  "unit_parses s v r \<longleftrightarrow> is_dbl v \<and> s \<noteq> [] \<and> hd s \<noteq> CHR ''-'' \<and> expr_skip_ws s = s \<and>
     (hd s \<noteq> CHR ''('' \<and> strtod s = Some (v, r) \<or>
      hd s = CHR ''('' \<and> parses (tl s) (v, CHR '')'' # r))"

lemma unit_atom:
  assumes "unit_parses s v r"
  shows "atom_parses s (v, r)" "atom_parses (CHR ''-'' # s) (dbl_neg v, r)"
proof -
  obtain c t where s: "s = c # t" "c \<noteq> CHR ''-''" "expr_skip_ws (c # t) = c # t"
    using assms by (cases s) (auto simp: unit_parses_def)
  have "\<exists>n. expr_atom (expr_parse n) s = Some (dbl_mul (Num 1) v, r) \<and>
        expr_atom (expr_parse n) (CHR ''-'' # s) = Some (dbl_mul (Num (-1)) v, r)"
  proof (cases "c = CHR ''(''")
    case True
    then obtain n where "expr_parse n t = Some (v, CHR '')'' # r)"
      using assms s by (auto simp: unit_parses_def parses_def)
    then show ?thesis using s True by (intro exI [of _ n]) (simp add: expr_atom_def Let_def)
  next
    case False
    then show ?thesis using s assms by (simp add: unit_parses_def expr_atom_def Let_def)
  qed
  then show "atom_parses s (v, r)" "atom_parses (CHR ''-'' # s) (dbl_neg v, r)"
    using assms by (auto simp: atom_parses_def unit_parses_def dbl_mul_one dbl_mul_minus_one)
qed

text \<open>What the induction shows of an expression.\<close>

definition sum_stop :: "string \<Rightarrow> bool" where
  "sum_stop s \<longleftrightarrow> s = [] \<or> hd s \<in> {CHR ''+'', CHR ''-'', CHR '')''}"

lemma sum_stop_num: "sum_stop s \<Longrightarrow> num_stop s"
  by (auto simp: sum_stop_def num_stop_def)

lemma sum_stop_term:
  assumes "sum_stop s"
  shows "term_rest l s (l, s)"
  by (rule term_rest_stop) (use skip_stop [OF sum_stop_num [OF assms]] assms in \<open>auto simp: sum_stop_def\<close>)

definition good :: "aexpr \<Rightarrow> bool" where
  "good a \<longleftrightarrow>
     (\<forall>r x. sum_stop r \<longrightarrow> sum_rest (eval a) r x \<longrightarrow> parses (print_at 0 a @ r) x) \<and>
     (\<forall>r x. num_stop r \<longrightarrow> term_rest (eval a) r x \<longrightarrow> term_parses (print_at 1 a @ r) x) \<and>
     (\<forall>r. num_stop r \<longrightarrow> atom_parses (print_at 2 a @ r) (eval a, r)) \<and>
     (\<forall>r. num_stop r \<longrightarrow> unit_parses (print_at 3 a @ r) (eval a) r)"

lemma num_stop_ops [simp]: "num_stop (CHR ''+'' # s)" "num_stop (CHR ''-'' # s)" "num_stop (CHR ''*'' # s)"
  "num_stop (CHR ''/'' # s)" "num_stop (CHR '')'' # s)" "num_stop []"
  by (simp_all add: num_stop_def)

lemma sum_stop_ops [simp]: "sum_stop (CHR ''+'' # s)" "sum_stop (CHR ''-'' # s)" "sum_stop (CHR '')'' # s)" "sum_stop []"
  by (simp_all add: sum_stop_def)

lemma paren_unit:
  assumes "\<And>x. sum_rest (eval a) (CHR '')'' # r) x \<Longrightarrow> parses (s @ CHR '')'' # r) x"
  shows "unit_parses (paren True s @ r) (eval a) r"
proof -
  have "sum_rest (eval a) (CHR '')'' # r) (eval a, CHR '')'' # r)" by (rule sum_rest_stop) simp_all
  then show ?thesis using assms by (simp add: unit_parses_def paren_def)
qed

text \<open>An expression that every place but a sum's first operand puts into parentheses is good when
  its body parses; one that can be a term is good when its body parses as a term; and so on.\<close>

lemma good_sum:
  assumes "\<And>r x. sum_stop r \<Longrightarrow> sum_rest (eval a) r x \<Longrightarrow> parses (s @ r) x"
    "\<And>l. print_at l a = paren (0 < l) s"
  shows "good a"
proof -
  have u: "unit_parses (paren True s @ r) (eval a) r" for r
    by (rule paren_unit) (rule assms(1), simp_all)
  show ?thesis unfolding good_def assms(2)
    using assms(1) u unit_atom(1) [OF u] term_parsesI [OF unit_atom(1) [OF u]]
    by (auto simp: paren_def)
qed

lemma good_term:
  assumes "\<And>r x. num_stop r \<Longrightarrow> term_rest (eval a) r x \<Longrightarrow> term_parses (s @ r) x"
    "\<And>l. print_at l a = paren (1 < l) s"
  shows "good a"
proof -
  have p: "parses (s @ r) x" if "sum_stop r" "sum_rest (eval a) r x" for r x
    using assms(1) [OF sum_stop_num sum_stop_term] that parsesI by blast
  have u: "unit_parses (paren True s @ r) (eval a) r" for r
    by (rule paren_unit) (rule p, simp_all)
  show ?thesis unfolding good_def assms(2)
    using p assms(1) u unit_atom(1) [OF u] by (auto simp: paren_def)
qed

lemma good_atom:
  assumes "\<And>r. num_stop r \<Longrightarrow> atom_parses (s @ r) (eval a, r)"
    "\<And>l. print_at l a = paren (2 < l) s"
  shows "good a"
proof -
  have t: "term_parses (s @ r) x" if "num_stop r" "term_rest (eval a) r x" for r x
    using assms(1) that term_parsesI by blast
  have p: "parses (s @ r) x" if "sum_stop r" "sum_rest (eval a) r x" for r x
    using t [OF sum_stop_num sum_stop_term] that parsesI by blast
  have u: "unit_parses (paren True s @ r) (eval a) r" for r
    by (rule paren_unit) (rule p, simp_all)
  show ?thesis unfolding good_def assms(2)
    using p t assms(1) u by (auto simp: paren_def)
qed

lemma good_unit:
  assumes "\<And>r. num_stop r \<Longrightarrow> unit_parses (s @ r) (eval a) r"
    "\<And>l. print_at l a = s"
  shows "good a"
proof -
  have t: "term_parses (s @ r) x" if "num_stop r" "term_rest (eval a) r x" for r x
    using unit_atom(1) [OF assms(1)] that term_parsesI by blast
  have p: "parses (s @ r) x" if "sum_stop r" "sum_rest (eval a) r x" for r x
    using t [OF sum_stop_num sum_stop_term] that parsesI by blast
  show ?thesis unfolding good_def assms(2)
    using p t assms(1) unit_atom(1) [OF assms(1)] by auto
qed

lemma all_good: "good a"
proof (induction a)
  case (Lit n)
  show ?case
  proof (rule good_unit [where s = "dec_digits n"])
    show "unit_parses (dec_digits n @ r) (eval (Lit n)) r" if "num_stop r" for r
    proof -
      obtain c t where c: "dec_digits n = c # t" by (cases "dec_digits n") auto
      then have "c_isdigit c" using dec_digits_digits [of n] by simp
      then show ?thesis using strtod_dec [OF that, of n] skip_print [of 0 "Lit n" r] digit_plain(3,5) c
        by (auto simp: unit_parses_def dbl_of_int_def)
    qed
  qed simp
next
  case (Neg a)
  show ?case
    by (rule good_atom [where s = "''-'' @ print_at 3 a"])
      (use Neg unit_atom(2) in \<open>auto simp: good_def\<close>)
next
  case (Add a b)
  show ?case
  proof (rule good_sum [where s = "print_at 0 a @ ''+'' @ print_at 1 b"])
    fix r x assume h: "sum_stop r" "sum_rest (eval (Add a b)) r x"
    have "term_parses (print_at 1 b @ r) (eval b, r)"
      using Add(2) h(1) sum_stop_num sum_stop_term unfolding good_def by blast
    note t = this
    have "sum_rest (eval a) (CHR ''+'' # print_at 1 b @ r) x"
      by (rule sum_rest_op [of _ "CHR ''+''" "print_at 1 b @ r" "eval b" r]) (use h(2) t in simp_all)
    then show "parses ((print_at 0 a @ ''+'' @ print_at 1 b) @ r) x"
      using Add(1) by (cases x) (simp add: good_def)
  qed simp
next
  case (Sub a b)
  show ?case
  proof (rule good_sum [where s = "print_at 0 a @ ''-'' @ print_at 1 b"])
    fix r x assume h: "sum_stop r" "sum_rest (eval (Sub a b)) r x"
    have "term_parses (print_at 1 b @ r) (eval b, r)"
      using Sub(2) h(1) sum_stop_num sum_stop_term unfolding good_def by blast
    note t = this
    have "sum_rest (eval a) (CHR ''-'' # print_at 1 b @ r) x"
      by (rule sum_rest_op [of _ "CHR ''-''" "print_at 1 b @ r" "eval b" r]) (use h(2) t in simp_all)
    then show "parses ((print_at 0 a @ ''-'' @ print_at 1 b) @ r) x"
      using Sub(1) by (cases x) (simp add: good_def)
  qed simp
next
  case (Mul a b)
  show ?case
  proof (rule good_term [where s = "print_at 1 a @ ''*'' @ print_at 2 b"])
    fix r x assume h: "num_stop r" "term_rest (eval (Mul a b)) r x"
    have "term_rest (eval a) (CHR ''*'' # print_at 2 b @ r) x"
      by (rule term_rest_op [of _ "CHR ''*''" "print_at 2 b @ r" "eval b" r]) (use h Mul(2) in \<open>cases x, simp_all add: good_def\<close>)
    then show "term_parses ((print_at 1 a @ ''*'' @ print_at 2 b) @ r) x"
      using Mul(1) by (cases x) (simp add: good_def)
  qed simp
next
  case (Div a b)
  show ?case
  proof (rule good_term [where s = "print_at 1 a @ ''/'' @ print_at 2 b"])
    fix r x assume h: "num_stop r" "term_rest (eval (Div a b)) r x"
    have "term_rest (eval a) (CHR ''/'' # print_at 2 b @ r) x"
      by (rule term_rest_op [of _ "CHR ''/''" "print_at 2 b @ r" "eval b" r]) (use h Div(2) in \<open>cases x, simp_all add: good_def\<close>)
    then show "term_parses ((print_at 1 a @ ''/'' @ print_at 2 b) @ r) x"
      using Div(1) by (cases x) (simp add: good_def)
  qed simp
qed

lemma try_eval_print:
  "try_eval_expr (print_at 0 a) = (if eval a = NaN then None else Some (eval a))"
proof -
  have "sum_rest (eval a) [] (eval a, [])" by (rule sum_rest_stop) (simp_all add: expr_skip_ws_def)
  then have "parses (print_at 0 a @ []) (eval a, [])" using all_good [of a] unfolding good_def by (metis sum_stop_ops(4))
  then obtain n where n: "expr_parse n (print_at 0 a) = Some (eval a, [])" by (auto simp: parses_def)
  let ?k = "expr_fuel (print_at 0 a)"
  obtain v r where k: "expr_parse ?k (print_at 0 a) = Some (v, r)" using expr_parse_total by blast
  have "refines (expr_parse n) (expr_parse (max n ?k))" "refines (expr_parse ?k) (expr_parse (max n ?k))"
    by (rule expr_parse_mono, simp)+
  then have "expr_parse (max n ?k) (print_at 0 a) = Some (eval a, [])" "expr_parse (max n ?k) (print_at 0 a) = Some (v, r)"
    using n k unfolding refines_def by blast+
  then have "v = eval a" "r = []" by simp_all
  then show ?thesis using k by (simp add: try_eval_expr_def expr_skip_ws_def)
qed

section \<open>Properties\<close>

text \<open>C29. Expressions are evaluated as they are written. For every arithmetic expression over decimal
  numerals, sign, the four operations and the parentheses that the usual precedence needs,
  \<open>try_eval_expr\<close> on its text gives its value in double precision arithmetic, and fails exactly when
  this value is not a number.\<close>

theorem lucfg_expression_value:
  "try_eval_expr (print_at 0 a) = (if eval a = NaN then None else Some (eval a))"
  by (rule try_eval_print)


end
