(* ===== verification/Lucfg.thy ===== *)
theory Lucfg
  imports Lucfg_Expr
begin

text \<open>
  The configuration library \<open>third_party/lucfg/src/lucfg.c\<close>: the hash table of entries, the line
  parser behind \<open>lucfg_open\<close> and the getters.

  A handle is the list of its 127 buckets, a bucket the list of its entries with the newest first.
  A file is the list of its characters (\<open>None\<close>: it cannot be opened); \<open>fgets_lines\<close> cuts it the way
  \<open>fgets\<close> with the 1024-byte buffer does. Three things the code leaves open are arguments:
  \<open>schar\<close>, whether \<open>char\<close> is signed; \<open>junk\<close>, what the uninitialised cell 1022 of the line buffer
  holds, which \<open>load_file\<close> reads; and \<open>freed\<close>, what the bytes of a freed string read as, since
  \<open>parse_value\<close> copies a quoted value out of memory it has just freed. A getter's out parameter is
  the second component of its result: \<open>Kept\<close> when it is not written, \<open>Undef\<close> when an
  out-of-range conversion from \<open>double\<close> is written to it. The mutex, and failures of \<open>malloc\<close>, are
  left out.
\<close>

section \<open>Data\<close>

definition HASH_SIZE :: nat where "HASH_SIZE = 127"

datatype lucfg_rc = LUCFG_OK | LUCFG_ERR_OPEN | LUCFG_ERR_PARSE | LUCFG_ERR_NOKEY | LUCFG_ERR_TYPE | LUCFG_ERR_RANGE

record entry =
  e_section :: string
  e_key :: string
  e_value :: string
  ivalue :: int
  dvalue :: dbl
  expr_value :: dbl
  e_type :: nat
  has_expr :: bool

type_synonym lucfg_handle = "entry list list"

datatype 'a out = Kept | Set 'a | Undef

section \<open>Strings\<close>

definition hash_func :: "bool \<Rightarrow> string \<Rightarrow> string \<Rightarrow> nat" where
  "hash_func schar sec key =
     (let step = (\<lambda>h c. push_bit 5 h + h + char_u32 schar c)
      in unat (foldl step (foldl step 5381 sec) key) mod HASH_SIZE)"

text \<open>\<open>str_icmp (a, b) == 0\<close>.\<close>

fun str_ieq :: "string \<Rightarrow> string \<Rightarrow> bool" where
  "str_ieq [] [] = True"
| "str_ieq (a # as) (b # bs) \<longleftrightarrow> c_tolower a = c_tolower b \<and> str_ieq as bs"
| "str_ieq _ _ = False"

definition trim :: "string \<Rightarrow> string" where
  "trim s = rev (dropWhile c_isspace (rev (dropWhile c_isspace s)))"

fun strip_comment :: "bool \<Rightarrow> string \<Rightarrow> string" where
  "strip_comment in_quo [] = []"
| "strip_comment in_quo (c # s) =
     (let q = (if c = CHR 0x22 then \<not> in_quo else in_quo)
      in if \<not> q \<and> (c = CHR ''#'' \<or> c = CHR '';'') then [] else c # strip_comment q s)"

section \<open>Values\<close>

definition classify_value :: "entry \<Rightarrow> string \<Rightarrow> entry" where
  "classify_value ent s =
     (case try_eval_expr s of
        Some ev \<Rightarrow> ent\<lparr>expr_value := ev, has_expr := True, e_type := 2\<rparr>
      | None \<Rightarrow>
          let ent = ent\<lparr>has_expr := False\<rparr>; (lv, rest) = strtol s
          in if rest = [] then ent\<lparr>e_type := 1, ivalue := lv\<rparr>
             else
               (case strtod s of
                  Some (dv, []) \<Rightarrow> ent\<lparr>e_type := 2, dvalue := dv\<rparr>
                | _ \<Rightarrow> ent\<lparr>e_type := 0\<rparr>))"

definition parse_value :: "(string \<Rightarrow> string) \<Rightarrow> entry \<Rightarrow> entry" where
  "parse_value freed ent =
     (let s = trim (e_value ent) in
      if 2 \<le> length s \<and> hd s = CHR 0x22 \<and> last s = CHR 0x22 then
        let s = c_str (freed (butlast (tl s))) in classify_value (ent\<lparr>e_value := s\<rparr>) s
      else classify_value ent s)"

definition blank_entry :: entry where
  "blank_entry = \<lparr>e_section = [], e_key = [], e_value = [], ivalue = 0, dvalue = Zero False,
     expr_value = Zero False, e_type = 0, has_expr = False\<rparr>"

section \<open>Loading a file\<close>

text \<open>\<open>fgets\<close>: up to 1023 characters, up to and with the first newline.\<close>

function fgets_lines :: "string \<Rightarrow> string list" where
  "fgets_lines f =
     (if f = [] then []
      else let l = takeWhile (\<lambda>c. c \<noteq> CHR 0x0A) f;
               n = min 1023 (if length l < length f then Suc (length l) else length l)
           in take n f # fgets_lines (drop n f))"
  by pat_completeness auto
termination
  by (relation "measure length") (auto simp: Let_def min_def split: if_splits)

declare fgets_lines.simps [simp del]

text \<open>The content of cell 1022 after a line was read into the buffer.\<close>

definition cell_1022 :: "char \<Rightarrow> string \<Rightarrow> char" where
  "cell_1022 old line =
     (if length line = 1023 then line ! 1022 else if length line = 1022 then NUL else old)"

text \<open>\<open>strchr\<close>: the text before and behind the first \<open>c\<close>.\<close>

definition split_at :: "char \<Rightarrow> string \<Rightarrow> (string \<times> string) option" where
  "split_at c s =
     (if c \<in> set s then Some (takeWhile (\<lambda>d. d \<noteq> c) s, tl (dropWhile (\<lambda>d. d \<noteq> c) s)) else None)"

definition insert_entry :: "bool \<Rightarrow> entry \<Rightarrow> lucfg_handle \<Rightarrow> lucfg_handle" where
  "insert_entry schar ent h =
     (let idx = hash_func schar (e_section ent) (e_key ent) in h[idx := ent # h ! idx])"

definition load_line ::
  "bool \<Rightarrow> (string \<Rightarrow> string) \<Rightarrow> string \<Rightarrow> string \<times> lucfg_handle \<Rightarrow> (string \<times> lucfg_handle) option" where
  "load_line schar freed line st =
     (let (cur_sec, h) = st; p = trim (strip_comment False (c_str line)) in
      if p = [] then Some (cur_sec, h)
      else if hd p = CHR ''['' then
        (case split_at CHR '']'' p of
           None \<Rightarrow> None
         | Some (q, _) \<Rightarrow> Some (take 127 (tl q), h))
      else
        (case split_at CHR ''='' p of
           None \<Rightarrow> None
         | Some (k, v) \<Rightarrow>
             let key = trim k; val = trim v in
             if key = [] \<or> val = [] then None
             else
               let ent = blank_entry\<lparr>e_section := cur_sec, e_key := key, e_value := val\<rparr>
               in Some (cur_sec, insert_entry schar (parse_value freed ent) h)))"

fun load_lines ::
  "bool \<Rightarrow> (string \<Rightarrow> string) \<Rightarrow> char \<Rightarrow> string list \<Rightarrow> string \<times> lucfg_handle \<Rightarrow> lucfg_handle option" where
  "load_lines schar freed cell [] st = Some (snd st)"
| "load_lines schar freed cell (l # ls) st =
     (let cell = cell_1022 cell l in
      if cell \<noteq> NUL \<and> cell \<noteq> CHR 0x0A then None
      else
        (case load_line schar freed l st of
           None \<Rightarrow> None
         | Some st' \<Rightarrow> load_lines schar freed cell ls st'))"

definition empty_handle :: lucfg_handle where
  "empty_handle = replicate HASH_SIZE []"

definition lucfg_open ::
  "bool \<Rightarrow> (string \<Rightarrow> string) \<Rightarrow> char \<Rightarrow> string option \<Rightarrow> lucfg_handle option" where
  "lucfg_open schar freed junk file =
     (case file of
        None \<Rightarrow> None
      | Some f \<Rightarrow> load_lines schar freed junk (fgets_lines f) ([], empty_handle))"

section \<open>Getters\<close>

definition find_entry :: "bool \<Rightarrow> lucfg_handle \<Rightarrow> string \<Rightarrow> string \<Rightarrow> entry option" where
  "find_entry schar h sec key =
     find (\<lambda>e. str_ieq (e_section e) sec \<and> str_ieq (e_key e) key) (h ! hash_func schar sec key)"

definition lucfg_get_string :: "bool \<Rightarrow> lucfg_handle \<Rightarrow> string \<Rightarrow> string \<Rightarrow> lucfg_rc \<times> string out" where
  "lucfg_get_string schar h sec key =
     (case find_entry schar h sec key of
        None \<Rightarrow> (LUCFG_ERR_NOKEY, Kept)
      | Some e \<Rightarrow> (LUCFG_OK, Set (e_value e)))"

definition to_out :: "int option \<Rightarrow> int out" where
  "to_out x = (case x of Some n \<Rightarrow> Set n | None \<Rightarrow> Undef)"

definition lucfg_get_int :: "bool \<Rightarrow> lucfg_handle \<Rightarrow> string \<Rightarrow> string \<Rightarrow> lucfg_rc \<times> int out" where
  "lucfg_get_int schar h sec key =
     (case find_entry schar h sec key of
        None \<Rightarrow> (LUCFG_ERR_NOKEY, Kept)
      | Some e \<Rightarrow>
          if has_expr e then (LUCFG_OK, to_out (dbl_to_int LONG_MIN LONG_MAX (expr_value e)))
          else if e_type e = 1 then (LUCFG_OK, Set (ivalue e))
          else (LUCFG_ERR_TYPE, Kept))"

definition lucfg_get_double :: "bool \<Rightarrow> lucfg_handle \<Rightarrow> string \<Rightarrow> string \<Rightarrow> lucfg_rc \<times> dbl out" where
  "lucfg_get_double schar h sec key =
     (case find_entry schar h sec key of
        None \<Rightarrow> (LUCFG_ERR_NOKEY, Kept)
      | Some e \<Rightarrow>
          if has_expr e then (LUCFG_OK, Set (expr_value e))
          else if e_type e = 2 then (LUCFG_OK, Set (dvalue e))
          else (LUCFG_ERR_TYPE, Kept))"

text \<open>The macro \<open>CHECK_RANGE_EXPR\<close>: its \<open>break\<close> statements leave its own \<open>do while\<close>, so the
  getter goes on behind it with the code it has set.\<close>

definition check_range_expr :: "int \<Rightarrow> int \<Rightarrow> entry \<Rightarrow> lucfg_rc \<times> int out \<Rightarrow> lucfg_rc \<times> int out" where
  "check_range_expr min_v max_v e st =
     (if has_expr e then
        if dbl_less (expr_value e) (dbl_of_int min_v) \<or> dbl_less (dbl_of_int max_v) (expr_value e)
        then (LUCFG_ERR_RANGE, snd st)
        else (LUCFG_OK, to_out (dbl_to_int min_v max_v (expr_value e)))
      else st)"

text \<open>\<open>GEN_GET_SIGNED\<close> and \<open>GEN_GET_UNSIGNED\<close>; the code is set on every path, so its first value
  does not matter.\<close>

definition gen_get_signed ::
  "int \<Rightarrow> int \<Rightarrow> bool \<Rightarrow> lucfg_handle \<Rightarrow> string \<Rightarrow> string \<Rightarrow> lucfg_rc \<times> int out" where
  "gen_get_signed min_v max_v schar h sec key =
     (case find_entry schar h sec key of
        None \<Rightarrow> (LUCFG_ERR_NOKEY, Kept)
      | Some e \<Rightarrow>
          let (rc, out) = check_range_expr min_v max_v e (LUCFG_OK, Kept) in
          if e_type e = 1 then
            if ivalue e < min_v \<or> max_v < ivalue e then (LUCFG_ERR_RANGE, out)
            else (LUCFG_OK, Set (ivalue e))
          else (LUCFG_ERR_TYPE, out))"

definition gen_get_unsigned ::
  "int \<Rightarrow> bool \<Rightarrow> lucfg_handle \<Rightarrow> string \<Rightarrow> string \<Rightarrow> lucfg_rc \<times> int out" where
  "gen_get_unsigned max_v schar h sec key =
     (case find_entry schar h sec key of
        None \<Rightarrow> (LUCFG_ERR_NOKEY, Kept)
      | Some e \<Rightarrow>
          let (rc, out) = check_range_expr 0 max_v e (LUCFG_OK, Kept) in
          if e_type e = 1 then
            if ivalue e < 0 \<or> max_v < ivalue e then (LUCFG_ERR_RANGE, out)
            else (LUCFG_OK, Set (ivalue e))
          else (LUCFG_ERR_TYPE, out))"

definition lucfg_get_int8 where "lucfg_get_int8 = gen_get_signed (- (2 ^ 7)) (2 ^ 7 - 1)"
definition lucfg_get_int16 where "lucfg_get_int16 = gen_get_signed (- (2 ^ 15)) (2 ^ 15 - 1)"
definition lucfg_get_int32 where "lucfg_get_int32 = gen_get_signed (- (2 ^ 31)) (2 ^ 31 - 1)"
definition lucfg_get_int64 where "lucfg_get_int64 = gen_get_signed (- (2 ^ 63)) (2 ^ 63 - 1)"
definition lucfg_get_uint8 where "lucfg_get_uint8 = gen_get_unsigned (2 ^ 8 - 1)"
definition lucfg_get_uint16 where "lucfg_get_uint16 = gen_get_unsigned (2 ^ 16 - 1)"
definition lucfg_get_uint32 where "lucfg_get_uint32 = gen_get_unsigned (2 ^ 32 - 1)"
definition lucfg_get_uint64 where "lucfg_get_uint64 = gen_get_unsigned (2 ^ 64 - 1)"

definition lucfg_get_bool :: "bool \<Rightarrow> lucfg_handle \<Rightarrow> string \<Rightarrow> string \<Rightarrow> lucfg_rc \<times> int out" where
  "lucfg_get_bool schar h sec key =
     (case find_entry schar h sec key of
        None \<Rightarrow> (LUCFG_ERR_NOKEY, Kept)
      | Some e \<Rightarrow>
          if has_expr e then (LUCFG_OK, Set (if dbl_is_zero (expr_value e) then 0 else 1))
          else if e_type e = 1 then
            if ivalue e = 0 \<or> ivalue e = 1 then (LUCFG_OK, Set (ivalue e)) else (LUCFG_ERR_RANGE, Kept)
          else if e_type e = 0 \<and> (str_ieq (e_value e) ''true'' \<or> str_ieq (e_value e) ''yes'' \<or>
                                  str_ieq (e_value e) ''on'') then (LUCFG_OK, Set 1)
          else if e_type e = 0 \<and> (str_ieq (e_value e) ''false'' \<or> str_ieq (e_value e) ''no'' \<or>
                                  str_ieq (e_value e) ''off'') then (LUCFG_OK, Set 0)
          else (LUCFG_ERR_TYPE, Kept))"

section \<open>Listing sections and keys\<close>

text \<open>The temporary table of the names seen so far, by their own hash.\<close>

definition note_name :: "nat \<Rightarrow> string \<Rightarrow> string list list \<Rightarrow> string list list" where
  "note_name idx name tab =
     (if \<exists>n \<in> set (tab ! idx). str_ieq n name then tab else tab[idx := name # tab ! idx])"

definition lucfg_get_sections :: "bool \<Rightarrow> lucfg_handle \<Rightarrow> string list" where
  "lucfg_get_sections schar h =
     concat (fold (\<lambda>e. note_name (hash_func schar (e_section e) []) (e_section e)) (concat h)
               (replicate HASH_SIZE []))"

definition lucfg_get_keys :: "bool \<Rightarrow> lucfg_handle \<Rightarrow> string \<Rightarrow> string list" where
  "lucfg_get_keys schar h section =
     concat (fold (\<lambda>e. note_name (hash_func schar [] (e_key e)) (e_key e))
               (filter (\<lambda>e. str_ieq (e_section e) section) (concat h)) (replicate HASH_SIZE []))"

section \<open>What the value parser can produce\<close>

lemma signed_dbl_num [simp]: "signed_dbl neg a \<noteq> NaN"
  by (simp add: signed_dbl_def dbl_round_def Let_def)

lemma dbl_mul_sign_num: "x \<noteq> NaN \<Longrightarrow> dbl_mul (Num 1) x \<noteq> NaN" "x \<noteq> NaN \<Longrightarrow> dbl_mul (Num (-1)) x \<noteq> NaN"
  by (cases x; simp add: dbl_mul_def Let_def dbl_round_def)+

lemma eval_of_atom:
  assumes "\<And>p. expr_atom p s = Some (v, [])" "v \<noteq> NaN"
  shows "try_eval_expr s = Some v"
  by (simp add: try_eval_expr_def expr_fuel_def expr_term_def expr_skip_ws_def assms)

lemma strtol_eval:
  assumes "strtol s = (n, [])" "s \<noteq> []"
  shows "try_eval_expr s \<noteq> None"
proof -
  obtain neg ds where sc: "scan_sign (dropWhile c_isspace s) = (neg, ds)" by fastforce
  have ds: "ds \<noteq> []" "\<forall>c \<in> set ds. c_isdigit c"
    using assms sc by (auto simp: strtol_def Let_def split: if_splits)
  obtain c cs where c: "ds = c # cs" using ds(1) by (cases ds) auto
  have cd: "c_isdigit c" using ds(2) c by simp
  note p = digit_plain [OF cd]
  obtain d u where w: "dropWhile c_isspace s = d # u"
    using sc ds(1) by (cases "dropWhile c_isspace s") (auto simp: scan_sign_def)
  have "\<exists>v. (\<forall>p. expr_atom p s = Some (v, [])) \<and> v \<noteq> NaN"
  proof (cases "d = CHR ''-''")
    case True
    then have u: "u = ds" using sc w by (simp add: scan_sign_def)
    have "scan_sign (dropWhile c_isspace ds) = (False, ds @ [])" using p c by (simp add: scan_sign_def)
    from strtod_digits [OF ds num_stop_ops(6) this]
    have "strtod ds = Some (signed_dbl False (of_nat (digits_val 10 ds)), [])" .
    then have "expr_atom q s = Some (dbl_mul (Num (-1)) (signed_dbl False (of_nat (digits_val 10 ds))), [])" for q
      using w True u c p by (simp add: expr_atom_def expr_skip_ws_def)
    then show ?thesis using dbl_mul_sign_num(2) by (metis signed_dbl_num)
  next
    case False
    then have neg: "\<not> neg" "d = CHR ''+'' \<and> u = ds \<or> d # u = ds" using sc w by (auto simp: scan_sign_def split: if_splits)
    have d: "d \<noteq> CHR ''(''" "\<not> c_isspace d" 
      using neg(2) c p hd_dropWhile [of c_isspace s] w by auto
    have "scan_sign (dropWhile c_isspace (d # u)) = (False, ds @ [])"
      using sc w neg(1) d(2) by simp
    from strtod_digits [OF ds num_stop_ops(6) this]
    have "strtod (d # u) = Some (signed_dbl False (of_nat (digits_val 10 ds)), [])" .
    then have "expr_atom q s = Some (dbl_mul (Num 1) (signed_dbl False (of_nat (digits_val 10 ds))), [])" for q
      using w False d by (simp add: expr_atom_def expr_skip_ws_def)
    then show ?thesis using dbl_mul_sign_num(1) by (metis signed_dbl_num)
  qed
  then show ?thesis using eval_of_atom by force
qed

definition parsed_entry :: "entry \<Rightarrow> bool" where
  "parsed_entry e \<longleftrightarrow> (has_expr e \<longrightarrow> e_type e = 2) \<and> (e_type e = 1 \<longrightarrow> ivalue e = 0 \<and> e_value e = [])"

lemma classify_value_parsed:
  assumes "e_value d = s"
  shows "parsed_entry (classify_value d s)"
proof (cases "try_eval_expr s")
  case None
  obtain lv rest where l: "strtol s = (lv, rest)" by fastforce
  show ?thesis
  proof (cases "rest = []")
    case True
    then have "s = []" using strtol_eval l None by blast
    then show ?thesis using None l True assms
      by (auto simp: classify_value_def parsed_entry_def strtol_def scan_sign_def)
  qed (use None l in \<open>auto simp: classify_value_def parsed_entry_def Let_def split: option.splits prod.splits list.splits\<close>)
qed (simp add: classify_value_def parsed_entry_def)

lemma classify_value_keeps [simp]:
  "e_section (classify_value d s) = e_section d" "e_key (classify_value d s) = e_key d"
  "e_value (classify_value d s) = e_value d"
  by (auto simp: classify_value_def Let_def split: option.split prod.split list.split)

lemma parse_value_parsed:
  assumes "trim (e_value e) = e_value e"
  shows "parsed_entry (parse_value freed e)"
  using assms by (simp add: parse_value_def Let_def classify_value_parsed)

lemma parse_value_keeps [simp]:
  "e_section (parse_value freed e) = e_section e" "e_key (parse_value freed e) = e_key e"
  by (simp_all add: parse_value_def Let_def)

section \<open>The store\<close>

text \<open>The interface of a store in which a later entry hides an earlier one. \<open>hits e k\<close> says that the
  entry answers to the key.\<close>

locale shadowing_store =
  fixes lookup :: "'s \<Rightarrow> 'k \<Rightarrow> 'e option"
    and insert :: "'e \<Rightarrow> 's \<Rightarrow> 's"
    and empty :: 's
    and hits :: "'e \<Rightarrow> 'k \<Rightarrow> bool"
    and inv :: "'s \<Rightarrow> bool"
  assumes inv_empty: "inv empty"
    and inv_insert: "inv s \<Longrightarrow> inv (insert e s)"
    and lookup_empty: "lookup empty k = None"
    and lookup_insert: "inv s \<Longrightarrow> lookup (insert e s) k = (if hits e k then Some e else lookup s k)"
begin

lemma inv_fold: "inv s \<Longrightarrow> inv (fold insert es s)"
  by (induction es arbitrary: s) (simp_all add: inv_insert)

lemma lookup_fold:
  "inv s \<Longrightarrow> lookup (fold insert es s) k =
     (case find (\<lambda>e. hits e k) (rev es) of Some e \<Rightarrow> Some e | None \<Rightarrow> lookup s k)"
proof (induction es rule: rev_induct)
  case (snoc e es)
  then show ?case using inv_fold [of s es] by (simp add: lookup_insert)
qed simp

lemma lookup_all: "lookup (fold insert es empty) k = find (\<lambda>e. hits e k) (rev es)"
  by (simp add: lookup_fold inv_empty lookup_empty split: option.split)

lemma lookup_from: "lookup (fold insert es empty) k = Some e \<Longrightarrow> e \<in> set es"
  unfolding lookup_all by (auto simp: find_Some_iff) (metis length_rev nth_mem set_rev)

end

definition handle_inv :: "lucfg_handle \<Rightarrow> bool" where
  "handle_inv h \<longleftrightarrow> length h = HASH_SIZE"

definition entry_hits :: "bool \<Rightarrow> entry \<Rightarrow> string \<times> string \<Rightarrow> bool" where
  "entry_hits schar e k \<longleftrightarrow>
     hash_func schar (fst k) (snd k) = hash_func schar (e_section e) (e_key e) \<and>
     str_ieq (e_section e) (fst k) \<and> str_ieq (e_key e) (snd k)"

lemma hash_func_less [simp]: "hash_func schar a b < HASH_SIZE"
  by (simp add: hash_func_def Let_def HASH_SIZE_def)

interpretation store: shadowing_store "\<lambda>h k. find_entry schar h (fst k) (snd k)" "insert_entry schar"
    empty_handle "entry_hits schar" handle_inv for schar
proof
  show "handle_inv empty_handle" by (simp add: handle_inv_def empty_handle_def)
  show "handle_inv (insert_entry schar e h)" if "handle_inv h" for h e
    using that by (simp add: handle_inv_def insert_entry_def Let_def)
  show "find_entry schar empty_handle (fst k) (snd k) = None" for k
    by (simp add: find_entry_def empty_handle_def)
  show "find_entry schar (insert_entry schar e h) (fst k) (snd k) =
      (if entry_hits schar e k then Some e else find_entry schar h (fst k) (snd k))" if "handle_inv h" for h e k
    using that by (auto simp: find_entry_def insert_entry_def Let_def entry_hits_def handle_inv_def nth_list_update)
qed


section \<open>What a loaded file holds\<close>

lemma trim_trim [simp]: "trim (trim s) = trim s"
proof -
  let ?d = "dropWhile c_isspace"
  have e: "?d (rev (?d (rev t))) = rev (?d (rev t))" if "t = [] \<or> \<not> c_isspace (hd t)" for t
  proof (cases "rev (?d (rev t))")
    case (Cons c u)
    have "\<exists>w. t = rev (?d (rev t)) @ w"
      by (metis rev_append rev_rev_ident takeWhile_dropWhile_id)
    then have "t \<noteq> [] \<and> hd t = c" using Cons by (metis append_Cons append_is_Nil_conv list.sel(1) neq_Nil_conv)
    then show ?thesis using that Cons by simp
  next
    case Nil
    then show ?thesis by (simp only: Nil dropWhile.simps rev.simps)
  qed
  have "?d s = [] \<or> \<not> c_isspace (hd (?d s))" using hd_dropWhile by blast
  from e [OF this] show ?thesis by (simp add: trim_def)
qed

lemma load_line_entries:
  assumes "load_line schar freed line (sec, h) = Some (sec', h')"
  shows "h' = h \<or> (\<exists>e. parsed_entry e \<and> h' = insert_entry schar e h)"
proof -
  let ?p = "trim (strip_comment False (c_str line))"
  show ?thesis
  proof (cases "?p = [] \<or> hd ?p = CHR ''[''")
    case True
    then show ?thesis using assms by (auto simp: load_line_def Let_def split: option.splits if_splits)
  next
    case False
    then obtain k v where "split_at CHR ''='' ?p = Some (k, v)" "trim k \<noteq> []" "trim v \<noteq> []"
       "h' = insert_entry schar (parse_value freed
          (blank_entry\<lparr>e_section := sec, e_key := trim k, e_value := trim v\<rparr>)) h"
      using assms by (auto simp: load_line_def Let_def split: option.splits if_splits)
    moreover have "parsed_entry (parse_value freed (blank_entry\<lparr>e_section := sec, e_key := trim k, e_value := trim v\<rparr>))"
      by (rule parse_value_parsed) simp
    ultimately show ?thesis by blast
  qed
qed

lemma load_lines_entries:
  "load_lines schar freed cell ls (sec, h) = Some h' \<Longrightarrow>
     \<exists>es. h' = fold (insert_entry schar) es h \<and> (\<forall>e \<in> set es. parsed_entry e)"
proof (induction ls arbitrary: cell sec h)
  case Nil
  then show ?case by (auto intro!: exI [of _ "[]"])
next
  case (Cons l ls)
  then obtain sec1 h1 where 1: "load_line schar freed l (sec, h) = Some (sec1, h1)"
      "load_lines schar freed (cell_1022 cell l) ls (sec1, h1) = Some h'"
    by (auto simp: Let_def split: if_splits option.splits)
  obtain es where es: "h' = fold (insert_entry schar) es h1" "\<forall>e \<in> set es. parsed_entry e"
    using Cons.IH [OF 1(2)] by blast
  from load_line_entries [OF 1(1)] show ?case
  proof
    assume "\<exists>e. parsed_entry e \<and> h1 = insert_entry schar e h"
    then obtain e where "parsed_entry e" "h1 = insert_entry schar e h" by blast
    then show ?thesis using es by (intro exI [of _ "e # es"]) simp
  qed (use es in auto)
qed

lemma lucfg_open_entry:
  assumes "lucfg_open schar freed junk file = Some h" "find_entry schar h sec key = Some e"
  shows "parsed_entry e"
proof -
  obtain es where "h = fold (insert_entry schar) es empty_handle" "\<forall>e \<in> set es. parsed_entry e"
    using assms(1) load_lines_entries [of schar freed junk _ "[]" empty_handle h]
    by (auto simp: lucfg_open_def split: option.splits)
  then show ?thesis using store.lookup_from [of schar es "(sec, key)" e] assms(2) by auto
qed

section \<open>Texts of configuration files\<close>

datatype cline = C_blank | C_comment string | C_section string | C_pair string string

abbreviation newline :: char where "newline \<equiv> CHR 0x0A"

primrec render :: "cline \<Rightarrow> string" where
  "render C_blank = [newline]"
| "render (C_comment c) = ''# '' @ c @ [newline]"
| "render (C_section s) = ''['' @ s @ '']'' @ [newline]"
| "render (C_pair k v) = k @ '' = '' @ v @ [newline]"

definition plain :: "string \<Rightarrow> bool" where
  "plain s \<longleftrightarrow> set s \<inter> {NUL, newline, CHR ''#'', CHR '';'', CHR 0x22} = {}"

definition word_ok :: "string \<Rightarrow> bool" where
  "word_ok s \<longleftrightarrow> plain s \<and> s \<noteq> [] \<and> \<not> c_isspace (hd s) \<and> \<not> c_isspace (last s)"

primrec wf_line :: "cline \<Rightarrow> bool" where
  "wf_line C_blank \<longleftrightarrow> True"
| "wf_line (C_comment c) \<longleftrightarrow> NUL \<notin> set c \<and> newline \<notin> set c \<and> length c \<le> 1000"
| "wf_line (C_section s) \<longleftrightarrow> plain s \<and> CHR '']'' \<notin> set s \<and> length s \<le> 127"
| "wf_line (C_pair k v) \<longleftrightarrow> word_ok k \<and> word_ok v \<and> CHR ''='' \<notin> set k \<and> hd k \<noteq> CHR ''['' \<and>
     length k + length v \<le> 1000"

text \<open>The definitions in a text, in its order: section, key, value.\<close>

fun cfg_pairs :: "string \<Rightarrow> cline list \<Rightarrow> (string \<times> string \<times> string) list" where
  "cfg_pairs sec [] = []"
| "cfg_pairs sec (C_section s # ls) = cfg_pairs s ls"
| "cfg_pairs sec (C_pair k v # ls) = (sec, k, v) # cfg_pairs sec ls"
| "cfg_pairs sec (_ # ls) = cfg_pairs sec ls"

definition pair_entry :: "string \<times> string \<times> string \<Rightarrow> entry" where
  "pair_entry p = (case p of (s, k, v) \<Rightarrow>
     classify_value (blank_entry\<lparr>e_section := s, e_key := k, e_value := v\<rparr>) v)"

lemma newline_space [simp]: "c_isspace newline" "c_isspace CHR '' ''"
  by (simp_all add: c_isspace_def)

lemma trim_word:
  assumes "w \<noteq> []" "\<not> c_isspace (hd w)" "\<not> c_isspace (last w)" "\<forall>c \<in> set a. c_isspace c" "\<forall>c \<in> set b. c_isspace c"
  shows "trim (a @ w @ b) = w"
proof -
  obtain c u where w: "w = c # u" using assms(1) by (cases w) auto
  obtain d x where r: "rev w = d # x" using assms(1) by (cases "rev w") auto
  then have d: "\<not> c_isspace d" using assms(1,3) by (metis last_rev list.sel(1) rev_rev_ident hd_rev)
  have "dropWhile c_isspace (a @ w @ b) = w @ b"
    using assms(2,4) w by (simp add: dropWhile_append2)
  moreover have "dropWhile c_isspace (rev (w @ b)) = rev w"
    using assms(5) d unfolding rev_append r by (subst dropWhile_append2) auto
  ultimately show ?thesis by (simp add: trim_def)
qed

lemma strip_plain: "set s \<inter> {CHR ''#'', CHR '';'', CHR 0x22} = {} \<Longrightarrow> strip_comment False s = s"
  by (induction s) (auto simp: Let_def)

lemma fgets_line:
  assumes "newline \<notin> set b" "length b \<le> 1005"
  shows "fgets_lines ((b @ [newline]) @ f) = (b @ [newline]) # fgets_lines f"
proof -
  have "takeWhile (\<lambda>c. c \<noteq> newline) (b @ newline # f) = b"
    using assms(1) by (induction b) auto
  then show ?thesis using assms(2) by (simp add: fgets_lines.simps [of "b @ newline # f"] Let_def)
qed

lemma word_chars:
  assumes "word_ok w"
  shows "plain w" "w \<noteq> []" "\<not> c_isspace (hd w)" "\<not> c_isspace (last w)"
  using assms by (simp_all add: word_ok_def)

lemma render_shape:
  assumes "wf_line l"
  shows "\<exists>b. render l = b @ [newline] \<and> newline \<notin> set b \<and> NUL \<notin> set b \<and> length b \<le> 1005"
  using assms
  by (cases l) (auto simp: word_ok_def plain_def)

lemma fgets_render:
  "list_all wf_line ls \<Longrightarrow> fgets_lines (concat (map render ls)) = map render ls"
proof (induction ls)
  case Nil
  show ?case by (simp add: fgets_lines.simps)
next
  case (Cons l ls)
  obtain b where "render l = b @ [newline]" "newline \<notin> set b" "length b \<le> 1005"
    using render_shape [of l] Cons.prems by auto
  then show ?case using Cons fgets_line [of b] by simp
qed

lemma cell_render: "wf_line l \<Longrightarrow> cell_1022 c (render l) = c"
  using render_shape [of l] by (auto simp: cell_1022_def)

lemma load_render:
  assumes "wf_line l"
  shows "load_line schar freed (render l) (sec, h) =
    Some (case l of C_section s \<Rightarrow> (s, h)
          | C_pair k v \<Rightarrow> (sec, insert_entry schar (pair_entry (sec, k, v)) h)
          | _ \<Rightarrow> (sec, h))"
proof -
  have cs: "c_str (render l) = render l" using render_shape [OF assms] by (auto intro!: c_str_id)
  show ?thesis
  proof (cases l)
    case C_blank
    then have "trim (strip_comment False (render l)) = []" by (simp add: trim_def)
    then show ?thesis using C_blank unfolding load_line_def cs by simp
  next
    case (C_comment c)
    then have "trim (strip_comment False (render l)) = []" by (simp add: trim_def)
    then show ?thesis using C_comment unfolding load_line_def cs by simp
  next
    case (C_section s)
    have p: "plain s" "CHR '']'' \<notin> set s" "length s \<le> 127" using assms C_section by simp_all
    have "strip_comment False (render l) = render l"
      by (rule strip_plain) (use p C_section in \<open>auto simp: plain_def\<close>)
    moreover have "trim (render l) = ''['' @ s @ '']''"
      using trim_word [of "''['' @ s @ '']''" "[]" "[newline]"] C_section by (simp add: c_isspace_def)
    moreover have "split_at CHR '']'' (''['' @ s @ '']'') = Some (''['' @ s, [])"
    proof -
      have "takeWhile (\<lambda>d. d \<noteq> CHR '']'') (s @ '']'') = s" "dropWhile (\<lambda>d. d \<noteq> CHR '']'') (s @ '']'') = '']''"
        using p(2) by (induction s) auto
      then show ?thesis by (simp add: split_at_def)
    qed
    ultimately show ?thesis using C_section p(3) unfolding load_line_def cs by simp
  next
    case (C_pair k v)
    have w: "word_ok k" "word_ok v" "CHR ''='' \<notin> set k" "hd k \<noteq> CHR ''[''" using assms C_pair by simp_all
    note k = word_chars [OF w(1)] and v = word_chars [OF w(2)]
    have "strip_comment False (render l) = render l"
      by (rule strip_plain) (use k(1) v(1) C_pair in \<open>auto simp: plain_def\<close>)
    moreover have t: "trim (render l) = k @ '' = '' @ v"
      using trim_word [of "k @ '' = '' @ v" "[]" "[newline]"] C_pair k v by simp
    moreover have "split_at CHR ''='' (k @ '' = '' @ v) = Some (k @ '' '', '' '' @ v)"
    proof -
      have "takeWhile (\<lambda>d. d \<noteq> CHR ''='') (k @ '' = '' @ v) = k @ '' ''"
        "dropWhile (\<lambda>d. d \<noteq> CHR ''='') (k @ '' = '' @ v) = ''= '' @ v"
        using w(3) by (induction k) auto
      then show ?thesis by (simp add: split_at_def)
    qed
    moreover have "trim (k @ '' '') = k" "trim ('' '' @ v) = v"
      using trim_word [of k "[]" "'' ''"] trim_word [of v "'' ''" "[]"] k v by simp_all
    moreover have "parse_value freed (blank_entry\<lparr>e_section := sec, e_key := k, e_value := v\<rparr>) = pair_entry (sec, k, v)"
    proof -
      have "trim v = v" using trim_word [of v "[]" "[]"] v by simp
      moreover have "hd v \<noteq> CHR 0x22" using v(1,2) by (cases v) (auto simp: plain_def)
      ultimately show ?thesis by (simp add: parse_value_def pair_entry_def)
    qed
    ultimately show ?thesis using C_pair k(2) v(2) w(4)
      unfolding load_line_def cs by simp
  qed
qed

lemma load_lines_render:
  "list_all wf_line ls \<Longrightarrow> c = NUL \<or> c = newline \<Longrightarrow>
     load_lines schar freed c (map render ls) (sec, h) =
       Some (fold (insert_entry schar) (map pair_entry (cfg_pairs sec ls)) h)"
proof (induction ls arbitrary: sec h)
  case (Cons l ls)
  then show ?case using load_render [of l schar freed sec h] cell_render [of l c]
    by (cases l) (simp_all add: Let_def)
qed simp

lemma lucfg_open_render:
  assumes "list_all wf_line ls" "junk = NUL \<or> junk = newline"
  shows "lucfg_open schar freed junk (Some (concat (map render ls))) =
     Some (fold (insert_entry schar) (map pair_entry (cfg_pairs [] ls)) empty_handle)"
  using load_lines_render [OF assms] fgets_render [OF assms(1)] by (simp add: lucfg_open_def)

lemma pair_entry_keeps [simp]:
  "e_section (pair_entry (s, k, v)) = s" "e_key (pair_entry (s, k, v)) = k" "e_value (pair_entry (s, k, v)) = v"
  by (simp_all add: pair_entry_def)

text \<open>What the code compares: the names without regard to case, in the chain that the names as they are written
  select.\<close>

definition pair_hits :: "bool \<Rightarrow> string \<Rightarrow> string \<Rightarrow> string \<times> string \<times> string \<Rightarrow> bool" where
  "pair_hits schar sec key p = (case p of (s, k, v) \<Rightarrow>
     hash_func schar sec key = hash_func schar s k \<and> str_ieq s sec \<and> str_ieq k key)"

lemma find_entry_render:
  "find_entry schar (fold (insert_entry schar) (map pair_entry ps) empty_handle) sec key =
     map_option pair_entry (find (pair_hits schar sec key) (rev ps))"
proof -
  have h: "entry_hits schar (pair_entry p) (sec, key) = pair_hits schar sec key p" for p
    by (cases p) (simp add: entry_hits_def pair_hits_def)
  have "find (\<lambda>e. entry_hits schar e (sec, key)) (map pair_entry qs) =
      map_option pair_entry (find (pair_hits schar sec key) qs)" for qs
    by (induction qs) (simp_all add: h)
  then show ?thesis
    using store.lookup_all [of schar "map pair_entry ps" "(sec, key)"] by (simp add: rev_map)
qed

lemma print_chars:
  "c \<in> set (print_at l a) \<Longrightarrow>
     c_isdigit c \<or> c \<in> {CHR ''-'', CHR ''+'', CHR ''*'', CHR ''/'', CHR ''('', CHR '')''}"
  by (induction a arbitrary: l)
    (auto simp: paren_def dest: bspec [OF dec_digits_digits] split: if_splits)

lemma print_word: "word_ok (print_at l a)"
proof -
  have c: "c \<in> set (print_at l a) \<Longrightarrow> c \<notin> {NUL, newline, CHR ''#'', CHR '';'', CHR 0x22} \<and> \<not> c_isspace c" for c
    using print_chars [of c l a] by (auto simp: c_isdigit_def c_isspace_def)
  have ne: "print_at l a \<noteq> []" using print_first [of l a] by auto
  then show ?thesis using c [OF hd_in_set] c [OF last_in_set] c by (auto simp: word_ok_def plain_def)
qed

lemma classify_print:
  assumes "eval a = dbl_of_int n" "\<bar>n\<bar> \<le> 2 ^ 53"
  shows "classify_value e (print_at 0 a) = e\<lparr>expr_value := dbl_of_int n, has_expr := True, e_type := 2\<rparr>"
proof -
  have "dbl_of_int n \<noteq> NaN" using dbl_of_int_exact [OF assms(2)] by simp
  then show ?thesis by (simp add: classify_value_def try_eval_print assms(1))
qed

lemma dbl_less_int:
  assumes "\<bar>a\<bar> \<le> 2 ^ 53" "\<bar>b\<bar> \<le> 2 ^ 53"
  shows "dbl_less (dbl_of_int a) (dbl_of_int b) \<longleftrightarrow> a < b"
  using assms by (simp add: dbl_of_int_exact)

text \<open>Words that are no numbers.\<close>

lemma strtod_letter:
  assumes "\<not> c_isspace c" "\<not> c_isdigit c" "c \<notin> {CHR ''-'', CHR ''+'', CHR ''.''}"
    "c_tolower c \<noteq> CHR ''i''" "c_tolower c = CHR ''n'' \<longrightarrow> (\<exists>d t. s = d # t \<and> c_tolower d \<noteq> CHR ''a'')"
    "c_tolower c \<noteq> CHR ''0''"
  shows "strtod (c # s) = None"
proof -
  have no: "\<not> starts_nocase ''infinity'' (c # s)" "\<not> starts_nocase ''inf'' (c # s)" "\<not> starts_nocase ''nan'' (c # s)"
     "\<not> starts_nocase ''0x'' (c # s)"
    using assms(4-6) by (auto simp: starts_nocase_Cons c_tolower_def [of "CHR ''a''"] c_tolower_def [of "CHR ''0''"])
  have "scan_sign (dropWhile c_isspace (c # s)) = (False, c # s)" using assms(1,3) by (simp add: scan_sign_def)
  moreover have "scan_mantissa c_isdigit 10 (c # s) = None" using assms(2,3) by (simp add: scan_mantissa_def)
  ultimately show ?thesis by (simp add: strtod_def no)
qed

lemma str_ieq_Cons: "str_ieq s (b # bs) \<longleftrightarrow> (\<exists>a as. s = a # as \<and> c_tolower a = c_tolower b \<and> str_ieq as bs)"
  by (cases s) auto

lemma str_ieq_tolower: "str_ieq a b \<longleftrightarrow> map c_tolower a = map c_tolower b"
  by (induction a b rule: str_ieq.induct) auto

lemma lower_letter:
  assumes "c_tolower c \<in> {CHR ''t'', CHR ''y'', CHR ''o'', CHR ''f'', CHR ''n''}"
  shows "\<not> c_isspace c" "\<not> c_isdigit c" "c \<notin> {CHR ''-'', CHR ''+'', CHR ''.'', CHR ''(''}" "c_tolower c \<noteq> CHR ''i''"
    "c_tolower c \<noteq> CHR ''0''"
proof -
  let ?L = "{CHR ''t'', CHR ''y'', CHR ''o'', CHR ''f'', CHR ''n''}"
  have self: "c \<in> ?L" if "c_tolower c = c" using assms that by simp
  show "\<not> c_isspace c"
  proof
    assume h: "c_isspace c"
    then have "c_tolower c = c" by (auto simp: c_tolower_def c_isspace_def)
    from self [OF this] h show False by (auto simp: c_isspace_def)
  qed
  show "\<not> c_isdigit c"
  proof
    assume h: "c_isdigit c"
    from self [OF digit_plain(2) [OF h]] h show False by (auto simp: c_isdigit_def)
  qed
  show "c \<notin> {CHR ''-'', CHR ''+'', CHR ''.'', CHR ''(''}"
  proof
    assume h: "c \<in> {CHR ''-'', CHR ''+'', CHR ''.'', CHR ''(''}"
    then have "c_tolower c = c" by (auto simp: c_tolower_def)
    from self [OF this] h show False by auto
  qed
  show "c_tolower c \<noteq> CHR ''i''" "c_tolower c \<noteq> CHR ''0''" using assms by auto
qed

lemma word_is_string:
  assumes "strtod (c # s) = None" "\<not> c_isspace c" "c \<noteq> CHR ''-''" "c \<noteq> CHR ''+''" "c \<noteq> CHR ''(''" "\<not> c_isdigit c"
  shows "classify_value e (c # s) = e\<lparr>has_expr := False, e_type := 0\<rparr>"
proof -
  have a: "expr_atom p (c # s) = Some (NaN, [])" for p
    using assms by (simp add: expr_atom_def expr_skip_ws_def)
  have "try_eval_expr (c # s) = None"
    by (simp add: try_eval_expr_def expr_fuel_def expr_term_def expr_skip_ws_def a)
  moreover have "strtol (c # s) = (0, c # s)" using assms by (simp add: strtol_def scan_sign_def)
  ultimately show ?thesis using assms(1) by (simp add: classify_value_def)
qed

lemma lower_letters [simp]:
  "c_tolower CHR ''t'' = CHR ''t''" "c_tolower CHR ''r'' = CHR ''r''" "c_tolower CHR ''u'' = CHR ''u''"
  "c_tolower CHR ''e'' = CHR ''e''" "c_tolower CHR ''y'' = CHR ''y''" "c_tolower CHR ''s'' = CHR ''s''"
  "c_tolower CHR ''o'' = CHR ''o''" "c_tolower CHR ''f'' = CHR ''f''" "c_tolower CHR ''a'' = CHR ''a''"
  "c_tolower CHR ''l'' = CHR ''l''"
  by (simp_all add: c_tolower_def)

lemma bool_word:
  assumes "map c_tolower v \<in> {''true'', ''yes'', ''on'', ''false'', ''no'', ''off''}"
  shows "classify_value e v = e\<lparr>has_expr := False, e_type := 0\<rparr>"
proof -
  obtain c s where v: "v = c # s" using assms by (cases v) auto
  have c: "c_tolower c \<in> {CHR ''t'', CHR ''y'', CHR ''o'', CHR ''f'', CHR ''n''}"
    using assms unfolding v by auto
  note l = lower_letter [OF c]
  have n: "\<exists>d t. s = d # t \<and> c_tolower d \<noteq> CHR ''a''" if "c_tolower c = CHR ''n''"
  proof -
    have "map c_tolower s = ''o''" using assms that unfolding v by auto
    then show ?thesis by (cases s) auto
  qed
  have "strtod (c # s) = None" by (rule strtod_letter) (use l n in auto)
  then show ?thesis using word_is_string [of c s e] l v by auto
qed

lemma get_bool_render:
  assumes "find (pair_hits schar sec key) (rev ps) = Some (s, k, v)"
    "str_ieq v w" "w \<in> {''true'', ''yes'', ''on'', ''false'', ''no'', ''off''}"
  shows "lucfg_get_bool schar (fold (insert_entry schar) (map pair_entry ps) empty_handle) sec key =
     (LUCFG_OK, Set (if w \<in> {''true'', ''yes'', ''on''} then 1 else 0))"
proof -
  let ?h = "fold (insert_entry schar) (map pair_entry ps) empty_handle"
  have m: "map c_tolower v = w" using assms(2,3) by (auto simp: str_ieq_tolower)
  obtain e where e: "find_entry schar ?h sec key = Some e" "\<not> has_expr e" "e_value e = v" "e_type e = 0"
    using find_entry_render [of schar ps sec key] assms(1,3) bool_word [of v] m
    by (simp add: pair_entry_def)
  show ?thesis
    unfolding lucfg_get_bool_def e(1) option.case str_ieq_tolower e(3) m
    using assms(3) e(2,4) by (elim insertE) simp_all
qed

section \<open>The documented lookup\<close>

text \<open>When a definition answers to a section and a key, by the rules that \<open>lucfg.h\<close> states: white space around
  the section does not count, and neither does the case of the letters.\<close>

definition names_match :: "string \<Rightarrow> string \<Rightarrow> string \<times> string \<times> string \<Rightarrow> bool" where
  "names_match sec key p \<longleftrightarrow> (case p of (s, k, v) \<Rightarrow> str_ieq (trim s) sec \<and> str_ieq k key)"

text \<open>The file writes the names of a section and a key only in the way they are asked for.\<close>

definition spelled_as :: "string \<Rightarrow> string \<Rightarrow> cline list \<Rightarrow> bool" where
  "spelled_as sec key ls \<longleftrightarrow> trim sec = sec \<and>
     (\<forall>(s, k, v) \<in> set (cfg_pairs [] ls). names_match sec key (s, k, v) \<longrightarrow> s = sec \<and> k = key)"

lemma isspace_tolower [simp]: "c_isspace (c_tolower c) = c_isspace c"
proof (cases "65 \<le> (of_char c :: nat) \<and> (of_char c :: nat) \<le> 90")
  case True
  have low: "(of_char d :: nat) \<le> 32" if "c_isspace d" for d using that by (auto simp: c_isspace_def)
  have "(of_char (c_tolower c) :: nat) = of_char c + 32" using True by (simp add: c_tolower_def)
  then show ?thesis using low [of c] low [of "c_tolower c"] True by fastforce
next
  case False
  then have "c_tolower c = c" by (simp only: c_tolower_def if_False)
  then show ?thesis by simp
qed

lemma trim_tolower: "trim (map c_tolower s) = map c_tolower (trim s)"
  by (simp add: trim_def dropWhile_map rev_map comp_def)

lemma length_trim: "length (trim s) = length s \<Longrightarrow> trim s = s"
proof -
  have shorter: "length (dropWhile P xs) \<le> length xs" "length (dropWhile P xs) = length xs \<Longrightarrow> dropWhile P xs = xs" for P and xs :: string
    using takeWhile_dropWhile_id [of P xs] by (metis length_append le_add2) (metis append_eq_append_conv append_Nil takeWhile_dropWhile_id)
  assume "length (trim s) = length s"
  then have "dropWhile c_isspace s = s" "dropWhile c_isspace (rev s) = rev s"
    using shorter [of c_isspace s] shorter [of c_isspace "rev (dropWhile c_isspace s)"] by (auto simp: trim_def)
  then show ?thesis by (simp add: trim_def)
qed

lemma str_ieq_trim: "str_ieq s sec \<Longrightarrow> trim sec = sec \<Longrightarrow> trim s = s"
proof -
  assume h: "str_ieq s sec" "trim sec = sec"
  have m: "map c_tolower s = map c_tolower sec" using h(1) by (simp add: str_ieq_tolower)
  then have "map c_tolower (trim s) = map c_tolower (trim sec)" by (simp flip: trim_tolower)
  then have "length (trim s) = length s" unfolding h(2) m [symmetric] by (rule map_eq_imp_length_eq)
  then show ?thesis by (rule length_trim)
qed

lemma str_ieq_refl [simp]: "str_ieq s s"
  by (simp add: str_ieq_tolower)

text \<open>With this spelling, the code finds what the rules say.\<close>

lemma find_names_match:
  assumes "spelled_as sec key ls"
  shows "find (pair_hits schar sec key) (rev (cfg_pairs [] ls)) = find (names_match sec key) (rev (cfg_pairs [] ls))"
proof (rule find_cong [OF refl])
  fix p assume in_ls: "p \<in> set (rev (cfg_pairs [] ls))"
  obtain s k v where "p = (s, k, v)" by (cases p)
  then have p: "p = (s, k, v)" "(s, k, v) \<in> set (cfg_pairs [] ls)" using in_ls by (simp_all only: set_rev)
  then have sp: "names_match sec key (s, k, v) \<Longrightarrow> s = sec \<and> k = key" "trim sec = sec"
    using assms by (auto simp: spelled_as_def)
  show "pair_hits schar sec key p = names_match sec key p"
    unfolding p(1) using sp str_ieq_trim [OF _ sp(2), of s] by (auto simp: pair_hits_def names_match_def)
qed

section \<open>Properties\<close>

text \<open>What the code does. For every text made of blank lines, comments, section headers and definitions,
  \<open>lucfg_open\<close> succeeds (if the uninitialised cell it looks at is harmless) and \<open>lucfg_get_string\<close> gives the value of
  the last definition whose names are those asked for up to case and whose chain is the one of the names asked for.\<close>

lemma lucfg_open_lookup:
  assumes "list_all wf_line ls" "junk = NUL \<or> junk = newline"
  shows "\<exists>h. lucfg_open schar freed junk (Some (concat (map render ls))) = Some h \<and>
     (\<forall>sec key. lucfg_get_string schar h sec key =
        (case find (pair_hits schar sec key) (rev (cfg_pairs [] ls)) of
           Some (s, k, v) \<Rightarrow> (LUCFG_OK, Set v)
         | None \<Rightarrow> (LUCFG_ERR_NOKEY, Kept)))"
  using lucfg_open_render [OF assms]
  by (auto simp: lucfg_get_string_def find_entry_render split: option.split)

text \<open>C28. Reading a configuration file back. For every text made of blank lines, comments, section
  headers and definitions, \<open>lucfg_open\<close> succeeds (if the uninitialised cell it looks at is harmless),
  and for each section and key that the file does not spell in another way than they are asked for,
  \<open>lucfg_get_string\<close> does what the header promises: it gives the value of the last definition that answers to
  them, without regard to case and to white space around the section, and \<open>LUCFG_ERR_NOKEY\<close> if there is none.

  The condition on the spelling is needed: a section header with white space inside its brackets is never
  found under its name, and a name in other letters is found only if the two hashes happen to agree
  (\<open>lucfg_section_space\<close>, \<open>lucfg_other_case\<close>), against the rules of \<open>lucfg.h\<close>.\<close>

theorem lucfg_open_reads_back:
  assumes "list_all wf_line ls" "junk = NUL \<or> junk = newline"
  shows "\<exists>h. lucfg_open schar freed junk (Some (concat (map render ls))) = Some h \<and>
     (\<forall>sec key. spelled_as sec key ls \<longrightarrow> lucfg_get_string schar h sec key =
        (case find (names_match sec key) (rev (cfg_pairs [] ls)) of
           Some (s, k, v) \<Rightarrow> (LUCFG_OK, Set v)
         | None \<Rightarrow> (LUCFG_ERR_NOKEY, Kept)))"
  using lucfg_open_lookup [OF assms, of schar freed] by (metis find_names_match)

definition sample_cfg :: "cline list" where
  "sample_cfg = [C_comment ''port'', C_section ''network'', C_pair ''port'' ''80'', C_blank,
     C_pair ''port'' (print_at 0 (Mul (Lit 2) (Add (Lit 30) (Lit 12)))), C_pair ''debug'' ''Yes'']"

lemma sample_print: "print_at 0 (Mul (Lit 2) (Add (Lit 30) (Lit 12))) = ''2*(30+12)''"
  by code_simp

lemma sample_cfg_wf: "list_all wf_line sample_cfg"
  unfolding sample_cfg_def sample_print by (simp add: word_ok_def plain_def c_isspace_def)

theorem lucfg_open_reads_back_witness:
  "\<exists>h. lucfg_open True id NUL (Some (concat (map render sample_cfg))) = Some h \<and>
     lucfg_get_string True h ''network'' ''port'' = (LUCFG_OK, Set ''2*(30+12)'') \<and>
     lucfg_get_string True h ''network'' ''host'' = (LUCFG_ERR_NOKEY, Kept)"
proof -
  have t: "trim ''network'' = ''network''" by code_simp
  have "find (names_match ''network'' ''port'') (rev (cfg_pairs [] sample_cfg)) =
      Some (''network'', ''port'', ''2*(30+12)'')" "spelled_as ''network'' ''port'' sample_cfg"
      "find (names_match ''network'' ''host'') (rev (cfg_pairs [] sample_cfg)) = None" "spelled_as ''network'' ''host'' sample_cfg"
    unfolding sample_cfg_def sample_print by (simp_all add: spelled_as_def names_match_def c_tolower_def t)
  then show ?thesis
    using lucfg_open_reads_back [OF sample_cfg_wf, of NUL True id] by fastforce
qed

text \<open>Where the code departs from the rules of its header. The section of the header \<open>[ a ]\<close> is not found under
  its name, and the definition of \<open>k\<close> is not found as \<open>K\<close>.\<close>

lemma lucfg_section_space:
  "\<exists>h. lucfg_open True id NUL (Some (concat (map render [C_section '' a '', C_pair ''k'' ''1'']))) = Some h \<and>
     names_match ''a'' ''k'' ('' a '', ''k'', ''1'') \<and> lucfg_get_string True h ''a'' ''k'' = (LUCFG_ERR_NOKEY, Kept)"
proof -
  let ?ls = "[C_section '' a '', C_pair ''k'' ''1'']"
  have m: "names_match ''a'' ''k'' ('' a '', ''k'', ''1'')" by code_simp
  have wf: "list_all wf_line ?ls" by (simp add: word_ok_def plain_def c_isspace_def)
  have f: "find (pair_hits True ''a'' ''k'') (rev (cfg_pairs [] ?ls)) = None"
    by (simp add: pair_hits_def c_tolower_def)
  obtain h where h: "lucfg_open True id NUL (Some (concat (map render ?ls))) = Some h"
      "lucfg_get_string True h ''a'' ''k'' = (case find (pair_hits True ''a'' ''k'') (rev (cfg_pairs [] ?ls)) of
         Some (s, k, v) \<Rightarrow> (LUCFG_OK, Set v) | None \<Rightarrow> (LUCFG_ERR_NOKEY, Kept))"
    using lucfg_open_lookup [OF wf, of NUL True id] by blast
  then show ?thesis using m unfolding f option.case by blast
qed

lemma lucfg_other_case:
  "\<exists>h. lucfg_open True id NUL (Some (concat (map render [C_section ''a'', C_pair ''k'' ''1'']))) = Some h \<and>
     names_match ''a'' ''K'' (''a'', ''k'', ''1'') \<and> lucfg_get_string True h ''a'' ''K'' = (LUCFG_ERR_NOKEY, Kept)"
proof -
  let ?ls = "[C_section ''a'', C_pair ''k'' ''1'']"
  have m: "names_match ''a'' ''K'' (''a'', ''k'', ''1'')" by code_simp
  have wf: "list_all wf_line ?ls" by (simp add: word_ok_def plain_def c_isspace_def)
  have "hash_func True ''a'' ''K'' \<noteq> hash_func True ''a'' ''k''"
    by (simp add: hash_func_def char_u32_def HASH_SIZE_def push_bit_eq_mult)
  then have f: "find (pair_hits True ''a'' ''K'') (rev (cfg_pairs [] ?ls)) = None"
    by (simp add: pair_hits_def)
  obtain h where h: "lucfg_open True id NUL (Some (concat (map render ?ls))) = Some h"
      "lucfg_get_string True h ''a'' ''K'' = (case find (pair_hits True ''a'' ''K'') (rev (cfg_pairs [] ?ls)) of
         Some (s, k, v) \<Rightarrow> (LUCFG_OK, Set v) | None \<Rightarrow> (LUCFG_ERR_NOKEY, Kept))"
    using lucfg_open_lookup [OF wf, of NUL True id] by blast
  then show ?thesis using m unfolding f option.case by blast
qed

text \<open>The getters for the narrow integer types cannot be used. In whatever file, if one of the
  generated getters reports success, then the value in the file is the empty string and the result is 0:
  no number, written in whatever way, can be read with \<open>lucfg_get_int32\<close>, \<open>lucfg_get_uint16\<close> and
  the others.\<close>

lemma lucfg_narrow_getters_unusable:
  assumes "lucfg_open schar freed junk file = Some h"
  shows "\<forall>out. gen_get_signed lo hi schar h sec key = (LUCFG_OK, out) \<or>
      gen_get_unsigned hi schar h sec key = (LUCFG_OK, out) \<longrightarrow>
     out = Set 0 \<and> lucfg_get_string schar h sec key = (LUCFG_OK, Set [])"
proof (cases "find_entry schar h sec key")
  case (Some e)
  then show ?thesis using lucfg_open_entry [OF assms Some]
    by (auto simp: gen_get_signed_def gen_get_unsigned_def lucfg_get_string_def parsed_entry_def
        split: if_splits prod.splits)
qed (simp add: gen_get_signed_def gen_get_unsigned_def)

lemma lucfg_narrow_getters_unusable_witness:
  "\<exists>h. lucfg_open True id NUL (Some (concat (map render sample_cfg))) = Some h \<and>
     (\<forall>out. lucfg_get_uint16 True h ''network'' ''port'' \<noteq> (LUCFG_OK, out))"
proof -
  obtain h where h: "lucfg_open True id NUL (Some (concat (map render sample_cfg))) = Some h"
      "find_entry True h ''network'' ''port'' = map_option pair_entry
         (find (pair_hits True ''network'' ''port'') (rev (cfg_pairs [] sample_cfg)))"
    using lucfg_open_render [OF sample_cfg_wf, of NUL True id] find_entry_render by auto
  have "find (pair_hits True ''network'' ''port'') (rev (cfg_pairs [] sample_cfg)) =
      Some (''network'', ''port'', ''2*(30+12)'')"
    unfolding sample_cfg_def sample_print by (simp add: pair_hits_def c_tolower_def)
  then have "lucfg_get_string True h ''network'' ''port'' = (LUCFG_OK, Set ''2*(30+12)'')"
    using h(2) by (simp add: lucfg_get_string_def)
  then show ?thesis
    using lucfg_narrow_getters_unusable [OF h(1), of 0 "2 ^ 16 - 1" "''network''" "''port''"] h(1)
    by (auto simp: lucfg_get_uint16_def)
qed

text \<open>Integer values. If the last definition of a key has as its value an arithmetic expression
  whose value is the integer \<open>n\<close> (up to $2^{53}$ in size), \<open>lucfg_get_int\<close> returns \<open>n\<close>, whereas the
  getter of a narrow type with room for \<open>n\<close> reports a type error after it has stored \<open>n\<close>.\<close>

lemma lucfg_integer_value:
  assumes "list_all wf_line ls" "junk = NUL \<or> junk = newline"
    "find (pair_hits schar sec key) (rev (cfg_pairs [] ls)) = Some (s, k, print_at 0 a)"
    "eval a = dbl_of_int n" "\<bar>n\<bar> \<le> 2 ^ 53"
    "lo \<le> n" "n \<le> hi" "\<bar>lo\<bar> \<le> 2 ^ 53" "\<bar>hi\<bar> \<le> 2 ^ 53"
  shows "\<exists>h. lucfg_open schar freed junk (Some (concat (map render ls))) = Some h \<and>
     lucfg_get_int schar h sec key = (LUCFG_OK, Set n) \<and>
     gen_get_signed lo hi schar h sec key = (LUCFG_ERR_TYPE, Set n)"
proof -
  let ?h = "fold (insert_entry schar) (map pair_entry (cfg_pairs [] ls)) empty_handle"
  obtain e where e: "find_entry schar ?h sec key = Some e" "has_expr e" "expr_value e = dbl_of_int n" "e_type e = 2"
    using find_entry_render [of schar "cfg_pairs [] ls" sec key] assms(3) classify_print [OF assms(4,5)]
    by (simp add: pair_entry_def)
  have "dbl_to_int LONG_MIN LONG_MAX (dbl_of_int n) = Some n" "dbl_to_int lo hi (dbl_of_int n) = Some n"
    using assms(5-7) by (auto intro!: dbl_to_int_of_int simp: LONG_MIN_def LONG_MAX_def)
  then have "lucfg_get_int schar ?h sec key = (LUCFG_OK, Set n)"
    "gen_get_signed lo hi schar ?h sec key = (LUCFG_ERR_TYPE, Set n)"
    using e assms(5-9)
    by (simp_all add: lucfg_get_int_def gen_get_signed_def check_range_expr_def to_out_def dbl_less_int)
  then show ?thesis using lucfg_open_render [OF assms(1,2)] by blast
qed

lemma lucfg_integer_value_witness:
  "\<exists>h. lucfg_open True id NUL (Some (concat (map render sample_cfg))) = Some h \<and>
     lucfg_get_int True h ''network'' ''port'' = (LUCFG_OK, Set 84) \<and>
     lucfg_get_int32 True h ''network'' ''port'' = (LUCFG_ERR_TYPE, Set 84)"
proof -
  let ?a = "Mul (Lit 2) (Add (Lit 30) (Lit 12))"
  have f: "find (pair_hits True ''network'' ''port'') (rev (cfg_pairs [] sample_cfg)) =
      Some (''network'', ''port'', print_at 0 ?a)"
    unfolding sample_cfg_def sample_print by (simp add: pair_hits_def c_tolower_def)
  have "eval ?a = dbl_of_int 84" by (simp add: dbl_add_int dbl_mul_int)
  from lucfg_integer_value [OF sample_cfg_wf _ f this, of NUL "- (2 ^ 31)" "2 ^ 31 - 1" id]
  show ?thesis by (simp add: lucfg_get_int32_def)
qed

text \<open>Truth values. A value that is one of the words true, yes, on, false, no and off, in capital or
  small letters, is read by \<open>lucfg_get_bool\<close> as 1 or 0.\<close>

lemma lucfg_bool_words:
  assumes "list_all wf_line ls" "junk = NUL \<or> junk = newline"
    "find (pair_hits schar sec key) (rev (cfg_pairs [] ls)) = Some (s, k, v)"
    "str_ieq v w" "w \<in> {''true'', ''yes'', ''on'', ''false'', ''no'', ''off''}"
  shows "\<exists>h. lucfg_open schar freed junk (Some (concat (map render ls))) = Some h \<and>
     lucfg_get_bool schar h sec key =
       (LUCFG_OK, Set (if w \<in> {''true'', ''yes'', ''on''} then 1 else 0))"
  using lucfg_open_render [OF assms(1,2)] get_bool_render [OF assms(3-5)] by blast

lemma lucfg_bool_words_witness:
  "\<exists>h. lucfg_open True id NUL (Some (concat (map render sample_cfg))) = Some h \<and>
     lucfg_get_bool True h ''network'' ''debug'' = (LUCFG_OK, Set 1)"
proof -
  have f: "find (pair_hits True ''network'' ''debug'') (rev (cfg_pairs [] sample_cfg)) =
      Some (''network'', ''debug'', ''Yes'')"
    unfolding sample_cfg_def sample_print by (simp add: pair_hits_def c_tolower_def)
  have "str_ieq ''Yes'' ''yes''" by code_simp
  from lucfg_bool_words [OF sample_cfg_wf _ f this, of NUL id] show ?thesis by simp
qed

text \<open>The uninitialised cell. If the stack happens to hold another byte than NUL and newline at the
  end of the line buffer, \<open>lucfg_open\<close> refuses every file whose first line is of ordinary length.\<close>

lemma lucfg_uninitialised_cell:
  assumes "junk \<noteq> NUL" "junk \<noteq> newline" "f \<noteq> []" "length (hd (fgets_lines f)) < 1022"
  shows "lucfg_open schar freed junk (Some f) = None"
proof -
  obtain l ls where l: "fgets_lines f = l # ls"
    using assms(3) by (subst (asm) fgets_lines.simps) (simp add: Let_def fgets_lines.simps [of f])
  then show ?thesis using assms by (simp add: lucfg_open_def cell_1022_def)
qed

lemma lucfg_uninitialised_cell_witness:
  "lucfg_open True id CHR ''x'' (Some (''a = 1'' @ [newline])) = None"
proof (rule lucfg_uninitialised_cell)
  have "fgets_lines ((''a = 1'' @ [newline]) @ []) = (''a = 1'' @ [newline]) # fgets_lines []"
    by (rule fgets_line) simp_all
  then show "length (hd (fgets_lines (''a = 1'' @ [newline]))) < 1022" by simp
qed simp_all


end
