(* ===== verification/Lucpd_Cfg_Load.thy ===== *)
theory Lucpd_Cfg_Load
  imports Lucpd_Cfg Lucfg
begin

text \<open>
  Loading the configuration of the upload daemon: \<open>lucpd_cfg_load_with_file\<close>, \<open>set_file_and_port\<close>
  and \<open>lucpd_cfg_load_with_entryArgs\<close> of \<open>lucpd/src/lucpd_cfg.c\<close>, over the getters of theory Lucfg.

  The files are a function \<open>fs\<close> from paths to contents (no value: the file cannot be opened). The
  character \<open>junk\<close> is what the stack holds in the last cell of the line buffer when a file is loaded,
  \<open>freed\<close> what freed memory reads as (see theory Lucfg). The program's arguments are a list of strings
  without its name. Log messages are left out.
\<close>

section \<open>The file\<close>

text \<open>The pattern \<open>if (lucfg_get (...) == LUCFG_OK) { ... }\<close> of every setting. The getters that are
  used here store a definite value when they return \<open>LUCFG_OK\<close>.\<close>

definition when_ok :: "lucfg_rc \<times> 'a out \<Rightarrow> ('a \<Rightarrow> 'c \<Rightarrow> 'c) \<Rightarrow> 'c \<Rightarrow> 'c" where
  "when_ok r f c = (case r of (LUCFG_OK, Set v) \<Rightarrow> f v c | _ \<Rightarrow> c)"

abbreviation on_network :: "(network_cfg \<Rightarrow> network_cfg) \<Rightarrow> lucpd_config \<Rightarrow> lucpd_config" where
  "on_network f c \<equiv> c\<lparr>network := f (network c)\<rparr>"

abbreviation on_protocol :: "(protocol_cfg \<Rightarrow> protocol_cfg) \<Rightarrow> lucpd_config \<Rightarrow> lucpd_config" where
  "on_protocol f c \<equiv> c\<lparr>protocol := f (protocol c)\<rparr>"

abbreviation on_logging :: "(logging_cfg \<Rightarrow> logging_cfg) \<Rightarrow> lucpd_config \<Rightarrow> lucpd_config" where
  "on_logging f c \<equiv> c\<lparr>logging := f (logging c)\<rparr>"

abbreviation on_files :: "(file_cfg \<Rightarrow> file_cfg) \<Rightarrow> lucpd_config \<Rightarrow> lucpd_config" where
  "on_files f c \<equiv> c\<lparr>files := f (files c)\<rparr>"

definition read_network :: "bool \<Rightarrow> lucfg_handle \<Rightarrow> lucpd_config \<Rightarrow> lucpd_config" where
  "read_network schar h c =
     (let c = when_ok (lucfg_get_string schar h ''network'' ''ip'')
                (\<lambda>s. on_network (\<lambda>n. n\<lparr>net_ip := c_strncpy (net_ip n) s 63\<rparr>)) c;
          c = when_ok (lucfg_get_uint16 schar h ''network'' ''port'')
                (\<lambda>p. on_network (\<lambda>n. n\<lparr>net_port := of_int p\<rparr>)) c;
          c = when_ok (lucfg_get_int32 schar h ''network'' ''max_clients'')
                (\<lambda>v. if 0 < v \<and> v \<le> 100 then on_network (\<lambda>n. n\<lparr>max_clients := v\<rparr>) else id) c;
          c = when_ok (lucfg_get_int32 schar h ''network'' ''recv_timeout_ms'')
                (\<lambda>v. if 100 \<le> v \<and> v \<le> 10000 then on_network (\<lambda>n. n\<lparr>recv_timeout_ms := v\<rparr>) else id) c
      in when_ok (lucfg_get_int32 schar h ''network'' ''send_timeout_ms'')
           (\<lambda>v. if 100 \<le> v \<and> v \<le> 10000 then on_network (\<lambda>n. n\<lparr>send_timeout_ms := v\<rparr>) else id) c)"

definition read_protocol :: "bool \<Rightarrow> lucfg_handle \<Rightarrow> lucpd_config \<Rightarrow> lucpd_config" where
  "read_protocol schar h c =
     (let c = when_ok (lucfg_get_int32 schar h ''protocol'' ''rate_limit_ms'')
                (\<lambda>v. if 1000 \<le> v \<and> v \<le> 60000 then on_protocol (\<lambda>p. p\<lparr>rate_limit_ms := v\<rparr>) else id) c;
          c = when_ok (lucfg_get_int32 schar h ''protocol'' ''session_timeout_ms'')
                (\<lambda>v. if 1000 \<le> v \<and> v \<le> 30000 then on_protocol (\<lambda>p. p\<lparr>session_timeout_ms := v\<rparr>) else id) c;
          c = when_ok (lucfg_get_bool schar h ''protocol'' ''validate_version'')
                (\<lambda>v. if v = 0 \<or> v = 1 then on_protocol (\<lambda>p. p\<lparr>validate_version := v \<noteq> 0\<rparr>) else id) c
      in when_ok (lucfg_get_bool schar h ''protocol'' ''validate_crc16'')
           (\<lambda>v. if v = 0 \<or> v = 1 then on_protocol (\<lambda>p. p\<lparr>validate_crc16 := v \<noteq> 0\<rparr>) else id) c)"

definition read_logging :: "bool \<Rightarrow> lucfg_handle \<Rightarrow> lucpd_config \<Rightarrow> lucpd_config" where
  "read_logging schar h c =
     (let c = when_ok (lucfg_get_string schar h ''logging'' ''log_level'')
                (\<lambda>s. on_logging (\<lambda>l. l\<lparr>log_level := c_strncpy (log_level l) s 15\<rparr>)) c
      in when_ok (lucfg_get_string schar h ''logging'' ''log_file'')
           (\<lambda>s. on_logging (\<lambda>l. l\<lparr>log_file := c_strncpy (log_file l) s 255\<rparr>)) c)"

definition read_file :: "bool \<Rightarrow> lucfg_handle \<Rightarrow> lucpd_config \<Rightarrow> lucpd_config" where
  "read_file schar h c =
     (let c = when_ok (lucfg_get_string schar h ''file'' ''tmp_dir'')
                (\<lambda>s. on_files (\<lambda>f. f\<lparr>tmp_dir := c_strncpy (tmp_dir f) s 255\<rparr>)) c
      in when_ok (lucfg_get_int32 schar h ''file'' ''file_retention_min'')
           (\<lambda>v. if 5 \<le> v \<and> v \<le> 1440 then on_files (\<lambda>f. f\<lparr>file_retention_min := v\<rparr>) else id) c)"

definition lucpd_cfg_load_with_file ::
  "bool \<Rightarrow> (string \<Rightarrow> string) \<Rightarrow> char \<Rightarrow> (string \<Rightarrow> string option) \<Rightarrow> lucpd_config option \<Rightarrow> string \<Rightarrow>
     int \<times> lucpd_config option" where
  "lucpd_cfg_load_with_file schar freed junk fs cfg config_file =
     (case cfg of
        None \<Rightarrow> (-1, None)
      | Some c \<Rightarrow>
          let c = set_default_config c in
          (case lucfg_open schar freed junk (fs config_file) of
             None \<Rightarrow> (-1, Some c)
           | Some h \<Rightarrow>
               (0, Some (read_file schar h (read_logging schar h (read_protocol schar h (read_network schar h c)))))))"

section \<open>The command line\<close>

text \<open>\<open>atoi\<close>: \<open>strtol\<close> cut down to 32 bits.\<close>

definition c_atoi :: "string \<Rightarrow> int" where
  "c_atoi s = sint (of_int (fst (strtol s)) :: 32 word)"

definition set_file_and_port ::
  "bool \<Rightarrow> (string \<Rightarrow> string) \<Rightarrow> char \<Rightarrow> (string \<Rightarrow> string option) \<Rightarrow> lucpd_config option \<Rightarrow>
     string \<Rightarrow> int \<Rightarrow> bool \<Rightarrow> lucpd_config option" where
  "set_file_and_port schar freed junk fs cfg file port hassetc =
     (let cfg = snd (lucpd_cfg_load_with_file schar freed junk fs cfg file)
      in if hassetc then map_option (on_network (\<lambda>n. n\<lparr>net_port := of_int port\<rparr>)) cfg else cfg)"

text \<open>The loop over the arguments: the code to return and the three local variables.\<close>

fun scan_args :: "string list \<Rightarrow> string \<times> int \<times> bool \<Rightarrow> int \<times> string \<times> int \<times> bool" where
  "scan_args [] st = (0, st)"
| "scan_args (a # args) (cfgpath, port, hassetc) =
     (if a = ''-c'' then
        (case args of
           path # args' \<Rightarrow> scan_args args' (path, port, hassetc)
         | [] \<Rightarrow> (-1, cfgpath, port, hassetc))
      else if a = ''-p'' then
        (case args of
           v # args' \<Rightarrow>
             let input_port = c_atoi v in
             if input_port \<le> 0 \<or> 65535 < input_port then (-1, cfgpath, port, hassetc)
             else scan_args args' (cfgpath, input_port, True)
         | [] \<Rightarrow> (-1, cfgpath, port, hassetc))
      else (-1, cfgpath, port, hassetc))"

definition lucpd_cfg_load_with_entryArgs ::
  "bool \<Rightarrow> (string \<Rightarrow> string) \<Rightarrow> char \<Rightarrow> (string \<Rightarrow> string option) \<Rightarrow> lucpd_config option \<Rightarrow> string list \<Rightarrow>
     int \<times> lucpd_config option" where
  "lucpd_cfg_load_with_entryArgs schar freed junk fs cfg args =
     (case scan_args args (LUCPD_DEFAULT_CFG_FILE, LUCPD_DEFAULT_PORT, False) of
        (rc, cfgpath, port, hassetc) \<Rightarrow>
          (rc, set_file_and_port schar freed junk fs cfg cfgpath port hassetc))"

section \<open>Reading the settings\<close>

lemma when_ok_simps [simp]:
  "when_ok (LUCFG_OK, Set v) f c = f v c"
  "rc \<noteq> LUCFG_OK \<Longrightarrow> when_ok (rc, out) f c = c"
  by (auto simp: when_ok_def split: lucfg_rc.split)

text \<open>The narrow getters give nothing but 0.\<close>

lemma open_narrow:
  assumes "lucfg_open schar freed junk file = Some h"
  shows "when_ok (lucfg_get_int32 schar h sec key) f c \<in> {c, f 0 c}"
    "when_ok (lucfg_get_uint16 schar h sec key) f c \<in> {c, f 0 c}"
  using lucfg_open_entry [OF assms]
  by (auto simp: lucfg_get_int32_def lucfg_get_uint16_def gen_get_signed_def gen_get_unsigned_def
      when_ok_def parsed_entry_def split: option.splits if_splits prod.splits lucfg_rc.splits out.splits)

lemma open_narrow_ranged:
  assumes "lucfg_open schar freed junk file = Some h" "f 0 = id"
  shows "when_ok (lucfg_get_int32 schar h sec key) f c = c"
  using open_narrow(1) [OF assms(1), of sec key f c] assms(2) by simp

text \<open>The settings with a number, all of them at their defaults but for the port.\<close>

definition numbers_default :: "lucpd_config \<Rightarrow> bool" where
  "numbers_default c \<longleftrightarrow> net_port (network c) \<in> {32100, 0} \<and> max_clients (network c) = 10 \<and>
     recv_timeout_ms (network c) = 1000 \<and> send_timeout_ms (network c) = 1000 \<and>
     rate_limit_ms (protocol c) = 3000 \<and> session_timeout_ms (protocol c) = 2000 \<and>
     file_retention_min (files c) = 30"

lemma when_ok_pres: "P c \<Longrightarrow> (\<And>v. P c \<Longrightarrow> P (f v c)) \<Longrightarrow> P (when_ok r f c)"
  by (auto simp: when_ok_def split: prod.split lucfg_rc.split out.split)

lemma numbers_default_cfg: "numbers_default (set_default_config c)"
  by (simp add: numbers_default_def set_default_config_def LUCPD_DEFAULT_PORT_def)

lemma read_numbers:
  assumes h: "lucfg_open schar freed junk file = Some h" and c: "numbers_default c"
  shows "numbers_default (read_network schar h c)" "numbers_default (read_protocol schar h c)"
    "numbers_default (read_logging schar h c)" "numbers_default (read_file schar h c)"
proof -
  let ?set = "\<lambda>p. on_network (\<lambda>n. n\<lparr>net_port := of_int p\<rparr>)"
  have port: "numbers_default (when_ok (lucfg_get_uint16 schar h sec key) ?set c)"
    if d: "numbers_default c" for sec key c
    using open_narrow(2) [OF h, of sec key ?set c] d by (auto simp: numbers_default_def)
  note ranged = open_narrow_ranged [OF h]
  note pres = when_ok_pres [where P = numbers_default, OF c]
  show "numbers_default (read_network schar h c)"
    unfolding read_network_def Let_def by (simp add: ranged, rule port, rule pres) (simp add: numbers_default_def)
  show "numbers_default (read_protocol schar h c)"
    unfolding read_protocol_def Let_def
    by (simp add: ranged, rule when_ok_pres, rule pres) (simp_all add: numbers_default_def)
  show "numbers_default (read_logging schar h c)"
    unfolding read_logging_def Let_def
    by (rule when_ok_pres, rule pres) (simp_all add: numbers_default_def)
  show "numbers_default (read_file schar h c)"
    unfolding read_file_def Let_def
    by (simp add: ranged, rule pres) (simp add: numbers_default_def)
qed

lemma load_numbers:
  "\<exists>rc c'. lucpd_cfg_load_with_file schar freed junk fs (Some c) path = (rc, Some c') \<and> numbers_default c'"
proof (cases "lucfg_open schar freed junk (fs path)")
  case (Some h)
  show ?thesis
    by (simp add: lucpd_cfg_load_with_file_def Some read_numbers [OF Some] numbers_default_cfg)
qed (simp add: lucpd_cfg_load_with_file_def numbers_default_cfg)

section \<open>The arguments\<close>

text \<open>The ports of the well-formed \<open>-p\<close> options.\<close>

fun arg_ports :: "string list \<Rightarrow> int set" where
  "arg_ports (a # v # args) = (if a = ''-p'' then {c_atoi v} \<inter> {1..65535} else {}) \<union> arg_ports (v # args)"
| "arg_ports _ = {}"

lemma scan_args_port:
  assumes "scan_args args (path0, port0, set0) = (rc, path, port, isset)"
  shows "isset \<and> port \<in> arg_ports args \<or> port = port0 \<and> isset = set0"
  using assms
proof (induction args "(path0, port0, set0)" arbitrary: path0 port0 set0 rule: scan_args.induct)
  case (2 a args path0 port0 set0)
  show ?case
  proof (cases args)
    case (Cons v args')
    have up: "arg_ports args' \<subseteq> arg_ports args" by (cases args') (auto simp: Cons)
    show ?thesis using 2(1) [OF _ Cons] 2(2) [OF _ _ Cons refl] 2(3) up
      by (auto simp: Cons Let_def split: if_splits)
  qed (use 2(3) in \<open>auto split: if_splits\<close>)
qed simp


text \<open>Options as a user means them: a path or a port, and a rest that ends the parsing.\<close>

datatype opt = Opt_c string | Opt_p string

primrec opt_args :: "opt \<Rightarrow> string list" where
  "opt_args (Opt_c path) = [''-c'', path]"
| "opt_args (Opt_p v) = [''-p'', v]"

primrec opt_ok :: "opt \<Rightarrow> bool" where
  "opt_ok (Opt_c path) = True"
| "opt_ok (Opt_p v) = (1 \<le> c_atoi v \<and> c_atoi v \<le> 65535)"

primrec opt_set :: "opt \<Rightarrow> string \<times> int \<times> bool \<Rightarrow> string \<times> int \<times> bool" where
  "opt_set (Opt_c path) st = (path, snd st)"
| "opt_set (Opt_p v) st = (fst st, c_atoi v, True)"

definition malformed :: "string list \<Rightarrow> bool" where
  "malformed args =
     (case args of
        [] \<Rightarrow> False
      | a # as \<Rightarrow> if a = ''-c'' then as = []
                  else if a = ''-p'' then as = [] \<or> c_atoi (hd as) \<le> 0 \<or> 65535 < c_atoi (hd as)
                  else True)"

lemma scan_malformed: "malformed args \<Longrightarrow> scan_args args st = (-1, st)"
  by (cases st; cases args) (auto simp: malformed_def split: if_splits list.splits)

lemma scan_opts:
  "list_all opt_ok opts \<Longrightarrow> scan_args (concat (map opt_args opts) @ args) st = scan_args args (fold opt_set opts st)"
proof (induction opts arbitrary: st)
  case (Cons o' opts)
  then show ?case by (cases o'; cases st) auto
qed simp

section \<open>Text settings\<close>

text \<open>A character array of \<open>n\<close> + 1 cells whose last one is NUL: what the loader relies on, and keeps.\<close>

definition terminated :: "nat \<Rightarrow> string \<Rightarrow> bool" where
  "terminated n buf \<longleftrightarrow> length buf = Suc n \<and> buf ! n = NUL"

lemma c_strncpy_terminated:
  assumes "terminated n dst"
  shows "c_str (c_strncpy dst src n) = take n (c_str src)" "terminated n (c_strncpy dst src n)"
proof -
  show "c_str (c_strncpy dst src n) = take n (c_str src)"
    using assms c_strncpy_fits [of src n dst] c_strncpy_cut [of n src dst]
    by (cases "length (c_str src) < n") (auto simp: terminated_def)
  have "min (length (c_str src)) n + (n - length (c_str src)) = n" by simp
  then show "terminated n (c_strncpy dst src n)"
    using assms by (auto simp: terminated_def c_strncpy_def put_bytes_0 nth_append)
qed

lemma terminated_update: "terminated n buf \<Longrightarrow> 0 < n \<Longrightarrow> terminated n (buf[0 := x])"
  by (simp add: terminated_def)

lemma c_str_head_NUL: "buf \<noteq> [] \<Longrightarrow> c_str (buf[0 := NUL]) = []"
  by (cases buf) (simp_all add: c_str_def)

section \<open>Well-formed configurations\<close>

text \<open>The character arrays have their sizes and end with a NUL.\<close>

definition texts_ok :: "lucpd_config \<Rightarrow> bool" where
  "texts_ok c \<longleftrightarrow> terminated 63 (net_ip (network c)) \<and> terminated 15 (log_level (logging c)) \<and>
     terminated 255 (log_file (logging c)) \<and> terminated 255 (tmp_dir (files c))"

text \<open>The numbers are in the ranges that the loader tests for.\<close>

definition numbers_ok :: "lucpd_config \<Rightarrow> bool" where
  "numbers_ok c \<longleftrightarrow> max_clients (network c) \<in> {1..100} \<and> recv_timeout_ms (network c) \<in> {100..10000} \<and>
     send_timeout_ms (network c) \<in> {100..10000} \<and> rate_limit_ms (protocol c) \<in> {1000..60000} \<and>
     session_timeout_ms (protocol c) \<in> {1000..30000} \<and> file_retention_min (files c) \<in> {5..1440}"

definition wf_config :: "lucpd_config \<Rightarrow> bool" where
  "wf_config c \<longleftrightarrow> texts_ok c \<and> numbers_ok c"

lemma terminated_replicate: "terminated n (replicate (Suc n) NUL)"
  unfolding terminated_def by (simp del: replicate.simps)

lemma zero_config_texts: "texts_ok zero_config"
  using terminated_replicate [of 63] terminated_replicate [of 15] terminated_replicate [of 255]
  by (simp add: texts_ok_def zero_config_def)

lemma set_default_wf: "texts_ok c \<Longrightarrow> wf_config (set_default_config c)"
  by (simp add: wf_config_def texts_ok_def numbers_ok_def set_default_config_def c_strncpy_terminated(2) terminated_update)

text \<open>A setting keeps the invariant if it does so for every value it lets through.\<close>

lemma wf_text:
  "wf_config c \<Longrightarrow> wf_config (on_network (\<lambda>n. n\<lparr>net_ip := c_strncpy (net_ip n) s 63\<rparr>) c)"
  "wf_config c \<Longrightarrow> wf_config (on_logging (\<lambda>l. l\<lparr>log_level := c_strncpy (log_level l) s 15\<rparr>) c)"
  "wf_config c \<Longrightarrow> wf_config (on_logging (\<lambda>l. l\<lparr>log_file := c_strncpy (log_file l) s 255\<rparr>) c)"
  "wf_config c \<Longrightarrow> wf_config (on_files (\<lambda>f. f\<lparr>tmp_dir := c_strncpy (tmp_dir f) s 255\<rparr>) c)"
  by (simp_all add: wf_config_def texts_ok_def numbers_ok_def c_strncpy_terminated(2))

lemma wf_reads:
  assumes "wf_config c"
  shows "wf_config (read_network schar h c)" "wf_config (read_protocol schar h c)"
    "wf_config (read_logging schar h c)" "wf_config (read_file schar h c)"
  using assms unfolding read_network_def read_protocol_def read_logging_def read_file_def Let_def
  by (intro when_ok_pres [where P = wf_config] wf_text;
      simp add: wf_config_def texts_ok_def numbers_ok_def)+

lemma load_wf:
  assumes "texts_ok c"
  shows "\<exists>rc c'. lucpd_cfg_load_with_file schar freed junk fs (Some c) path = (rc, Some c') \<and> wf_config c'"
proof (cases "lucfg_open schar freed junk (fs path)")
  case (Some h)
  then show ?thesis by (simp add: lucpd_cfg_load_with_file_def Let_def wf_reads set_default_wf [OF assms])
qed (simp add: lucpd_cfg_load_with_file_def set_default_wf [OF assms])

lemma when_ok_other: "(\<And>v c. g (f v c) = g c) \<Longrightarrow> g (when_ok r f c) = g c"
  by (auto simp: when_ok_def split: prod.split lucfg_rc.split out.split)

lemmas when_ok_fields = when_ok_other [where g = network] when_ok_other [where g = protocol]
  when_ok_other [where g = logging] when_ok_other [where g = files]

lemma read_frames [simp]:
  "network (read_protocol schar h c) = network c" "logging (read_protocol schar h c) = logging c"
  "files (read_protocol schar h c) = files c"
  "logging (read_network schar h c) = logging c" "files (read_network schar h c) = files c"
  "protocol (read_network schar h c) = protocol c"
  "network (read_logging schar h c) = network c" "protocol (read_logging schar h c) = protocol c"
  "files (read_logging schar h c) = files c"
  "network (read_file schar h c) = network c" "protocol (read_file schar h c) = protocol c"
  "logging (read_file schar h c) = logging c"
  by (simp_all add: read_network_def read_protocol_def read_logging_def read_file_def when_ok_fields)

section \<open>The port\<close>

text \<open>The port after the load of a file: the built-in one, or 0, which only an empty text in the file brings about.\<close>

definition port_blank :: "bool \<Rightarrow> (string \<Rightarrow> string) \<Rightarrow> char \<Rightarrow> string option \<Rightarrow> bool" where
  "port_blank schar freed junk file \<longleftrightarrow>
     (\<exists>h. lucfg_open schar freed junk file = Some h \<and> lucfg_get_string schar h ''network'' ''port'' = (LUCFG_OK, Set []))"

lemma open_port:
  assumes "lucfg_open schar freed junk file = Some h"
  shows "when_ok (lucfg_get_uint16 schar h sec key) f c = c \<or>
     when_ok (lucfg_get_uint16 schar h sec key) f c = f 0 c \<and> lucfg_get_string schar h sec key = (LUCFG_OK, Set [])"
proof -
  obtain rc out where g: "lucfg_get_uint16 schar h sec key = (rc, out)" by fastforce
  show ?thesis
  proof (cases "rc = LUCFG_OK")
    case True
    then have "out = Set 0 \<and> lucfg_get_string schar h sec key = (LUCFG_OK, Set [])"
      using lucfg_narrow_getters_unusable [OF assms] g unfolding lucfg_get_uint16_def by metis
    then show ?thesis using g True by simp
  qed (simp add: g)
qed

lemma load_port:
  assumes "lucpd_cfg_load_with_file schar freed junk fs (Some c) path = (rc, Some c')"
  shows "net_port (network c') = of_int LUCPD_DEFAULT_PORT \<or>
     net_port (network c') = 0 \<and> port_blank schar freed junk (fs path)"
proof (cases "lucfg_open schar freed junk (fs path)")
  case None
  then show ?thesis using assms by (auto simp: lucpd_cfg_load_with_file_def set_default_config_def)
next
  case (Some h)
  let ?set = "\<lambda>p. on_network (\<lambda>n. n\<lparr>net_port := of_int p\<rparr>)"
  have other: "net_port (network (when_ok r f c)) = net_port (network c)"
    if "\<And>v c. net_port (network (f v c)) = net_port (network c)" for r :: "lucfg_rc \<times> string out" and f c
    using that by (auto simp: when_ok_def split: prod.split lucfg_rc.split out.split)
  have fields: "network (read_file schar h c) = network c" "network (read_logging schar h c) = network c"
    "network (read_protocol schar h c) = network c" for c
    by (simp_all add: read_frames)
  have "c' = read_file schar h (read_logging schar h (read_protocol schar h (read_network schar h (set_default_config c))))"
    using assms Some by (simp add: lucpd_cfg_load_with_file_def Let_def)
  then have p: "net_port (network c') = net_port (network (read_network schar h (set_default_config c)))"
    by simp
  have "net_port (network (read_network schar h (set_default_config c))) = net_port (network (set_default_config c)) \<or>
      net_port (network (read_network schar h (set_default_config c))) = 0 \<and>
      lucfg_get_string schar h ''network'' ''port'' = (LUCFG_OK, Set [])"
  proof -
    define c1 where "c1 = when_ok (lucfg_get_string schar h ''network'' ''ip'')
        (\<lambda>s. on_network (\<lambda>n. n\<lparr>net_ip := c_strncpy (net_ip n) s 63\<rparr>)) (set_default_config c)"
    have c1: "net_port (network c1) = net_port (network (set_default_config c))" unfolding c1_def by (rule other) simp
    show ?thesis
      unfolding read_network_def Let_def c1_def [symmetric]
      using open_port [OF Some, of "''network''" "''port''" ?set c1] c1
      by (auto simp: open_narrow_ranged [OF Some])
  qed
  then show ?thesis using p Some by (auto simp: port_blank_def set_default_config_def)
qed

section \<open>The settings of a file\<close>

text \<open>The text that the code finds in a file for a key.\<close>

definition setting_at :: "bool \<Rightarrow> cline list \<Rightarrow> string \<Rightarrow> string \<Rightarrow> string option" where
  "setting_at schar ls sec key =
     map_option (\<lambda>(s, k, v). v) (find (pair_hits schar sec key) (rev (cfg_pairs [] ls)))"

lemma cfg_pairs_no_NUL:
  "list_all wf_line ls \<Longrightarrow> (s, k, v) \<in> set (cfg_pairs sec ls) \<Longrightarrow> NUL \<notin> set v"
  by (induction sec ls rule: cfg_pairs.induct) (auto simp: word_ok_def plain_def)

lemma setting_no_NUL:
  assumes "list_all wf_line ls" "setting_at schar ls sec key = Some v"
  shows "c_str v = v"
proof -
  obtain s k where "find (pair_hits schar sec key) (rev (cfg_pairs [] ls)) = Some (s, k, v)"
    using assms(2) by (auto simp: setting_at_def)
  then have "(s, k, v) \<in> set (cfg_pairs [] ls)" by (metis find_Some_iff nth_mem set_rev)
  then show ?thesis using cfg_pairs_no_NUL [OF assms(1)] by (blast intro: c_str_id)
qed

text \<open>The handle of a file, and what the getters of the loader give on it.\<close>

definition handle_of :: "bool \<Rightarrow> cline list \<Rightarrow> lucfg_handle" where
  "handle_of schar ls = fold (insert_entry schar) (map pair_entry (cfg_pairs [] ls)) empty_handle"

lemma string_setting:
  "when_ok (lucfg_get_string schar (handle_of schar ls) sec key) f c =
     (case setting_at schar ls sec key of Some v \<Rightarrow> f v c | None \<Rightarrow> c)"
  by (auto simp: setting_at_def handle_of_def lucfg_get_string_def find_entry_render split: option.split)

lemma bool_setting_none:
  assumes "setting_at schar ls sec key = None"
  shows "when_ok (lucfg_get_bool schar (handle_of schar ls) sec key) f c = c"
proof -
  have "find_entry schar (handle_of schar ls) sec key = None"
    using assms unfolding setting_at_def handle_of_def find_entry_render by simp
  then show ?thesis by (simp add: lucfg_get_bool_def)
qed

lemma bool_setting_word:
  assumes "setting_at schar ls sec key = Some v" "str_ieq v w"
    "w \<in> {''true'', ''yes'', ''on'', ''false'', ''no'', ''off''}"
  shows "when_ok (lucfg_get_bool schar (handle_of schar ls) sec key) f c =
     f (if w \<in> {''true'', ''yes'', ''on''} then 1 else 0) c"
proof -
  obtain s k where "find (pair_hits schar sec key) (rev (cfg_pairs [] ls)) = Some (s, k, v)"
    using assms(1) by (auto simp: setting_at_def)
  from get_bool_render [OF this assms(2,3)] show ?thesis unfolding handle_of_def by (simp only: when_ok_simps)
qed

text \<open>The text in an array after a load: the setting, cut to the array, or the default.\<close>

definition text_or :: "string \<Rightarrow> nat \<Rightarrow> string option \<Rightarrow> string" where
  "text_or dflt n v = (case v of Some s \<Rightarrow> take n s | None \<Rightarrow> dflt)"

lemma load_ip:
  assumes ls: "list_all wf_line ls" and c: "terminated 63 (net_ip (network c))"
  shows "c_str (net_ip (network (read_network schar (handle_of schar ls) c))) =
      text_or (c_str (net_ip (network c))) 63 (setting_at schar ls ''network'' ''ip'')"
proof -
  note other = when_ok_other [where g = "\<lambda>c. net_ip (network c)"]
  show ?thesis unfolding read_network_def Let_def
    by (subst other, simp, subst other, simp, subst other, simp, subst other, simp)
      (use c in \<open>auto simp: string_setting c_strncpy_terminated(1) setting_no_NUL [OF ls] text_or_def split: option.split\<close>)
qed

lemma load_log_level:
  assumes ls: "list_all wf_line ls" and c: "terminated 15 (log_level (logging c))"
  shows "c_str (log_level (logging (read_logging schar (handle_of schar ls) c))) =
      text_or (c_str (log_level (logging c))) 15 (setting_at schar ls ''logging'' ''log_level'')"
  using c
  by (auto simp: read_logging_def string_setting c_strncpy_terminated(1) setting_no_NUL [OF ls] text_or_def split: option.split)

lemma load_log_file:
  assumes ls: "list_all wf_line ls" and c: "terminated 255 (log_file (logging c))"
  shows "c_str (log_file (logging (read_logging schar (handle_of schar ls) c))) =
      text_or (c_str (log_file (logging c))) 255 (setting_at schar ls ''logging'' ''log_file'')"
  using c
  by (auto simp: read_logging_def string_setting c_strncpy_terminated(1) setting_no_NUL [OF ls] text_or_def split: option.split)

lemma load_tmp_dir:
  assumes ls: "list_all wf_line ls" and c: "terminated 255 (tmp_dir (files c))"
  shows "c_str (tmp_dir (files (read_file schar (handle_of schar ls) c))) =
      text_or (c_str (tmp_dir (files c))) 255 (setting_at schar ls ''file'' ''tmp_dir'')"
proof -
  note other = when_ok_other [where g = "\<lambda>c. tmp_dir (files c)"]
  show ?thesis unfolding read_file_def Let_def
    by (subst other, simp)
      (use c in \<open>auto simp: string_setting c_strncpy_terminated(1) setting_no_NUL [OF ls] text_or_def split: option.split\<close>)
qed

text \<open>The truth value of a word; no value for other texts.\<close>

definition true_words :: "string set" where "true_words = set [''true'', ''yes'', ''on'']"
definition false_words :: "string set" where "false_words = set [''false'', ''no'', ''off'']"

definition flag_or :: "bool \<Rightarrow> string option \<Rightarrow> bool option" where
  "flag_or dflt v =
     (case v of
        None \<Rightarrow> Some dflt
      | Some s \<Rightarrow>
          if map c_tolower s \<in> true_words then Some True
          else if map c_tolower s \<in> false_words then Some False else None)"

lemma c_tolower_idem [simp]: "c_tolower (c_tolower c) = c_tolower c"
  by (simp add: c_tolower_def)

lemma flag_setting:
  assumes "flag_or (get c) (setting_at schar ls sec key) = Some b" "\<And>b. get (put b c) = b"
  shows "get (when_ok (lucfg_get_bool schar (handle_of schar ls) sec key)
     (\<lambda>v. if v = 0 \<or> v = 1 then put (v \<noteq> 0) else id) c) = b"
proof (cases "setting_at schar ls sec key")
  case (Some v)
  let ?w = "map c_tolower v"
  have e: "{''true'', ''yes'', ''on'', ''false'', ''no'', ''off''} = true_words \<union> false_words"
    "{''true'', ''yes'', ''on''} = true_words"
    by (auto simp: true_words_def false_words_def)
  have "str_ieq v ?w" by (simp add: str_ieq_tolower)
  moreover have "?w \<in> true_words \<union> false_words" "b = (?w \<in> true_words)"
    using assms(1) by (auto simp: Some flag_or_def split: if_splits)
  ultimately show ?thesis using assms(2)
    by (subst bool_setting_word [OF Some, of ?w, unfolded e]) simp_all
qed (use assms(1) in \<open>simp add: bool_setting_none flag_or_def\<close>)

lemma load_flags:
  "flag_or (validate_version (protocol c)) (setting_at schar ls ''protocol'' ''validate_version'') = Some b \<Longrightarrow>
     validate_version (protocol (read_protocol schar (handle_of schar ls) c)) = b"
  "flag_or (validate_crc16 (protocol c)) (setting_at schar ls ''protocol'' ''validate_crc16'') = Some b \<Longrightarrow>
     validate_crc16 (protocol (read_protocol schar (handle_of schar ls) c)) = b"
proof -
  note other = when_ok_other [where g = "\<lambda>c. validate_version (protocol c)"]
    when_ok_other [where g = "\<lambda>c. validate_crc16 (protocol c)"]
  note set_version = flag_setting [where get = "\<lambda>c. validate_version (protocol c)" and
      put = "\<lambda>b. on_protocol (\<lambda>p. p\<lparr>validate_version := b\<rparr>)"]
  note set_crc16 = flag_setting [where get = "\<lambda>c. validate_crc16 (protocol c)" and
      put = "\<lambda>b. on_protocol (\<lambda>p. p\<lparr>validate_crc16 := b\<rparr>)"]
  show "validate_version (protocol (read_protocol schar (handle_of schar ls) c)) = b"
    if f: "flag_or (validate_version (protocol c)) (setting_at schar ls ''protocol'' ''validate_version'') = Some b"
    unfolding read_protocol_def Let_def
  proof (subst other(1), simp, rule set_version, subst other(1), simp, subst other(1))
  qed (use f in simp_all)
  show "validate_crc16 (protocol (read_protocol schar (handle_of schar ls) c)) = b"
    if f: "flag_or (validate_crc16 (protocol c)) (setting_at schar ls ''protocol'' ''validate_crc16'') = Some b"
    unfolding read_protocol_def Let_def
  proof (rule set_crc16, subst other(2), simp, subst other(2), simp, subst other(2))
  qed (use f in simp_all)
qed

lemma default_terminated:
  "terminated 63 (net_ip (network (set_default_config zero_config)))"
  "terminated 15 (log_level (logging (set_default_config zero_config)))"
  "terminated 255 (log_file (logging (set_default_config zero_config)))"
  "terminated 255 (tmp_dir (files (set_default_config zero_config)))"
  using set_default_wf [OF zero_config_texts] by (simp_all add: wf_config_def texts_ok_def)

lemma default_texts:
  "c_str (net_ip (network (set_default_config zero_config))) = ''127.0.0.1''"
  "c_str (log_level (logging (set_default_config zero_config))) = ''DEBUG''"
  "c_str (log_file (logging (set_default_config zero_config))) = []"
  "c_str (tmp_dir (files (set_default_config zero_config))) = ''/tmp/lucp''"
proof -
  note d = set_default_config_def zero_config_def LUCPD_DEFAULT_IP_def
  have t: "terminated 63 (replicate 64 NUL)" "terminated 15 (replicate 16 NUL)" "terminated 255 (replicate 256 NUL)"
    using zero_config_texts by (simp_all add: texts_ok_def zero_config_def)
  show "c_str (net_ip (network (set_default_config zero_config))) = ''127.0.0.1''"
    "c_str (log_level (logging (set_default_config zero_config))) = ''DEBUG''"
    "c_str (tmp_dir (files (set_default_config zero_config))) = ''/tmp/lucp''"
    by (simp_all add: d c_strncpy_terminated(1) t c_str_id)
  show "c_str (log_file (logging (set_default_config zero_config))) = []"
    by (simp add: d c_str_head_NUL)
qed

section \<open>The documented settings\<close>

text \<open>The text that a file defines for a key by the rules of \<open>lucfg.h\<close>.\<close>

definition setting :: "cline list \<Rightarrow> string \<Rightarrow> string \<Rightarrow> string option" where
  "setting ls sec key = map_option (\<lambda>(s, k, v). v) (find (names_match sec key) (rev (cfg_pairs [] ls)))"

text \<open>A file that writes all names of sections and keys in small letters, and no white space around a section.\<close>

definition small_names :: "cline list \<Rightarrow> bool" where
  "small_names ls \<longleftrightarrow> (\<forall>(s, k, v) \<in> set (cfg_pairs [] ls). map c_tolower s = s \<and> map c_tolower k = k \<and> trim s = s)"

lemma small_spelled:
  assumes "small_names ls" "map c_tolower sec = sec" "map c_tolower key = key" "trim sec = sec"
  shows "spelled_as sec key ls"
proof -
  have "s = sec \<and> k = key" if "(s, k, v) \<in> set (cfg_pairs [] ls)" "names_match sec key (s, k, v)" for s k v
    using that assms by (auto simp: small_names_def names_match_def str_ieq_tolower)
  then show ?thesis using assms(4) by (auto simp: spelled_as_def)
qed

text \<open>The keys that the loader asks for.\<close>

definition known_keys :: "(string \<times> string) set" where
  "known_keys = {(''network'', ''ip''), (''logging'', ''log_level''), (''logging'', ''log_file''), (''file'', ''tmp_dir''),
     (''protocol'', ''validate_version''), (''protocol'', ''validate_crc16'')}"

lemma known_small:
  "map c_tolower ''network'' = ''network''" "map c_tolower ''logging'' = ''logging''" "map c_tolower ''file'' = ''file''"
  "map c_tolower ''protocol'' = ''protocol''" "map c_tolower ''ip'' = ''ip''" "map c_tolower ''log_level'' = ''log_level''"
  "map c_tolower ''log_file'' = ''log_file''" "map c_tolower ''tmp_dir'' = ''tmp_dir''"
  "map c_tolower ''validate_version'' = ''validate_version''" "map c_tolower ''validate_crc16'' = ''validate_crc16''"
  "trim ''network'' = ''network''" "trim ''logging'' = ''logging''" "trim ''file'' = ''file''" "trim ''protocol'' = ''protocol''"
  by (simp_all add: c_tolower_def trim_def c_isspace_def)

lemma setting_at_known:
  assumes "small_names ls" "(sec, key) \<in> known_keys"
  shows "setting_at schar ls sec key = setting ls sec key"
proof -
  have "map c_tolower sec = sec" "map c_tolower key = key" "trim sec = sec"
    using assms(2) unfolding known_keys_def by (elim insertE emptyE; simp only: known_small prod.inject)+
  then show ?thesis
    unfolding setting_at_def setting_def using find_names_match [OF small_spelled [OF assms(1)]] by simp
qed

section \<open>Properties\<close>

text \<open>No number of the configuration file reaches the daemon. Whatever the file and the arguments
  say, the limits and times are the built-in ones after the load, and the port is the one of a valid
  \<open>-p\<close> option, the built-in one or 0.\<close>

lemma lucpd_cfg_numbers_ignored:
  "\<exists>rc c'. lucpd_cfg_load_with_entryArgs schar freed junk fs (Some c) args = (rc, Some c') \<and>
     max_clients (network c') = 10 \<and> recv_timeout_ms (network c') = 1000 \<and>
     send_timeout_ms (network c') = 1000 \<and> rate_limit_ms (protocol c') = 3000 \<and>
     session_timeout_ms (protocol c') = 2000 \<and> file_retention_min (files c') = 30 \<and>
     net_port (network c') \<in> {of_int LUCPD_DEFAULT_PORT, 0} \<union> of_int ` arg_ports args"
proof -
  obtain rc path port isset where a: "scan_args args (LUCPD_DEFAULT_CFG_FILE, LUCPD_DEFAULT_PORT, False) = (rc, path, port, isset)"
    by (cases "scan_args args (LUCPD_DEFAULT_CFG_FILE, LUCPD_DEFAULT_PORT, False)") auto
  obtain rc' c' where l: "lucpd_cfg_load_with_file schar freed junk fs (Some c) path = (rc', Some c')" "numbers_default c'"
    using load_numbers by blast
  have "lucpd_cfg_load_with_entryArgs schar freed junk fs (Some c) args =
      (rc, Some (if isset then on_network (\<lambda>n. n\<lparr>net_port := of_int port\<rparr>) c' else c'))"
    by (simp add: lucpd_cfg_load_with_entryArgs_def a set_file_and_port_def l(1))
  then show ?thesis using scan_args_port [OF a] l(2)
    by (auto simp: numbers_default_def LUCPD_DEFAULT_PORT_def)
qed

text \<open>C33. The configuration is well formed. Whatever the files and the arguments hold, the load of the
  command line gives a configuration whose texts fit into their arrays and end there, and whose limits and times are in the
  ranges that the program accepts, also if the load fails.\<close>

theorem lucpd_config_well_formed:
  assumes "texts_ok c"
  shows "\<exists>rc c'. lucpd_cfg_load_with_entryArgs schar freed junk fs (Some c) args = (rc, Some c') \<and> wf_config c'"
proof -
  obtain rc path port isset where a: "scan_args args (LUCPD_DEFAULT_CFG_FILE, LUCPD_DEFAULT_PORT, False) = (rc, path, port, isset)"
    by (cases "scan_args args (LUCPD_DEFAULT_CFG_FILE, LUCPD_DEFAULT_PORT, False)") auto
  obtain rc' c' where l: "lucpd_cfg_load_with_file schar freed junk fs (Some c) path = (rc', Some c')" "wf_config c'"
    using load_wf [OF assms] by blast
  then show ?thesis
    by (cases isset) (simp_all add: lucpd_cfg_load_with_entryArgs_def a set_file_and_port_def wf_config_def texts_ok_def numbers_ok_def)
qed

theorem lucpd_config_well_formed_witness:
  "\<exists>c. lucpd_cfg_load_with_entryArgs True id NUL (\<lambda>p. None) (Some zero_config) [''-p'', ''0''] = (-1, Some c) \<and> wf_config c"
proof -
  have "c_atoi ''0'' = 0" by code_simp
  then have "scan_args [''-p'', ''0''] (LUCPD_DEFAULT_CFG_FILE, LUCPD_DEFAULT_PORT, False) =
      (-1, LUCPD_DEFAULT_CFG_FILE, LUCPD_DEFAULT_PORT, False)" by (simp add: Let_def)
  then have "fst (lucpd_cfg_load_with_entryArgs True id NUL (\<lambda>p. None) (Some zero_config) [''-p'', ''0'']) = -1"
    by (simp add: lucpd_cfg_load_with_entryArgs_def)
  then show ?thesis
    using lucpd_config_well_formed [OF zero_config_texts, of True id NUL "\<lambda>p. None" "[''-p'', ''0'']"] by auto
qed

text \<open>C32. The texts and the truth values of a configuration file do reach the daemon. After a file of
  well-formed lines, with its names in small letters, was loaded into the program's configuration, the address, the
  log level, the log file and the directory are the texts that the file defines for them by the documented
  rules (the last definition counts), cut to the size of their arrays, or the built-in values, and the two flags are what
  the words of the file say.

  The built-in values are those of the code: \<open>127.0.0.1\<close> for the address and \<open>/tmp/lucp\<close> for the directory. The comments
  of \<open>lucpd_cfg.h\<close> name others, \<open>0.0.0.0\<close> and \<open>/var/lucp/tmp\<close>. For names in other letters the lookup of the
  code departs from the documented one (\<open>lucfg_other_case\<close>, \<open>lucfg_section_space\<close>).\<close>

theorem lucpd_cfg_file_settings:
  assumes "list_all wf_line ls" "junk = NUL \<or> junk = newline" "fs path = Some (concat (map render ls))"
    "small_names ls"
  shows "\<exists>c'. lucpd_cfg_load_with_file schar freed junk fs (Some zero_config) path = (0, Some c') \<and>
     c_str (net_ip (network c')) = text_or ''127.0.0.1'' 63 (setting ls ''network'' ''ip'') \<and>
     c_str (log_level (logging c')) = text_or ''DEBUG'' 15 (setting ls ''logging'' ''log_level'') \<and>
     c_str (log_file (logging c')) = text_or [] 255 (setting ls ''logging'' ''log_file'') \<and>
     c_str (tmp_dir (files c')) = text_or ''/tmp/lucp'' 255 (setting ls ''file'' ''tmp_dir'') \<and>
     (\<forall>b. flag_or True (setting ls ''protocol'' ''validate_version'') = Some b \<longrightarrow>
        validate_version (protocol c') = b) \<and>
     (\<forall>b. flag_or True (setting ls ''protocol'' ''validate_crc16'') = Some b \<longrightarrow>
        validate_crc16 (protocol c') = b)"
proof -
  note known = setting_at_known [OF assms(4), of _ _ schar, unfolded known_keys_def]
  let ?h = "handle_of schar ls" and ?c = "set_default_config zero_config"
  let ?c' = "read_file schar ?h (read_logging schar ?h (read_protocol schar ?h (read_network schar ?h ?c)))"
  have "lucpd_cfg_load_with_file schar freed junk fs (Some zero_config) path = (0, Some ?c')"
    using lucfg_open_render [OF assms(1,2)] assms(3)
    by (simp add: lucpd_cfg_load_with_file_def handle_of_def Let_def)
  moreover have "text_or (c_str (net_ip (network ?c))) = text_or ''127.0.0.1''"
    "text_or (c_str (log_level (logging ?c))) = text_or ''DEBUG''"
    "text_or (c_str (log_file (logging ?c))) = text_or []"
    "text_or (c_str (tmp_dir (files ?c))) = text_or ''/tmp/lucp''"
    "validate_version (protocol ?c)" "validate_crc16 (protocol ?c)"
    by (simp_all add: default_texts) (simp_all add: set_default_config_def)
  ultimately show ?thesis
    using load_flags [of "read_network schar ?h ?c" schar ls]
    by (simp add: known default_texts default_terminated load_ip [OF assms(1)] load_log_level [OF assms(1)] load_log_file [OF assms(1)]
        load_tmp_dir [OF assms(1)])
qed


definition lucpd_conf :: "cline list" where
  "lucpd_conf = [C_section ''network'', C_pair ''ip'' ''0.0.0.0'', C_pair ''port'' ''9000'', C_blank,
     C_section ''protocol'', C_pair ''validate_version'' ''Off'']"

theorem lucpd_cfg_file_settings_witness:
  "\<exists>c'. lucpd_cfg_load_with_file True id NUL (\<lambda>p. Some (concat (map render lucpd_conf))) (Some zero_config) ''a.conf'' = (0, Some c') \<and>
     c_str (net_ip (network c')) = ''0.0.0.0'' \<and> c_str (log_level (logging c')) = ''DEBUG'' \<and>
     \<not> validate_version (protocol c') \<and> validate_crc16 (protocol c')"
proof -
  let ?P = "setting lucpd_conf"
  have wf: "list_all wf_line lucpd_conf"
    unfolding lucpd_conf_def by (simp add: word_ok_def plain_def c_isspace_def)
  have s: "?P ''network'' ''ip'' = Some ''0.0.0.0''" "?P ''logging'' ''log_level'' = None"
    "?P ''protocol'' ''validate_version'' = Some ''Off''" "?P ''protocol'' ''validate_crc16'' = None"
    by (simp_all add: setting_def lucpd_conf_def names_match_def c_tolower_def known_small)
  have small: "small_names lucpd_conf"
    by (simp add: small_names_def lucpd_conf_def c_tolower_def known_small)
  have "flag_or True (Some ''Off'') = Some False" "text_or ''127.0.0.1'' 63 (Some ''0.0.0.0'') = ''0.0.0.0''"
    "text_or ''DEBUG'' 15 None = ''DEBUG''" "flag_or True None = Some True"
    by code_simp+
  with lucpd_cfg_file_settings [OF wf, of NUL "\<lambda>p. Some (concat (map render lucpd_conf))" "''a.conf''" True id] s small
  show ?thesis by (auto simp del: render.simps concat.simps)
qed

text \<open>The command line. The arguments are read as options \<open>-c path\<close> and \<open>-p port\<close> up to the first
  malformed one; the last path and the last port win, and what was read before a malformed argument
  still takes effect although the load then returns -1.\<close>

lemma lucpd_cfg_command_line:
  assumes "list_all opt_ok opts" "args = [] \<or> malformed args"
    "fold opt_set opts (LUCPD_DEFAULT_CFG_FILE, LUCPD_DEFAULT_PORT, False) = (path, port, given)"
  shows "lucpd_cfg_load_with_entryArgs schar freed junk fs (Some c) (concat (map opt_args opts) @ args) =
     (if args = [] then 0 else -1,
      map_option (\<lambda>c. if given then on_network (\<lambda>n. n\<lparr>net_port := of_int port\<rparr>) c else c)
        (snd (lucpd_cfg_load_with_file schar freed junk fs (Some c) path)))"
  using assms scan_opts [OF assms(1), of args] scan_malformed [of args]
  by (cases given) (auto simp: lucpd_cfg_load_with_entryArgs_def set_file_and_port_def option.map_ident)

lemma lucpd_cfg_command_line_witness:
  "lucpd_cfg_load_with_entryArgs True id NUL (\<lambda>p. None) (Some zero_config) [''-p'', ''80'', ''-c'', ''a.conf'', ''-p'', ''81'', ''-x''] =
     (-1, map_option (on_network (\<lambda>n. n\<lparr>net_port := 81\<rparr>))
            (snd (lucpd_cfg_load_with_file True id NUL (\<lambda>p. None) (Some zero_config) ''a.conf'')))"
proof -
  have p: "c_atoi ''80'' = 80" "c_atoi ''81'' = 81" by code_simp+
  have "list_all opt_ok [Opt_p ''80'', Opt_c ''a.conf'', Opt_p ''81'']" "malformed [''-x'']"
    by (simp_all add: p malformed_def)
  from lucpd_cfg_command_line [OF this(1) disjI2 [OF this(2)], of "''a.conf''" 81 True True id NUL "\<lambda>p. None" zero_config]
  show ?thesis by (simp add: p)
qed

end
