(* ===== verification/Luftpd_Path.thy ===== *)
theory Luftpd_Path
  imports Prelude
begin

text \<open>
  How the file server turns a client's path into a path of the host: \<open>luftpd_resolve_path\<close> of
  \<open>luftpd/src/luftpd_utils.c\<close>.

  C strings are lists of characters, indices of \<open>strrchr\<close> are numbers. \<open>realpath\<close> is a call of the
  operating system on its file system: it is the parameter \<open>real\<close>, whose value is the canonical path
  or none. A pointer argument that may be NULL is an option, the output buffer is given by its size
  (no value for NULL). A result is the value of \<open>errno\<close>, or the path that is copied to the output.

  The specification resolves a path on the list of its names: \<open>enter\<close> handles one component, and
  \<open>path_of\<close> writes the result under the root.
\<close>

definition PATH_MAX :: nat where "PATH_MAX = 4096"

datatype errno = EINVAL | ENAMETOOLONG | EACCES | E_realpath

section \<open>The program\<close>

abbreviation slash :: char where "slash \<equiv> CHR ''/''"

text \<open>\<open>strncmp (a, b, strlen (b)) == 0\<close>.\<close>

definition starts_with :: "string \<Rightarrow> string \<Rightarrow> bool" where
  "starts_with a b \<longleftrightarrow> take (length b) a = b"

text \<open>\<open>strrchr\<close>: the position of the last slash.\<close>

definition strrchr_slash :: "string \<Rightarrow> nat option" where
  "strrchr_slash s =
     (if slash \<in> set s then Some (length s - Suc (length (takeWhile (\<lambda>c. c \<noteq> slash) (rev s)))) else None)"

text \<open>The tokens of \<open>strtok\<close> with the delimiter \<open>/\<close>.\<close>

fun split_slash :: "string \<Rightarrow> string list" where
  "split_slash [] = [[]]"
| "split_slash (c # s) =
     (if c = slash then [] # split_slash s
      else (case split_slash s of x # xs \<Rightarrow> (c # x) # xs | [] \<Rightarrow> [[c]]))"

definition strtok_all :: "string \<Rightarrow> string list" where
  "strtok_all s = filter (\<lambda>x. x \<noteq> []) (split_slash s)"

text \<open>Removing the slash at the end.\<close>

definition drop_slash :: "string \<Rightarrow> string" where
  "drop_slash s = (if 1 < length s \<and> last s = slash then butlast s else s)"

text \<open>One component of the user's path.\<close>

definition walk_step :: "string \<Rightarrow> string \<Rightarrow> string \<Rightarrow> errno + string" where
  "walk_step root res cmp =
     (if cmp = ''.'' then Inr res
      else if cmp = ''..'' then
        if \<not> starts_with res root then Inl EACCES
        else
          (case strrchr_slash res of
             None \<Rightarrow> Inr res
           | Some i \<Rightarrow>
               if length root < i then Inr (take i res)
               else if length root < length res then Inr (take (length root) res)
               else Inr res)
      else if 2 * PATH_MAX \<le> length res + length cmp + 2 then Inl ENAMETOOLONG
      else Inr ((if res \<noteq> [] \<and> last res \<noteq> slash then res @ [slash] else res) @ cmp))"

fun walk :: "string \<Rightarrow> string list \<Rightarrow> string \<Rightarrow> errno + string" where
  "walk root [] res = Inr res"
| "walk root (c # cs) res =
     (case walk_step root res c of
        Inl e \<Rightarrow> Inl e
      | Inr res' \<Rightarrow> walk root cs res')"

definition finish_path ::
  "(string \<Rightarrow> string option) \<Rightarrow> string \<Rightarrow> nat \<Rightarrow> string \<Rightarrow> errno + string" where
  "finish_path real root sz res =
     (if \<not> starts_with res root then Inl EACCES
      else
        let checked = (\<lambda>final.
              if \<not> starts_with final root then Inl EACCES
              else if sz \<le> length final then Inl ENAMETOOLONG
              else Inr final)
        in (case real res of
              Some f \<Rightarrow> checked f
            | None \<Rightarrow> if PATH_MAX \<le> length res then Inl ENAMETOOLONG else checked res))"

definition base_path :: "string \<Rightarrow> string \<Rightarrow> string \<Rightarrow> string" where
  "base_path user root rcur = (if user \<noteq> [] \<and> hd user = slash then root else rcur)"

definition luftpd_resolve_path ::
  "(string \<Rightarrow> string option) \<Rightarrow> string option \<Rightarrow> string option \<Rightarrow> string option \<Rightarrow> nat option \<Rightarrow> errno + string" where
  "luftpd_resolve_path real ftp_root current_path user_control_path output_sz =
     (case (ftp_root, current_path, user_control_path, output_sz) of
        (Some root0, Some cur, Some user, Some sz) \<Rightarrow>
          if sz = 0 then Inl EINVAL
          else if root0 = [] \<or> hd root0 \<noteq> slash then Inl EINVAL
          else if PATH_MAX \<le> length root0 then Inl ENAMETOOLONG
          else
            (case real (drop_slash root0) of
               None \<Rightarrow> Inl E_realpath
             | Some root \<Rightarrow>
                 (case real cur of
                    None \<Rightarrow> Inl E_realpath
                  | Some rcur \<Rightarrow>
                      if \<not> starts_with rcur root then Inl EACCES
                      else if length root < length rcur \<and> rcur ! length root \<noteq> slash then Inl EACCES
                      else
                        let base = base_path user root rcur in
                        if PATH_MAX \<le> length base then Inl ENAMETOOLONG
                        else if 2 * PATH_MAX \<le> length user then Inl ENAMETOOLONG
                        else
                          (case walk root (take (PATH_MAX - 1) (strtok_all user)) (drop_slash base) of
                             Inl e \<Rightarrow> Inl e
                           | Inr res \<Rightarrow> finish_path real root sz res)))
      | _ \<Rightarrow> Inl EINVAL)"

section \<open>The specification\<close>

definition join :: "string list \<Rightarrow> string" where
  "join cs = concat (map ((#) slash) cs)"

definition path_of :: "string \<Rightarrow> string list \<Rightarrow> string" where
  "path_of root cs = (if cs = [] then root else (if root = [slash] then [] else root) @ join cs)"

definition enter :: "string list \<Rightarrow> string \<Rightarrow> string list" where
  "enter cs c = (if c = ''.'' then cs else if c = ''..'' then butlast cs else cs @ [c])"

definition is_name :: "string \<Rightarrow> bool" where
  "is_name c \<longleftrightarrow> c \<noteq> [] \<and> slash \<notin> set c"

text \<open>A canonical path, as \<open>realpath\<close> returns it.\<close>

definition canonical :: "string \<Rightarrow> bool" where
  "canonical r \<longleftrightarrow> r = [slash] \<or> (\<exists>cs. cs \<noteq> [] \<and> list_all is_name cs \<and> r = join cs)"

text \<open>The paths inside of a directory, as characters: itself, and what goes on with a slash.\<close>

definition inside :: "string \<Rightarrow> string \<Rightarrow> bool" where
  "inside root p \<longleftrightarrow> (\<exists>cs. list_all is_name cs \<and> p = path_of root cs)"

text \<open>The names a directory can have an entry of: not one or two dots.\<close>

definition plain_name :: "string \<Rightarrow> bool" where
  "plain_name c \<longleftrightarrow> is_name c \<and> c \<noteq> ''.'' \<and> c \<noteq> ''..''"

text \<open>What \<open>realpath\<close> is documented to return: an absolute path without one or two dots as a name and without
  empty names.\<close>

definition resolved :: "string \<Rightarrow> bool" where
  "resolved r \<longleftrightarrow> r = [slash] \<or> (\<exists>cs. cs \<noteq> [] \<and> list_all plain_name cs \<and> r = join cs)"

text \<open>The paths that lead from a directory downwards only.\<close>

definition below :: "string \<Rightarrow> string \<Rightarrow> bool" where
  "below root p \<longleftrightarrow> (\<exists>cs. list_all plain_name cs \<and> p = path_of root cs)"

lemma plain_is_name: "plain_name c \<Longrightarrow> is_name c"
  by (simp add: plain_name_def)

lemma plain_are_names: "list_all plain_name cs \<Longrightarrow> list_all is_name cs"
  by (auto simp: list_all_iff plain_name_def)

lemma resolved_canonical: "resolved r \<Longrightarrow> canonical r"
  using plain_are_names by (auto simp: resolved_def canonical_def)

section \<open>Tokens\<close>

lemma split_slash_nonempty [simp]: "split_slash s \<noteq> []"
  by (induction s) (auto split: list.split)

lemma split_slash_plain: "x \<in> set (split_slash s) \<Longrightarrow> slash \<notin> set x"
  by (induction s arbitrary: x) (auto split: list.splits if_splits)

lemma split_slash_length: "sum_list (map (\<lambda>x. Suc (length x)) (split_slash s)) = Suc (length s)"
  by (induction s) (auto split: list.split)

lemma strtok_names: "list_all is_name (strtok_all s)"
  by (auto simp: list_all_iff strtok_all_def is_name_def split_slash_plain)

lemma length_join: "length (join cs) = sum_list (map (\<lambda>x. Suc (length x)) cs)"
  by (induction cs) (simp_all add: join_def)

lemma join_strtok: "length (join (strtok_all s)) \<le> Suc (length s)"
proof -
  have "sum_list (map (\<lambda>x. Suc (length x)) (filter P xs)) \<le> sum_list (map (\<lambda>x. Suc (length x)) xs)" for P xs
    by (induction xs) auto
  from this [of "\<lambda>x. x \<noteq> []" "split_slash s"] show ?thesis
    by (simp add: length_join strtok_all_def split_slash_length)
qed

lemma join_simps [simp]:
  "join [] = []" "join (c # cs) = slash # c @ join cs" "join (cs @ ds) = join cs @ join ds"
  by (simp_all add: join_def)

lemma length_le_join: "length cs \<le> length (join cs)"
  by (induction cs) auto

lemma strtok_cap: "length s < PATH_MAX - 1 \<Longrightarrow> take (PATH_MAX - 1) (strtok_all s) = strtok_all s"
  using length_le_join [of "strtok_all s"] join_strtok [of s] by simp

section \<open>The walk along the components\<close>

lemma strrchr_last: "slash \<notin> set c \<Longrightarrow> strrchr_slash (a @ slash # c) = Some (length a)"
proof -
  assume h: "slash \<notin> set c"
  have "takeWhile (\<lambda>c. c \<noteq> slash) (rev c @ slash # rev a) = rev c"
    using h by (subst takeWhile_append2) auto
  then show ?thesis by (simp add: strrchr_slash_def)
qed

lemma strrchr_less: "strrchr_slash s = Some i \<Longrightarrow> i < length s"
  by (cases s) (auto simp: strrchr_slash_def split: if_splits)

lemma starts_with_append [simp]: "starts_with (a @ b) a"
  by (simp add: starts_with_def)

lemma starts_with_iff: "starts_with s a \<longleftrightarrow> (\<exists>b. s = a @ b)"
  by (auto simp: starts_with_def) (metis append_take_drop_id)

lemma join_last: "cs \<noteq> [] \<Longrightarrow> list_all is_name cs \<Longrightarrow> join cs \<noteq> [] \<and> last (join cs) \<noteq> slash"
  by (induction cs rule: rev_induct) (auto simp: is_name_def dest: last_in_set)

lemma canonical_root:
  assumes "canonical r"
  shows "r \<noteq> []" "hd r = slash" "r \<noteq> [slash] \<Longrightarrow> last r \<noteq> slash"
  using assms join_last by (auto simp: canonical_def neq_Nil_conv)

lemma path_of_starts: "canonical root \<Longrightarrow> starts_with (path_of root cs) root"
  by (cases cs) (auto simp: path_of_def starts_with_def)

lemma path_of_last:
  assumes "canonical root" "list_all is_name cs"
  shows "path_of root cs \<noteq> []" "last (path_of root cs) = slash \<longleftrightarrow> cs = [] \<and> root = [slash]"
  using canonical_root [OF assms(1)] join_last [OF _ assms(2)] by (auto simp: path_of_def)

lemma length_path_of: "length (path_of root cs) \<le> length root + length (join cs)"
  by (simp add: path_of_def)

lemma path_of_up:
  assumes "canonical root" "list_all is_name (ds @ [d])"
  shows "walk_step root (path_of root (ds @ [d])) ''..'' = Inr (path_of root ds)"
proof -
  let ?a = "(if root = [slash] then [] else root) @ join ds"
  have p: "path_of root (ds @ [d]) = ?a @ slash # d" by (simp add: path_of_def)
  have s: "strrchr_slash (path_of root (ds @ [d])) = Some (length ?a)"
    using assms(2) unfolding p by (intro strrchr_last) (simp add: is_name_def)
  have d: "d \<noteq> []" using assms(2) by (simp add: is_name_def)
  show ?thesis
  proof (cases "ds = []")
    case True
    have "\<not> length root < length ?a" "length root < length (path_of root (ds @ [d]))"
      "take (length root) (path_of root (ds @ [d])) = root"
      using True d canonical_root [OF assms(1)] by (auto simp: path_of_def)
    then show ?thesis
      using True s path_of_starts [OF assms(1), of "ds @ [d]"] by (simp add: walk_step_def path_of_def)
  next
    case False
    then have "Suc 0 < length (join ds)" using assms(2) by (cases ds) (auto simp: is_name_def)
    then have "length root < length ?a" using canonical_root [OF assms(1)] by auto
    then show ?thesis
      using False s path_of_starts [OF assms(1), of "ds @ [d]"] by (simp add: walk_step_def p path_of_def)
  qed
qed

lemma walk_step_enter:
  assumes "canonical root" "list_all is_name cs" "is_name c"
    "length root + length (join cs) + length c + 2 < 2 * PATH_MAX"
  shows "walk_step root (path_of root cs) c = Inr (path_of root (enter cs c))"
proof -
  consider "c = ''.''" | "c = ''..''" "cs = []" | ds d where "c = ''..''" "cs = ds @ [d]" | "c \<noteq> ''.''" "c \<noteq> ''..''"
    by (cases cs rule: rev_cases) auto
  then show ?thesis
  proof cases
    case 1
    then show ?thesis by (simp add: walk_step_def enter_def)
  next
    case 2
    then show ?thesis
      using strrchr_less [of root] path_of_starts [OF assms(1), of cs]
      by (auto simp: walk_step_def enter_def path_of_def split: option.split)
  next
    case 3
    then show ?thesis using path_of_up [of root ds d] assms(1,2) by (simp add: enter_def)
  next
    case 4
    have "length (path_of root cs) + length c + 2 < 2 * PATH_MAX"
      using length_path_of [of root cs] assms(4) by simp
    moreover have "(if path_of root cs \<noteq> [] \<and> last (path_of root cs) \<noteq> slash then path_of root cs @ [slash] else path_of root cs) @ c =
        path_of root (cs @ [c])"
      using path_of_last [OF assms(1,2)] by (auto simp: path_of_def)
    ultimately show ?thesis using 4 by (simp add: walk_step_def enter_def)
  qed
qed

lemma enter_names: "list_all is_name cs \<Longrightarrow> is_name c \<Longrightarrow> list_all is_name (enter cs c)"
  by (auto simp: enter_def list_all_iff dest: in_set_butlastD)

lemma length_join_enter: "length (join (enter cs c)) \<le> length (join cs) + Suc (length c)"
  by (cases cs rule: rev_cases) (simp_all add: enter_def)

lemma walk_enter:
  assumes "canonical root"
  shows "list_all is_name cs \<Longrightarrow> list_all is_name us \<Longrightarrow>
     length root + length (join cs) + length (join us) + 2 < 2 * PATH_MAX \<Longrightarrow>
     walk root us (path_of root cs) = Inr (path_of root (foldl enter cs us)) \<and> list_all is_name (foldl enter cs us)"
proof (induction us arbitrary: cs)
  case (Cons u us)
  have "list_all is_name (enter cs u)" using enter_names Cons.prems(1,2) by simp
  then show ?case
    using Cons.IH [of "enter cs u"] Cons.prems length_join_enter [of cs u]
    by (simp add: walk_step_enter [OF assms])
qed simp

lemma walk_step_result:
  assumes "canonical root" "list_all is_name cs" "is_name c" "walk_step root (path_of root cs) c = Inr res"
  shows "res = path_of root (enter cs c)"
proof (cases "c = ''.'' \<or> c = ''..''")
  case True
  consider "c = ''.''" | "c = ''..''" "cs = []" | ds d where "c = ''..''" "cs = ds @ [d]"
    using True by (cases cs rule: rev_cases) auto
  then show ?thesis
  proof cases
    case 2
    then show ?thesis
      using strrchr_less [of root] path_of_starts [OF assms(1), of cs] assms(4)
      by (auto simp: walk_step_def enter_def path_of_def split: option.splits)
  qed (use path_of_up [of root] assms in \<open>simp_all add: walk_step_def enter_def\<close>)
next
  case False
  have "(if path_of root cs \<noteq> [] \<and> last (path_of root cs) \<noteq> slash then path_of root cs @ [slash] else path_of root cs) @ c =
      path_of root (cs @ [c])"
    using path_of_last [OF assms(1,2)] by (auto simp: path_of_def)
  then show ?thesis using False assms(4) by (simp add: walk_step_def enter_def split: if_splits)
qed

lemma enter_plain: "list_all plain_name cs \<Longrightarrow> is_name c \<Longrightarrow> list_all plain_name (enter cs c)"
  by (auto simp: enter_def list_all_iff plain_name_def dest: in_set_butlastD)

lemma walk_below:
  assumes "canonical root"
  shows "list_all plain_name cs \<Longrightarrow> list_all is_name us \<Longrightarrow> walk root us (path_of root cs) = Inr res \<Longrightarrow> below root res"
proof (induction us arbitrary: cs)
  case (Cons u us)
  then obtain res' where r: "walk_step root (path_of root cs) u = Inr res'" "walk root us res' = Inr res"
    by (auto split: sum.splits)
  then show ?case
    using Cons.IH [of "enter cs u"] Cons.prems walk_step_result [OF assms plain_are_names [OF Cons.prems(1)] _ r(1)]
    by (simp add: enter_plain)
qed (auto simp: below_def)

section \<open>The current directory under the root\<close>

lemma take_name: "slash \<notin> set d \<Longrightarrow> y = [] \<or> hd y = slash \<Longrightarrow> takeWhile (\<lambda>c. c \<noteq> slash) (d @ y) = d"
  by (subst takeWhile_append2) (auto simp: takeWhile_eq_Nil_iff)

lemma join_hd: "join cs = [] \<or> hd (join cs) = slash"
  by (cases cs) simp_all

lemma join_prefix:
  assumes "list_all is_name rs" "list_all is_name ds" "join ds = join rs @ x" "x = [] \<or> hd x = slash"
  shows "\<exists>cs. ds = rs @ cs"
  using assms
proof (induction rs arbitrary: ds)
  case (Cons r rs)
  then obtain d ds' where ds: "ds = d # ds'" by (cases ds) auto
  have e: "d @ join ds' = r @ (join rs @ x)" using Cons.prems(3) ds by simp
  have "d = takeWhile (\<lambda>c. c \<noteq> slash) (d @ join ds')"
    using Cons.prems(2) ds join_hd by (subst take_name) (auto simp: is_name_def)
  also have "\<dots> = r"
    unfolding e using Cons.prems(1,4) join_hd [of rs] by (subst take_name) (auto simp: is_name_def hd_append)
  finally have "d = r" .
  then show ?case using Cons.IH [of ds'] Cons.prems ds e by auto
qed simp

lemma under_root:
  assumes "canonical root" "resolved p" "starts_with p root" "length root < length p \<longrightarrow> p ! length root = slash"
  shows "\<exists>cs. list_all plain_name cs \<and> p = path_of root cs \<and> (root = [slash] \<longrightarrow> cs = [])"
proof -
  obtain x where x: "p = root @ x" using assms(3) by (auto simp: starts_with_iff)
  have hx: "x = [] \<or> hd x = slash" using assms(4) x by (cases x) simp_all
  show ?thesis
  proof (cases "root = [slash] \<or> x = []")
    case True
    have "x = []"
    proof (rule ccontr)
      assume n: "x \<noteq> []"
      then have r: "p = slash # x" "hd x = slash" using True hx x by auto
      from assms(2) r n show False by (auto simp: resolved_def plain_name_def neq_Nil_conv is_name_def)
    qed
    then show ?thesis using x by (intro exI [of _ "[]"]) (simp add: path_of_def)
  next
    case False
    obtain rs where rs: "list_all is_name rs" "root = join rs" "rs \<noteq> []"
      using assms(1) False by (auto simp: canonical_def)
    have "p \<noteq> [slash]" using x False canonical_root(1) [OF assms(1)] by (auto simp: append_eq_Cons_conv)
    then obtain ds where ds: "list_all plain_name ds" "p = join ds" using assms(2) by (auto simp: resolved_def)
    obtain cs where "ds = rs @ cs" using join_prefix [OF rs(1) plain_are_names [OF ds(1)] _ hx] x rs(2) ds(2) by auto
    then show ?thesis
      using ds rs False by (intro exI [of _ cs]) (auto simp: path_of_def)
  qed
qed

lemma drop_slash_path:
  assumes "canonical root" "list_all is_name cs"
  shows "drop_slash (path_of root cs) = path_of root cs"
proof -
  have "last (path_of root cs) = slash \<Longrightarrow> \<not> 1 < length (path_of root cs)"
    using path_of_last [OF assms] by (simp add: path_of_def)
  then show ?thesis by (auto simp: drop_slash_def)
qed

section \<open>The whole resolution\<close>

text \<open>What a path means: the names of an absolute path start at the root, those of another one at the
  current directory.\<close>

definition target :: "string \<Rightarrow> string list \<Rightarrow> string \<Rightarrow> string" where
  "target root cs user =
     path_of root (foldl enter (if user \<noteq> [] \<and> hd user = slash then [] else cs) (strtok_all user))"

text \<open>The host path of a target.\<close>

definition host_path :: "(string \<Rightarrow> string option) \<Rightarrow> string \<Rightarrow> string" where
  "host_path real p = (case real p of Some f \<Rightarrow> f | None \<Rightarrow> p)"

lemma finish_path_cases:
  "finish_path real root sz res = Inr p \<Longrightarrow> p = host_path real res \<and> starts_with p root \<and> length p < sz"
  by (auto simp: finish_path_def host_path_def Let_def split: if_splits option.splits)

lemma resolve_parts:
  assumes "luftpd_resolve_path real (Some root0) (Some cur) (Some user) (Some sz) = Inr p"
  shows "\<exists>root rcur res. real (drop_slash root0) = Some root \<and> real cur = Some rcur \<and> starts_with rcur root \<and>
     (length root < length rcur \<longrightarrow> rcur ! length root = slash) \<and>
     walk root (take (PATH_MAX - 1) (strtok_all user))
       (drop_slash (base_path user root rcur)) = Inr res \<and>
     finish_path real root sz res = Inr p"
  using assms
  by (auto simp: luftpd_resolve_path_def Let_def split: if_split_asm option.split_asm sum.split_asm)

lemma length_base_path: "length (base_path user root rcur) \<le> max (length root) (length rcur)"
  by (simp add: base_path_def)

lemma resolve_run:
  assumes "root0 \<noteq> []" "hd root0 = slash" "length root0 < PATH_MAX" "0 < sz"
    "real (drop_slash root0) = Some root" "real cur = Some rcur" "starts_with rcur root"
    "length root < length rcur \<longrightarrow> rcur ! length root = slash"
    "length root < PATH_MAX" "length rcur < PATH_MAX" "length user < 2 * PATH_MAX"
    "walk root (take (PATH_MAX - 1) (strtok_all user))
       (drop_slash (base_path user root rcur)) = Inr res"
  shows "luftpd_resolve_path real (Some root0) (Some cur) (Some user) (Some sz) = finish_path real root sz res"
  using assms length_base_path [of user root rcur] by (auto simp: luftpd_resolve_path_def Let_def)

lemma length_foldl_enter: "length (join (foldl enter cs us)) \<le> length (join cs) + length (join us)"
proof (induction us arbitrary: cs)
  case (Cons u us)
  show ?case using Cons.IH [of "enter cs u"] length_join_enter [of cs u] by simp
qed simp

lemma start_of_walk:
  assumes "canonical root" "list_all is_name cs"
  shows "drop_slash (base_path user root (path_of root cs)) =
     path_of root (if user \<noteq> [] \<and> hd user = slash then [] else cs)"
proof -
  have e: "path_of root [] = root" by (simp add: path_of_def)
  show ?thesis
    using drop_slash_path [OF assms] drop_slash_path [OF assms(1), of "[]"]
    by (simp add: base_path_def e)
qed

lemma resolve_target:
  assumes r0: "root0 \<noteq> []" "hd root0 = slash" "length root0 < PATH_MAX"
    and r: "real (drop_slash root0) = Some root" "canonical root"
    and c: "real cur = Some (path_of root cs)" "list_all is_name cs" "root = [slash] \<longrightarrow> cs = []"
    and l: "length root + length (join cs) + length user + 3 < PATH_MAX"
  shows "luftpd_resolve_path real (Some root0) (Some cur) (Some user) (Some PATH_MAX) =
      finish_path real root PATH_MAX (target root cs user)"
    "length (target root cs user) < PATH_MAX"
proof -
  let ?cs = "if user \<noteq> [] \<and> hd user = slash then [] else cs"
  note b = start_of_walk [OF r(2) c(2), of user]
  have us: "length (join (strtok_all user)) \<le> Suc (length user)" "list_all is_name (strtok_all user)"
    using join_strtok strtok_names by blast+
  have w: "walk root (strtok_all user) (path_of root ?cs) = Inr (target root cs user)"
    unfolding target_def using walk_enter [OF r(2), of ?cs "strtok_all user"] c(2) us l
    by (simp add: PATH_MAX_def)
  have bnd: "length root < length (path_of root cs) \<longrightarrow> path_of root cs ! length root = slash"
    using c(3) by (cases cs) (auto simp: path_of_def nth_append)
  show "luftpd_resolve_path real (Some root0) (Some cur) (Some user) (Some PATH_MAX) =
      finish_path real root PATH_MAX (target root cs user)"
  proof (rule resolve_run [where rcur = "path_of root cs"])
    show "starts_with (path_of root cs) root" by (rule path_of_starts [OF r(2)])
    show "walk root (take (PATH_MAX - 1) (strtok_all user))
        (drop_slash (base_path user root (path_of root cs))) = Inr (target root cs user)"
      using w l unfolding b by (subst strtok_cap) (auto simp: PATH_MAX_def)
    show "length (path_of root cs) < PATH_MAX" using length_path_of [of root cs] l by simp
  qed (use r0 r c l bnd in \<open>simp_all add: PATH_MAX_def\<close>)
  have "length (join ?cs) \<le> length (join cs)" by simp
  then show "length (target root cs user) < PATH_MAX"
    unfolding target_def
    using length_path_of [of root "foldl enter ?cs (strtok_all user)"]
      length_foldl_enter [of ?cs "strtok_all user"] us(1) l by linarith
qed

lemma target_starts: "canonical root \<Longrightarrow> starts_with (target root cs user) root"
  by (simp add: target_def path_of_starts)

lemma resolve_result:
  assumes "luftpd_resolve_path real (Some root0) (Some cur) (Some user) (Some sz) = Inr p"
    "\<And>a b. real a = Some b \<Longrightarrow> resolved b"
  shows "\<exists>root q. real (drop_slash root0) = Some root \<and> below root q \<and> p = host_path real q \<and>
     starts_with p root \<and> length p < sz"
proof -
  obtain root rcur res where h: "real (drop_slash root0) = Some root" "real cur = Some rcur"
     "starts_with rcur root" "length root < length rcur \<longrightarrow> rcur ! length root = slash"
     "walk root (take (PATH_MAX - 1) (strtok_all user))
       (drop_slash (base_path user root rcur)) = Inr res"
     "finish_path real root sz res = Inr p"
    using resolve_parts [OF assms(1)] by blast
  have root: "canonical root" "resolved rcur" using assms(2) h(1,2) resolved_canonical by blast+
  obtain cs where cs: "list_all plain_name cs" "rcur = path_of root cs"
    using under_root [OF root h(3,4)] by blast
  let ?cs = "if user \<noteq> [] \<and> hd user = slash then [] else cs"
  note b = start_of_walk [OF root(1) plain_are_names [OF cs(1)], of user, folded cs(2)]
  have "list_all is_name (take (PATH_MAX - 1) (strtok_all user))"
    using strtok_names [of user] by (auto simp: list_all_iff dest: in_set_takeD)
  then have "below root res" using walk_below [OF root(1), of ?cs] cs(1) h(5) unfolding b by auto
  then show ?thesis using finish_path_cases [OF h(6)] h(1) by blast
qed

section \<open>Properties\<close>

text \<open>C12. What a path resolves to. For a root that exists and a current directory inside of it, the
  resolution of a path of a client is: walk the names from the root or from the current directory,
  where one dot stays, two dots go up and stay where they are at the root, and every other name goes down;
  then let the operating system resolve the links of the result, and refuse it if it does not start like the
  root. (Paths are short enough for the buffers.)

  Two dots at the root are thus not an error: the path is accepted and goes on from the root, as the comments
  of the function say (``keep it as it is when it is the root already''). The test program \<open>test/test2.c\<close>, which has
  a copy of this function, expects the opposite of its third case: it asserts that \<open>../../etc/passwd\<close> in the
  directory \<open>tmp\<close> of the root is refused. The second part of the witness is that case: it is accepted, as
  \<open>etc/passwd\<close> of the root.\<close>

theorem luftpd_resolve_path_target:
  assumes "root0 \<noteq> []" "hd root0 = slash" "length root0 < PATH_MAX"
    "real (drop_slash root0) = Some root" "canonical root"
    "real cur = Some (path_of root cs)" "list_all is_name cs" "root = [slash] \<longrightarrow> cs = []"
    "length root + length (join cs) + length user + 3 < PATH_MAX"
  shows "luftpd_resolve_path real (Some root0) (Some cur) (Some user) (Some PATH_MAX) =
     (let p = host_path real (target root cs user)
      in if \<not> starts_with p root then Inl EACCES
         else if PATH_MAX \<le> length p then Inl ENAMETOOLONG else Inr p)"
  using resolve_target [OF assms] path_of_starts [OF assms(5)]
  by (cases "real (target root cs user)") (simp_all add: finish_path_def host_path_def Let_def target_starts [OF assms(5)])

text \<open>C13. Confinement, as far as it goes. Whatever root, current directory and path are given, a path
  that is accepted is the operating system's resolution of a path that goes down from the root by plain
  names, none of them one or two dots, so the client's two dots never lead above the root; the result starts
  with the characters of the root and fits in the output, and where the operating system does not resolve the
  path, the result is itself below the root. The one assumption is the documented form of the results of
  \<open>realpath\<close>. (A link in the tree can still lead to a sibling of the root whose name starts with the
  root's: \<open>luftpd_resolve_path_sibling\<close>.)\<close>

theorem luftpd_resolve_path_inside:
  assumes "luftpd_resolve_path real (Some root0) (Some cur) (Some user) (Some sz) = Inr p"
    "\<forall>a b. real a = Some b \<longrightarrow> resolved b"
  shows "\<exists>root q. real (drop_slash root0) = Some root \<and> below root q \<and> p = host_path real q \<and>
     starts_with p root \<and> length p < sz \<and> (real q = None \<longrightarrow> below root p)"
proof -
  obtain root q where "real (drop_slash root0) = Some root" "below root q" "p = host_path real q"
      "starts_with p root" "length p < sz" using resolve_result [OF assms(1)] assms(2) by blast
  then show ?thesis by (intro exI [of _ root] exI [of _ q]) (simp add: host_path_def)
qed

text \<open>C38. The escape. The last check compares characters and not names: a link in the root to a directory
  beside it whose name starts with the root's name is accepted, and the result is outside of the root.\<close>

theorem luftpd_resolve_path_sibling:
  assumes "root0 \<noteq> []" "hd root0 = slash" "length root0 < PATH_MAX"
    "real (drop_slash root0) = Some root" "canonical root" "root \<noteq> [slash]" "real cur = Some root"
    "is_name c" "c \<noteq> ''.''" "c \<noteq> ''..''" "length root + length c + 3 < PATH_MAX"
    "real (path_of root [c]) = Some (root @ x)" "x \<noteq> []" "hd x \<noteq> slash" "length (root @ x) < PATH_MAX"
  shows "luftpd_resolve_path real (Some root0) (Some cur) (Some c) (Some PATH_MAX) = Inr (root @ x) \<and>
     \<not> inside root (root @ x)"
proof -
  have split: "split_slash c = [c]" if "slash \<notin> set c" for c
    using that by (induction c) auto
  then have t: "target root [] c = path_of root [c]"
    using assms(8-10) by (auto simp: target_def strtok_all_def is_name_def enter_def)
  have "luftpd_resolve_path real (Some root0) (Some cur) (Some c) (Some PATH_MAX) = Inr (root @ x)"
    using resolve_target(1) [of root0 real root cur "[]" c] assms path_of_starts [OF assms(5)] t
    by (simp add: path_of_def finish_path_def)
  moreover have "\<not> inside root (root @ x)"
    using assms(6,13,14) by (auto simp: inside_def path_of_def join_def neq_Nil_conv)
  ultimately show ?thesis by blast
qed

definition tree :: "string \<Rightarrow> string option" where
  "tree p =
     (if p \<in> set [''/'', ''/srv'', ''/srv/ftp'', ''/srv/ftp/pub'', ''/srv/ftp_private''] then Some p
      else if p = ''/srv/ftp/x'' then Some ''/srv/ftp_private'' else None)"

lemma names: "is_name ''srv''" "is_name ''ftp''" "is_name ''pub''" "is_name ''x''" "is_name ''ftp_private''"
  by (simp_all add: is_name_def)

lemma canonical_join: "cs \<noteq> [] \<Longrightarrow> list_all is_name cs \<Longrightarrow> join cs = p \<Longrightarrow> canonical p"
  by (auto simp: canonical_def)

lemma srv_canonical: "canonical ''/srv/ftp''"
  by (rule canonical_join [of "[''srv'', ''ftp'']"]) (simp_all add: names)

lemma tree_srv: "tree ''/srv/ftp'' = Some ''/srv/ftp''" "tree ''/srv/ftp/pub'' = Some ''/srv/ftp/pub''"
    "tree ''/srv/ftp/x'' = Some ''/srv/ftp_private''" "drop_slash ''/srv/ftp/'' = ''/srv/ftp''"
  by code_simp+

lemma plain_names: "plain_name ''srv''" "plain_name ''ftp''" "plain_name ''pub''" "plain_name ''ftp_private''"
  by (simp_all add: plain_name_def is_name_def)

lemma resolved_join: "cs \<noteq> [] \<Longrightarrow> list_all plain_name cs \<Longrightarrow> join cs = p \<Longrightarrow> resolved p"
  by (auto simp: resolved_def)

lemma tree_resolved: "tree a = Some b \<Longrightarrow> resolved b"
proof -
  assume "tree a = Some b"
  then have "b \<in> {join [''srv''], join [''srv'', ''ftp''], join [''srv'', ''ftp'', ''pub''], join [''srv'', ''ftp_private'']} \<or> b = [slash]"
    by (auto simp: tree_def split: if_splits)
  then show ?thesis
    using plain_names by (elim disjE insertE emptyE) (auto intro: resolved_join [OF _ _ refl] simp: resolved_def [of "[slash]"] simp del: join_simps)
qed

text \<open>The directories of the third case of the test program.\<close>

definition test_tree :: "string \<Rightarrow> string option" where
  "test_tree p = (if p \<in> set [''/tmp/test_ftp_root'', ''/tmp/test_ftp_root/tmp''] then Some p else None)"

lemma test_root: "canonical ''/tmp/test_ftp_root''"
  by (rule canonical_join [of "[''tmp'', ''test_ftp_root'']"]) (simp_all add: is_name_def)

theorem luftpd_resolve_path_target_witness:
  "luftpd_resolve_path tree (Some ''/srv/ftp/'') (Some ''/srv/ftp/pub'') (Some ''../../x/..//./pub'') (Some PATH_MAX) =
     Inr ''/srv/ftp/pub'' \<and>
   luftpd_resolve_path test_tree (Some ''/tmp/test_ftp_root'') (Some ''/tmp/test_ftp_root/tmp'') (Some ''../../etc/passwd'')
     (Some PATH_MAX) = Inr ''/tmp/test_ftp_root/etc/passwd''"
proof (rule conjI)
  have cur: "tree ''/srv/ftp/pub'' = Some (path_of ''/srv/ftp'' [''pub''])" "''/srv/ftp/'' \<noteq> []" "hd ''/srv/ftp/'' = slash"
    "length ''/srv/ftp/'' < PATH_MAX" "list_all is_name [''pub'']" "''/srv/ftp'' = [slash] \<longrightarrow> [''pub''] = []"
    "length ''/srv/ftp'' + length (join [''pub'']) + length ''../../x/..//./pub'' + 3 < PATH_MAX"
    by (simp_all add: path_of_def tree_srv PATH_MAX_def names)
  have root: "tree (drop_slash ''/srv/ftp/'') = Some ''/srv/ftp''" by (simp add: tree_srv)
  have t: "target ''/srv/ftp'' [''pub''] ''../../x/..//./pub'' = ''/srv/ftp/pub''" by code_simp
  have p: "host_path tree ''/srv/ftp/pub'' = ''/srv/ftp/pub''" by (simp add: host_path_def tree_srv)
  have "starts_with ''/srv/ftp/pub'' ''/srv/ftp''" "length ''/srv/ftp/pub'' < PATH_MAX"
    by (simp_all add: starts_with_def PATH_MAX_def)
  with luftpd_resolve_path_target [OF cur(2-4) root srv_canonical cur(1,5-7)]
  show "luftpd_resolve_path tree (Some ''/srv/ftp/'') (Some ''/srv/ftp/pub'') (Some ''../../x/..//./pub'') (Some PATH_MAX) =
     Inr ''/srv/ftp/pub''"
    unfolding t p Let_def by (simp only: not_le [symmetric] simp_thms if_False if_True not_True_eq_False)
next
  let ?r = "''/tmp/test_ftp_root''" and ?u = "''../../etc/passwd''" and ?e = "''/tmp/test_ftp_root/etc/passwd''"
  have cur: "test_tree ''/tmp/test_ftp_root/tmp'' = Some (path_of ?r [''tmp''])" "test_tree (drop_slash ?r) = Some ?r"
    by (code_simp, code_simp)
  have h: "?r \<noteq> []" "hd ?r = slash" "length ?r < PATH_MAX" "list_all is_name [''tmp'']" "?r = [slash] \<longrightarrow> [''tmp''] = []"
    "length ?r + length (join [''tmp'']) + length ?u + 3 < PATH_MAX" "length ?e < PATH_MAX"
    by (simp_all add: PATH_MAX_def is_name_def)
  have t: "target ?r [''tmp''] ?u = ?e" by code_simp
  have p: "host_path test_tree ?e = ?e" by (simp add: host_path_def test_tree_def)
  have "starts_with ?e ?r" by (simp add: starts_with_def)
  with luftpd_resolve_path_target [OF h(1-3) cur(2) test_root cur(1) h(4-6)] h(7)
  show "luftpd_resolve_path test_tree (Some ?r) (Some ''/tmp/test_ftp_root/tmp'') (Some ?u) (Some PATH_MAX) = Inr ?e"
    unfolding t p Let_def by (simp only: not_le [symmetric] simp_thms if_False if_True not_True_eq_False)
qed

theorem luftpd_resolve_path_inside_witness:
  "\<exists>root q. tree (drop_slash ''/srv/ftp/'') = Some root \<and> below root q \<and> ''/srv/ftp/etc'' = host_path tree q \<and>
     starts_with ''/srv/ftp/etc'' root \<and> length ''/srv/ftp/etc'' < PATH_MAX \<and>
     (tree q = None \<longrightarrow> below root ''/srv/ftp/etc'')"
proof (rule luftpd_resolve_path_inside)
  have "tree (drop_slash ''/srv/ftp/'') = Some ''/srv/ftp''"
      "tree ''/srv/ftp/pub'' = Some (path_of ''/srv/ftp'' [''pub''])" "list_all is_name [''pub'']"
    by (simp_all add: tree_srv names path_of_def)
  from resolve_target(1) [OF _ _ _ this(1) srv_canonical this(2,3), of "''../../../etc''"]
  have "luftpd_resolve_path tree (Some ''/srv/ftp/'') (Some ''/srv/ftp/pub'') (Some ''../../../etc'') (Some PATH_MAX) =
      finish_path tree ''/srv/ftp'' PATH_MAX (target ''/srv/ftp'' [''pub''] ''../../../etc'')"
    by (simp add: PATH_MAX_def)
  also have "target ''/srv/ftp'' [''pub''] ''../../../etc'' = ''/srv/ftp/etc''" by code_simp
  also have "finish_path tree ''/srv/ftp'' PATH_MAX ''/srv/ftp/etc'' = Inr ''/srv/ftp/etc''"
    by (simp add: finish_path_def tree_def starts_with_def PATH_MAX_def)
  finally show "luftpd_resolve_path tree (Some ''/srv/ftp/'') (Some ''/srv/ftp/pub'') (Some ''../../../etc'') (Some PATH_MAX) =
      Inr ''/srv/ftp/etc''" .
qed (use tree_resolved in blast)

theorem luftpd_resolve_path_sibling_witness:
  "luftpd_resolve_path tree (Some ''/srv/ftp/'') (Some ''/srv/ftp'') (Some ''x'') (Some PATH_MAX) = Inr ''/srv/ftp_private'' \<and>
     \<not> inside ''/srv/ftp'' ''/srv/ftp_private''"
proof -
  have "path_of ''/srv/ftp'' [''x''] = ''/srv/ftp/x''" by (simp add: path_of_def)
  with luftpd_resolve_path_sibling [of "''/srv/ftp/''" tree "''/srv/ftp''" "''/srv/ftp''" "''x''" "''_private''"]
  show ?thesis by (simp add: tree_srv srv_canonical names PATH_MAX_def)
qed

end
