(* ===== verification/Luftpd_Cfg.thy ===== *)
theory Luftpd_Cfg
  imports Lucfg Luftpd_Path
begin

text \<open>
  The configuration of the file server: \<open>luftpd/src/luftpd_cfg.h\<close>, \<open>luftpd/src/luftpd_cfg.c\<close>, and the
  two loads of it in \<open>main\<close> and \<open>luftpd_start_server\<close> (\<open>luftpd/src/luftpd.c\<close>).

  The loader passes the character arrays \<open>ip\<close> and \<open>root_dir\<close> to \<open>lucfg_get_string\<close> as if they were
  pointers. What the call then stores at their beginning is a pointer: its bytes in memory are the
  parameter \<open>ptr\<close>, a function of the text that is pointed to. Files, the uninitialised cell and freed
  memory are as in theory Lucfg; every load finds its own contents of the uninitialised cell.
\<close>

section \<open>The configuration\<close>

record luftpd_config =
  f_ip :: string
  f_port :: u16
  root_dir :: string
  max_connections :: int
  data_port_min :: int
  data_port_max :: int

definition LUFTPD_DEFAULT_CONFIG_FILE :: string where "LUFTPD_DEFAULT_CONFIG_FILE = ''/etc/luftpd.conf''"
definition LUFTPD_DEFAULT_IP :: string where "LUFTPD_DEFAULT_IP = ''0.0.0.0''"
definition LUFTPD_DEFAULT_ROOT_DIR :: string where "LUFTPD_DEFAULT_ROOT_DIR = ''/tmp/luftp_root''"

definition LUFTPD_CONFIG_INITIALIZER :: luftpd_config where
  "LUFTPD_CONFIG_INITIALIZER = \<lparr>f_ip = take 16 (LUFTPD_DEFAULT_IP @ replicate 16 NUL), f_port = 2121,
     root_dir = take 256 (LUFTPD_DEFAULT_ROOT_DIR @ replicate 256 NUL), max_connections = 10,
     data_port_min = 30000, data_port_max = 30100\<rparr>"

text \<open>\<open>strcpy\<close> into an array.\<close>

definition c_strcpy :: "string \<Rightarrow> string \<Rightarrow> string" where
  "c_strcpy dst src = put_bytes 0 (c_str src @ [NUL]) dst"

definition get_array :: "(string \<Rightarrow> string) \<Rightarrow> lucfg_rc \<times> string out \<Rightarrow> string \<Rightarrow> string \<Rightarrow> string" where
  "get_array ptr r dflt buf =
     (case r of
        (LUCFG_OK, Set v) \<Rightarrow> put_bytes 0 (ptr v) buf
      | _ \<Rightarrow> c_strcpy buf dflt)"

definition get_number :: "lucfg_rc \<times> int out \<Rightarrow> int \<Rightarrow> int" where
  "get_number r dflt = (case r of (LUCFG_OK, Set n) \<Rightarrow> n | _ \<Rightarrow> dflt)"

definition luftpd_cfg_load_with_file ::
  "bool \<Rightarrow> (string \<Rightarrow> string) \<Rightarrow> (string \<Rightarrow> string) \<Rightarrow> char \<Rightarrow> (string \<Rightarrow> string option) \<Rightarrow>
     luftpd_config option \<Rightarrow> string option \<Rightarrow> int \<times> luftpd_config option" where
  "luftpd_cfg_load_with_file schar freed ptr junk fs cfg config_file =
     (case (cfg, config_file) of
        (Some _, Some path) \<Rightarrow>
          let c = LUFTPD_CONFIG_INITIALIZER in
          (case lucfg_open schar freed junk (fs path) of
             None \<Rightarrow> (-1, Some c)
           | Some h \<Rightarrow>
               let c = c\<lparr>f_ip := get_array ptr (lucfg_get_string schar h ''server'' ''ip'') LUFTPD_DEFAULT_IP (f_ip c)\<rparr>;
                   c = c\<lparr>f_port := of_int (get_number (lucfg_get_uint16 schar h ''server'' ''port'') 2121)\<rparr>;
                   c = c\<lparr>root_dir := get_array ptr (lucfg_get_string schar h ''server'' ''root_dir'')
                                     LUFTPD_DEFAULT_ROOT_DIR (root_dir c)\<rparr>;
                   c = c\<lparr>max_connections := get_number (lucfg_get_int32 schar h ''server'' ''max_connections'') 10\<rparr>;
                   c = c\<lparr>data_port_min := get_number (lucfg_get_int32 schar h ''server'' ''data_port_min'') 30000\<rparr>
               in (0, Some (c\<lparr>data_port_max := get_number (lucfg_get_int32 schar h ''server'' ''data_port_max'') 30100\<rparr>)))
      | _ \<Rightarrow> (-1, cfg))"

text \<open>\<open>main\<close> loads the file of the first argument and ends if that fails; then
  \<open>luftpd_start_server\<close> loads the built-in file, whatever comes of it. The result is the configuration
  of the running server.\<close>

definition luftpd_main_config ::
  "bool \<Rightarrow> (string \<Rightarrow> string) \<Rightarrow> (string \<Rightarrow> string) \<Rightarrow> char \<Rightarrow> char \<Rightarrow> (string \<Rightarrow> string option) \<Rightarrow>
     luftpd_config \<Rightarrow> string list \<Rightarrow> luftpd_config option" where
  "luftpd_main_config schar freed ptr junk1 junk2 fs g args =
     (let config_file = (case args of [] \<Rightarrow> LUFTPD_DEFAULT_CONFIG_FILE | a # _ \<Rightarrow> a)
      in (case luftpd_cfg_load_with_file schar freed ptr junk1 fs (Some g) (Some config_file) of
            (rc, g') \<Rightarrow>
              if rc \<noteq> 0 then None
              else snd (luftpd_cfg_load_with_file schar freed ptr junk2 fs g' (Some LUFTPD_DEFAULT_CONFIG_FILE))))"

section \<open>Facts\<close>

lemma open_number:
  assumes "lucfg_open schar freed junk file = Some h"
  shows "get_number (lucfg_get_int32 schar h sec key) d \<in> {d, 0}"
    "get_number (lucfg_get_uint16 schar h sec key) d \<in> {d, 0}"
  using lucfg_open_entry [OF assms]
  by (auto simp: lucfg_get_int32_def lucfg_get_uint16_def gen_get_signed_def gen_get_unsigned_def
      get_number_def parsed_entry_def split: option.splits if_splits prod.splits lucfg_rc.splits out.splits)

lemma load_result:
  "luftpd_cfg_load_with_file schar freed ptr junk fs (Some g) (Some path) =
     luftpd_cfg_load_with_file schar freed ptr junk fs (Some g') (Some path)"
  by (simp add: luftpd_cfg_load_with_file_def)

lemma load_some: "\<exists>rc c. luftpd_cfg_load_with_file schar freed ptr junk fs (Some g) (Some path) = (rc, Some c)"
  by (cases "lucfg_open schar freed junk (fs path)") (simp_all add: luftpd_cfg_load_with_file_def Let_def)

lemma c_str_pointer:
  assumes "p \<noteq> []" "hd p \<noteq> slash"
  shows "c_str (put_bytes 0 p buf) = [] \<or> hd (c_str (put_bytes 0 p buf)) \<noteq> slash"
  using assms by (cases p) (auto simp: put_bytes_0 c_str_def)

section \<open>Properties\<close>

text \<open>The configuration file named on the command line has no effect on a server that starts: its
  configuration is what the built-in file gives, or the defaults if that file cannot be read.\<close>

lemma luftpd_main_ignores_file:
  assumes "luftpd_main_config schar freed ptr junk1 junk2 fs g args = Some c"
  shows "Some c = snd (luftpd_cfg_load_with_file schar freed ptr junk2 fs (Some g') (Some LUFTPD_DEFAULT_CONFIG_FILE)) \<and>
     (lucfg_open schar freed junk2 (fs LUFTPD_DEFAULT_CONFIG_FILE) = None \<longrightarrow> c = LUFTPD_CONFIG_INITIALIZER)"
proof -
  define f where "f = (case args of [] \<Rightarrow> LUFTPD_DEFAULT_CONFIG_FILE | a # _ \<Rightarrow> a)"
  obtain rc c1 where l: "luftpd_cfg_load_with_file schar freed ptr junk1 fs (Some g) (Some f) = (rc, Some c1)"
    using load_some by blast
  then have "Some c = snd (luftpd_cfg_load_with_file schar freed ptr junk2 fs (Some c1) (Some LUFTPD_DEFAULT_CONFIG_FILE))"
    using assms by (simp add: luftpd_main_config_def f_def [symmetric] split: if_splits)
  then show ?thesis
    unfolding load_result [of _ _ _ _ _ c1 _ g'] by (auto simp: luftpd_cfg_load_with_file_def)
qed

definition one_file :: "string \<Rightarrow> string \<Rightarrow> string \<Rightarrow> string option" where
  "one_file name content p = (if p = name then Some content else None)"

definition low_pointer :: "string \<Rightarrow> string" where
  "low_pointer v = [CHR 0xA0, CHR 0x12, CHR 0x40, CHR 0x00, CHR 0x00, CHR 0x00, CHR 0x00, CHR 0x00]"

lemma luftpd_main_ignores_file_witness:
  "luftpd_main_config True id low_pointer NUL NUL (one_file ''a.conf'' []) LUFTPD_CONFIG_INITIALIZER [''a.conf''] =
     Some LUFTPD_CONFIG_INITIALIZER"
proof -
  let ?fs = "one_file ''a.conf'' []"
  have no: "lucfg_open True id NUL (?fs LUFTPD_DEFAULT_CONFIG_FILE) = None"
    by (simp add: one_file_def lucfg_open_def LUFTPD_DEFAULT_CONFIG_FILE_def)
  have "lucfg_open True id NUL (?fs ''a.conf'') = Some empty_handle"
    by (simp add: one_file_def lucfg_open_def fgets_lines.simps)
  then have "\<exists>c. luftpd_main_config True id low_pointer NUL NUL ?fs LUFTPD_CONFIG_INITIALIZER [''a.conf''] = Some c"
    using no by (simp add: luftpd_main_config_def luftpd_cfg_load_with_file_def Let_def)
  then show ?thesis using luftpd_main_ignores_file no by metis
qed

text \<open>C39. A file that sets the root directory makes every path unusable. The array then holds the bytes of a
  pointer; unless the first of them happens to be a slash, each call of \<open>luftpd_resolve_path\<close> with that
  root is refused.\<close>

theorem luftpd_root_dir_setting:
  assumes "lucfg_open schar freed junk (fs path) = Some h"
    "lucfg_get_string schar h ''server'' ''root_dir'' = (LUCFG_OK, Set v)"
    "ptr v \<noteq> []" "hd (ptr v) \<noteq> slash"
  shows "\<exists>c'. luftpd_cfg_load_with_file schar freed ptr junk fs (Some c) (Some path) = (0, Some c') \<and>
     luftpd_resolve_path rp (Some (c_str (root_dir c'))) cur user sz = Inl EINVAL"
  using assms c_str_pointer [OF assms(3,4), of "root_dir LUFTPD_CONFIG_INITIALIZER"]
  by (auto simp: luftpd_cfg_load_with_file_def Let_def get_array_def luftpd_resolve_path_def split: option.split)

definition luftpd_conf :: "cline list" where
  "luftpd_conf = [C_section ''server'', C_pair ''root_dir'' ''/srv/ftp'']"

theorem luftpd_root_dir_setting_witness:
  "\<exists>c'. luftpd_cfg_load_with_file True id low_pointer NUL (one_file ''a.conf'' (concat (map render luftpd_conf)))
        (Some LUFTPD_CONFIG_INITIALIZER) (Some ''a.conf'') = (0, Some c') \<and>
     luftpd_resolve_path Some (Some (c_str (root_dir c'))) (Some ''/'') (Some ''a'') (Some PATH_MAX) = Inl EINVAL"
proof -
  let ?fs = "one_file ''a.conf'' (concat (map render luftpd_conf))"
  let ?h = "fold (insert_entry True) (map pair_entry (cfg_pairs [] luftpd_conf)) empty_handle"
  have wf: "list_all wf_line luftpd_conf"
    unfolding luftpd_conf_def by (simp add: word_ok_def plain_def c_isspace_def)
  have h: "lucfg_open True id NUL (?fs ''a.conf'') = Some ?h"
    using lucfg_open_render [OF wf, of NUL True id] by (simp add: one_file_def)
  have "find (pair_hits True ''server'' ''root_dir'') (rev (cfg_pairs [] luftpd_conf)) = Some (''server'', ''root_dir'', ''/srv/ftp'')"
    by (simp add: luftpd_conf_def pair_hits_def c_tolower_def)
  then have "lucfg_get_string True ?h ''server'' ''root_dir'' = (LUCFG_OK, Set ''/srv/ftp'')"
    by (simp add: lucfg_get_string_def find_entry_render)
  with luftpd_root_dir_setting [of True id NUL ?fs "''a.conf''" ?h "''/srv/ftp''" low_pointer] h show ?thesis by (simp add: low_pointer_def)
qed

text \<open>No number of the file reaches the server, except for a 0 that an empty text in quotes leaves.\<close>

lemma luftpd_cfg_numbers_ignored:
  "\<exists>rc c'. luftpd_cfg_load_with_file schar freed ptr junk fs (Some c) (Some path) = (rc, Some c') \<and>
     f_port c' \<in> {2121, 0} \<and> max_connections c' \<in> {10, 0} \<and> data_port_min c' \<in> {30000, 0} \<and>
     data_port_max c' \<in> {30100, 0}"
proof (cases "lucfg_open schar freed junk (fs path)")
  case (Some h)
  show ?thesis
    using open_number(2) [OF Some, of "''server''" "''port''" 2121] open_number(1) [OF Some, of "''server''"]
    by (auto simp: luftpd_cfg_load_with_file_def Some Let_def)
qed (simp add: luftpd_cfg_load_with_file_def LUFTPD_CONFIG_INITIALIZER_def)

end
