(* ===== verification/Luftpd_Utils.thy ===== *)
theory Luftpd_Utils
  imports Prelude
begin

text \<open>
  The text level of the file server, \<open>luftpd/src/luftpd_utils.c\<close>: \<open>luftpd_parse_command\<close>,
  \<open>luftpd_send_response\<close> and \<open>luftpd_send_raw\<close>.

  A received line is the C string in the buffer. \<open>response_bytes\<close> gives the bytes that
  \<open>luftpd_send_response\<close> passes to \<open>send\<close> for an already formatted text. The results of the
  \<open>send\<close> calls of \<open>luftpd_send_raw\<close> are a list, in the order of the calls: a negative number, or the
  number of bytes taken; the calls block for ever where the list ends.
\<close>

section \<open>Commands\<close>

abbreviation cr :: char where "cr \<equiv> CHR 0x0D"
abbreviation lf :: char where "lf \<equiv> CHR 0x0A"

definition cut_at :: "char \<Rightarrow> string \<Rightarrow> string" where
  "cut_at c s = takeWhile (\<lambda>d. d \<noteq> c) s"

definition luftpd_parse_command :: "string \<Rightarrow> string \<times> string" where
  "luftpd_parse_command cmd =
     (let buffer = take 511 (c_str cmd);
          buffer = cut_at cr buffer;
          buffer = cut_at lf buffer
      in if CHR '' '' \<in> set buffer then
           let out_cmd = take 15 (cut_at CHR '' '' buffer);
               out_arg = take 255 (tl (dropWhile (\<lambda>d. d \<noteq> CHR '' '') buffer))
           in (map c_toupper out_cmd, out_arg)
         else (map c_toupper (take 15 buffer), []))"

section \<open>Responses\<close>

text \<open>The buffer of 1024 bytes holds the first 1023 characters of the text.\<close>

definition response_bytes :: "string \<Rightarrow> string" where
  "response_bytes msg =
     (let buffer = take 1023 msg;
          len = length msg;
          len = (if 1021 \<le> len then 1021 else len)
      in if len < 2 \<or> buffer ! (len - 2) \<noteq> cr \<or> buffer ! (len - 1) \<noteq> lf
         then take len buffer @ [cr, lf] else take len buffer)"

section \<open>Raw data\<close>

fun luftpd_send_raw :: "int list \<Rightarrow> string \<Rightarrow> nat \<Rightarrow> string \<Rightarrow> (int \<times> string) option" where
  "luftpd_send_raw rs buf sent wire =
     (if sent < length buf then
        (case rs of
           [] \<Rightarrow> None
         | n # rs' \<Rightarrow>
             if n < 0 then Some (-1, wire)
             else luftpd_send_raw rs' buf (sent + nat n) (wire @ take (nat n) (drop sent buf)))
      else Some (0, wire))"

declare luftpd_send_raw.simps [simp del]

section \<open>Facts\<close>

lemma takeWhile_stop: "c \<notin> set s \<Longrightarrow> takeWhile (\<lambda>d. d \<noteq> c) (s @ c # r) = s"
  by (induction s) auto

lemma dropWhile_stop: "c \<notin> set s \<Longrightarrow> dropWhile (\<lambda>d. d \<noteq> c) (s @ c # r) = c # r"
  by (induction s) auto

lemma cut_at_id: "c \<notin> set s \<Longrightarrow> cut_at c s = s"
  by (auto simp: cut_at_def takeWhile_eq_all_conv)

lemma send_raw_run:
  assumes "wire = take sent buf" "luftpd_send_raw rs buf sent wire = Some (rc, wire')"
  shows "rc \<in> {0, -1} \<and> (rc = 0 \<longrightarrow> wire' = buf) \<and> (\<exists>k. wire' = take k buf)"
  using assms
proof (induction rs arbitrary: sent wire)
  case Nil
  then show ?case
    by (auto simp: luftpd_send_raw.simps [of "[]"] intro!: exI [of _ "length buf"] split: if_splits)
next
  case (Cons n rs)
  show ?case
  proof (cases "sent < length buf \<and> 0 \<le> n")
    case True
    have "wire @ take (nat n) (drop sent buf) = take (sent + nat n) buf"
      using Cons.prems(1) by (simp add: take_add)
    from Cons.IH [OF this] show ?thesis
      using Cons.prems(2) True by (simp add: luftpd_send_raw.simps [of "n # rs"])
  next
    case False
    then show ?thesis using Cons.prems by (auto simp: luftpd_send_raw.simps [of "n # rs"] intro: exI [of _ sent] exI [of _ "length buf"] split: if_splits)
  qed
qed

lemma response_line:
  "length (response_bytes msg) \<le> 1023 \<and> (\<exists>s. response_bytes msg = s @ [cr, lf])"
proof -
  define len where "len = (if 1021 \<le> length msg then 1021 else length msg)"
  define b where "b = take 1023 msg"
  have len: "len \<le> length b" "len \<le> 1021" by (auto simp: len_def b_def)
  have r: "response_bytes msg =
      (if len < 2 \<or> b ! (len - 2) \<noteq> cr \<or> b ! (len - 1) \<noteq> lf then take len b @ [cr, lf] else take len b)"
    by (simp add: response_bytes_def Let_def len_def b_def)
  show ?thesis
  proof (cases "len < 2 \<or> b ! (len - 2) \<noteq> cr \<or> b ! (len - 1) \<noteq> lf")
    case True
    then show ?thesis using len by (simp add: r)
  next
    case False
    then obtain k where k: "len = 2 + k" using le_Suc_ex [of 2 len] by auto
    then have "take len b = take k b @ [b ! k, b ! Suc k]"
      using len(1) by (simp add: take_Suc_conv_app_nth)
    then show ?thesis using False k len by (simp add: r)
  qed
qed

lemma response_short:
  assumes "length msg \<le> 1020" "lf \<notin> set msg"
  shows "response_bytes msg = msg @ [cr, lf]"
proof -
  have "msg ! (length msg - 1) \<noteq> lf" if "msg \<noteq> []"
    using assms(2) that by (metis diff_less length_greater_0_conv nth_mem zero_less_one)
  then show ?thesis using assms(1) by (cases "msg = []") (auto simp: response_bytes_def Let_def)
qed

lemma parse_line:
  assumes "set l \<inter> {NUL, cr, lf} = {}" "length l + 2 \<le> 511"
  shows "cut_at lf (cut_at cr (take 511 (c_str (l @ [cr, lf] @ more)))) = l"
proof -
  have "c_str (l @ [cr, lf] @ more) = l @ [cr, lf] @ c_str more"
    using assms(1) unfolding c_str_def by (subst takeWhile_append2) auto
  then have "take 511 (c_str (l @ [cr, lf] @ more)) = l @ cr # lf # take (511 - (length l + 2)) (c_str more)"
    using assms(2) by (simp add: take_Cons')
  then show ?thesis using assms(1) by (simp add: cut_at_def takeWhile_stop)
     (auto simp: takeWhile_eq_all_conv)
qed

section \<open>Properties\<close>

text \<open>Every answer on the control connection is one line for the client: it ends with CR LF, it has at
  most 1023 bytes, and a text of up to 1020 characters that is not already ended goes out complete.\<close>

lemma luftpd_send_response_line:
  assumes "length msg \<le> 1020" "lf \<notin> set msg"
  shows "response_bytes msg = msg @ [cr, lf] \<and> length (response_bytes any) \<le> 1023 \<and>
     (\<exists>s. response_bytes any = s @ [cr, lf])"
  using response_line [of any] response_short [OF assms] by blast

lemma luftpd_send_response_line_witness:
  "response_bytes ''221 Goodbye'' = ''221 Goodbye'' @ [cr, lf] \<and> length (response_bytes (replicate 2000 cr)) \<le> 1023"
  using luftpd_send_response_line [of "''221 Goodbye''" "replicate 2000 cr"] by simp

text \<open>C36. What a client's line means. The command is the text up to the first blank, in capitals and cut
  to 15 characters, the argument the text behind it, cut to 255; both end at the first CR or LF. Any
  further line that came in with the same read is dropped.\<close>

theorem luftpd_parse_command_line:
  assumes "set cmd \<inter> {NUL, cr, lf, CHR '' ''} = {}" "set arg \<inter> {NUL, cr, lf} = {}"
    "length cmd + length arg + 3 \<le> 511"
  shows "luftpd_parse_command (cmd @ '' '' @ arg @ [cr, lf] @ more) = (map c_toupper (take 15 cmd), take 255 arg) \<and>
     luftpd_parse_command (cmd @ [cr, lf] @ more) = (map c_toupper (take 15 cmd), [])"
proof -
  have b: "CHR '' '' \<notin> set cmd" using assms(1) by auto
  have "cut_at lf (cut_at cr (take 511 (c_str ((cmd @ '' '' @ arg) @ [cr, lf] @ more)))) = cmd @ '' '' @ arg"
    using assms by (intro parse_line) auto
  moreover have "cut_at lf (cut_at cr (take 511 (c_str (cmd @ [cr, lf] @ more)))) = cmd"
    using assms by (intro parse_line) auto
  ultimately show ?thesis
    using b by (simp add: luftpd_parse_command_def Let_def cut_at_def takeWhile_stop dropWhile_stop)
qed

theorem luftpd_parse_command_line_witness:
  "luftpd_parse_command (''retr a b.txt'' @ [cr, lf] @ ''QUIT'' @ [cr, lf]) = (''RETR'', ''a b.txt'')"
proof -
  have "map c_toupper (take 15 ''retr'') = ''RETR''" "take 255 ''a b.txt'' = ''a b.txt''" by code_simp+
  with luftpd_parse_command_line [of "''retr''" "''a b.txt''" "''QUIT'' @ [cr, lf]"] show ?thesis by simp
qed

end
