(* ===== verification/Luftpd_Client.thy ===== *)
theory Luftpd_Client
  imports Luftpd_Cfg Luftpd_Utils "HOL-Library.Multiset"
begin

text \<open>
  A client's connection to the file server: the command handlers and the thread function of
  \<open>luftpd/src/luftpd.c\<close>. Here \<open>luftpd_handle_client\<close> is the session of one client record that nobody else
  touches, up to the removal from the table. The table itself is the subject of theory Luftpd_Table, and theory
  Luftpd_Thread has the thread that works on its slot through a pointer, and when its session is this one.

  The operating system is a record of functions. A call reads its result from the function of its name
  at the time \<open>now\<close> of the client, and the time then goes on; the file system may change between two
  commands and within one, but not within one resolution of a path. \<open>stale\<close> is what the stack holds
  behind the end of a resolved path. The C library's \<open>strftime\<close> and \<open>inet_addr\<close> are parameters too:
  \<open>mtime_str\<close> gives the text of a time, \<open>inet_bytes\<close> the four bytes of an address in memory (all ones
  where the text is no address).

  What a client does to its descriptors is its \<open>trace\<close>: every \<open>send\<close> with the bytes it was given and
  its result, every descriptor it got from \<open>socket\<close> or \<open>accept\<close>, and every one it closed. The
  results of \<open>recv\<close> are the list of texts received; it ends where the call returns 0 or less.
\<close>

section \<open>State\<close>

datatype ftype = Dir | Reg | Special

datatype event = Sent int string int | Opened int | Closed int

datatype transfer = ASCII | BINARY

record os =
  real_at :: "nat \<Rightarrow> string \<Rightarrow> string option"
  stat_at :: "nat \<Rightarrow> string \<Rightarrow> (ftype \<times> int \<times> int) option"
  opendir_at :: "nat \<Rightarrow> string \<Rightarrow> string list option"
  fopen_at :: "nat \<Rightarrow> string \<Rightarrow> string option"
  sock_at :: "nat \<Rightarrow> int"
  bind_at :: "nat \<Rightarrow> u16 \<Rightarrow> bool"
  listen_at :: "nat \<Rightarrow> bool"
  select_at :: "nat \<Rightarrow> int"
  accept_at :: "nat \<Rightarrow> int"
  send_at :: "nat \<Rightarrow> int \<Rightarrow> int"
  stale :: "nat \<Rightarrow> string"
  mtime_str :: "int \<Rightarrow> string"
  inet_bytes :: "string \<Rightarrow> byte list"

record client =
  control_sock :: int
  data_sock :: int
  pasv_sock :: int
  is_active :: bool
  current_dir :: string
  transfer_type :: transfer
  config :: luftpd_config
  trace :: "event list"
  now :: nat

section \<open>Calls\<close>

definition tick :: "client \<Rightarrow> client" where
  "tick c = c\<lparr>now := Suc (now c)\<rparr>"

definition note_event :: "event \<Rightarrow> client \<Rightarrow> client" where
  "note_event e c = c\<lparr>trace := trace c @ [e]\<rparr>"

definition do_send :: "os \<Rightarrow> int \<Rightarrow> string \<Rightarrow> client \<Rightarrow> client" where
  "do_send os fd bs c = note_event (Sent fd bs (send_at os (now c) fd)) (tick c)"

definition respond :: "os \<Rightarrow> string \<Rightarrow> client \<Rightarrow> client" where
  "respond os msg c = do_send os (control_sock c) (response_bytes msg) c"

text \<open>A descriptor that a call returned, and the closing of one.\<close>

definition got_fd :: "int \<Rightarrow> client \<Rightarrow> client" where
  "got_fd fd c = (if fd < 0 then c else note_event (Opened fd) c)"

abbreviation do_close :: "int \<Rightarrow> client \<Rightarrow> client" where
  "do_close fd \<equiv> note_event (Closed fd)"

abbreviation root_of :: "client \<Rightarrow> string" where
  "root_of c \<equiv> c_str (root_dir (config c))"

definition resolve :: "os \<Rightarrow> string \<Rightarrow> client \<Rightarrow> errno + string" where
  "resolve os arg c =
     luftpd_resolve_path (real_at os (now c)) (Some (root_of c)) (Some (current_dir c)) (Some arg) (Some PATH_MAX)"

section \<open>Connections\<close>

definition lufptd_close_client :: "client \<Rightarrow> client" where
  "lufptd_close_client c =
     (let c = (if control_sock c \<noteq> -1 then (do_close (control_sock c) c)\<lparr>control_sock := -1\<rparr> else c);
          c = (if data_sock c \<noteq> -1 then (do_close (data_sock c) c)\<lparr>data_sock := -1\<rparr> else c);
          c = (if pasv_sock c \<noteq> -1 then (do_close (pasv_sock c) c)\<lparr>pasv_sock := -1\<rparr> else c)
      in c\<lparr>is_active := False\<rparr>)"

definition lufptd_create_data_connection :: "os \<Rightarrow> client \<Rightarrow> int \<times> client" where
  "lufptd_create_data_connection os c =
     (if pasv_sock c = -1 then (-1, c)
      else
        let result = select_at os (now c); c = tick c in
        if result \<le> 0 then (-1, c)
        else
          let fd = accept_at os (now c);
              c = got_fd fd ((tick c)\<lparr>data_sock := fd\<rparr>);
              c = (do_close (pasv_sock c) c)\<lparr>pasv_sock := -1\<rparr>
          in (if 0 \<le> data_sock c then 0 else -1, c))"

definition dec_int :: "int \<Rightarrow> string" where
  "dec_int n = (if n < 0 then CHR ''-'' # dec_digits (nat (- n)) else dec_digits (nat n))"

definition close_pasv :: "client \<Rightarrow> client" where
  "close_pasv c = (do_close (pasv_sock c) c)\<lparr>pasv_sock := -1\<rparr>"

text \<open>The loop over the ports: each \<open>bind\<close> is a call at its own time.\<close>

primrec bind_ports :: "os \<Rightarrow> int list \<Rightarrow> client \<Rightarrow> int option \<times> client" where
  "bind_ports os [] c = (None, c)"
| "bind_ports os (port # ports) c =
     (if bind_at os (now c) (of_int port) then (Some port, tick c) else bind_ports os ports (tick c))"

definition luftpd_enter_pasv_mode :: "os \<Rightarrow> client \<Rightarrow> client" where
  "luftpd_enter_pasv_mode os c =
     (let c = (if pasv_sock c \<noteq> -1 then close_pasv c else c);
          fd = sock_at os (now c);
          c = got_fd fd ((tick c)\<lparr>pasv_sock := fd\<rparr>)
      in if pasv_sock c < 0 then c
         else
           (case bind_ports os [data_port_min (config c)..data_port_max (config c)] c of
                 (None, c) \<Rightarrow> close_pasv c
               | (Some port, c) \<Rightarrow>
                   let ok = listen_at os (now c); c = tick c in
                   if \<not> ok then close_pasv c
                   else
                     let ip = inet_bytes os (c_str (f_ip (config c)));
                         ip = (if ip = replicate 4 255 then replicate 4 0 else ip)
                     in respond os (''227 Entering Passive Mode ('' @ dec_int (uint (ip ! 0)) @ '','' @
                          dec_int (uint (ip ! 1)) @ '','' @ dec_int (uint (ip ! 2)) @ '','' @
                          dec_int (uint (ip ! 3)) @ '','' @ dec_int (port div 256) @ '','' @
                          dec_int (port mod 256) @ '')'') c))"

section \<open>Handlers\<close>

text \<open>The start of the four handlers that take a path.\<close>

definition with_path :: "os \<Rightarrow> string \<Rightarrow> (string \<Rightarrow> client \<Rightarrow> client) \<Rightarrow> client \<Rightarrow> client" where
  "with_path os arg f c =
     (case resolve os arg c of
        Inl _ \<Rightarrow> respond os ''550 Failed to resolve path'' (tick c)
      | Inr p \<Rightarrow> f p (tick c))"

definition luftpd_handle_cwd :: "os \<Rightarrow> string \<Rightarrow> client \<Rightarrow> client" where
  "luftpd_handle_cwd os arg = with_path os arg (\<lambda>p c.
     case stat_at os (now c) p of
       Some (Dir, _) \<Rightarrow>
         let c = tick c;
             rel = (if length (root_of c) \<le> length p then drop (length (root_of c)) p else stale os (now c));
             c = c\<lparr>current_dir := (if rel = [] then ''/'' else take (PATH_MAX - 1) rel)\<rparr>
         in respond os ''250 Directory successfully changed'' c
     | _ \<Rightarrow> respond os ''550 Directory not found'' (tick c))"

definition listing :: "os \<Rightarrow> ftype \<times> int \<times> int \<Rightarrow> string \<Rightarrow> string" where
  "listing os st name =
     (case st of (t, sz, mtime) \<Rightarrow>
        let n = dec_int sz in
        take 511 ((if t = Dir then ''drwxr-xr-x'' else ''-rw-r--r--'') @ '' 1 ftp ftp '' @
          replicate (8 - length n) CHR '' '' @ n @ '' '' @ mtime_str os mtime @ '' '' @ name @ [cr, lf]))"

definition list_entry :: "os \<Rightarrow> string \<Rightarrow> string \<Rightarrow> client \<Rightarrow> client" where
  "list_entry os p name c =
     (if name = ''.'' \<or> name = ''..'' then c
      else
        (case stat_at os (now c) (take (PATH_MAX - 1) (p @ ''/'' @ name)) of
           None \<Rightarrow> tick c
         | Some st \<Rightarrow> do_send os (data_sock c) (listing os st name) (tick c)))"

text \<open>The end of a transfer.\<close>

definition close_data :: "client \<Rightarrow> client" where
  "close_data c = (do_close (data_sock c) c)\<lparr>data_sock := -1\<rparr>"

definition luftpd_handle_list :: "os \<Rightarrow> string \<Rightarrow> client \<Rightarrow> client" where
  "luftpd_handle_list os arg = with_path os arg (\<lambda>p c.
     case stat_at os (now c) p of
       Some (Dir, _) \<Rightarrow>
         (case lufptd_create_data_connection os (tick c) of (rc, c) \<Rightarrow>
            if rc \<noteq> 0 then respond os ''425 Can't open data connection'' c
            else
              let c = respond os ''150 Opening ASCII mode data connection for file list'' c in
              (case opendir_at os (now c) p of
                 None \<Rightarrow> respond os ''550 Failed to open directory'' (lufptd_close_client (tick c))
               | Some names \<Rightarrow>
                   respond os ''226 Transfer complete'' (close_data (fold (list_entry os p) names (tick c)))))
     | _ \<Rightarrow> respond os ''550 Directory not found'' (tick c))"

function send_blocks :: "os \<Rightarrow> string \<Rightarrow> client \<Rightarrow> client" where
  "send_blocks os content c =
     (if content = [] then c
      else
        let n = send_at os (now c) (data_sock c);
            c = do_send os (data_sock c) (take 4096 content) c
        in if n < 0 then c else send_blocks os (drop 4096 content) c)"
  by pat_completeness auto
termination
  by (relation "measure (\<lambda>(os, content, c). length content)") auto

declare send_blocks.simps [simp del]

definition luftpd_handle_retr :: "os \<Rightarrow> string \<Rightarrow> client \<Rightarrow> client" where
  "luftpd_handle_retr os arg = with_path os arg (\<lambda>p c.
     case stat_at os (now c) p of
       Some (Reg, _) \<Rightarrow>
         (case lufptd_create_data_connection os (tick c) of (rc, c) \<Rightarrow>
            if rc \<noteq> 0 then respond os ''425 Can't open data connection'' c
            else
              let c = respond os ''150 Opening data connection for file transfer'' c in
              (case fopen_at os (now c) p of
                 None \<Rightarrow> respond os ''550 Failed to open file'' (lufptd_close_client (tick c))
               | Some content \<Rightarrow>
                   respond os ''226 Transfer complete'' (close_data (send_blocks os content (tick c)))))
     | _ \<Rightarrow> respond os ''550 File not found'' (tick c))"

definition luftpd_handle_size :: "os \<Rightarrow> string \<Rightarrow> client \<Rightarrow> client" where
  "luftpd_handle_size os arg = with_path os arg (\<lambda>p c.
     case stat_at os (now c) p of
       Some (Reg, sz, _) \<Rightarrow> respond os (''213 '' @ dec_int sz) (tick c)
     | _ \<Rightarrow> respond os ''550 File not found'' (tick c))"

definition luftpd_handle_syst :: "os \<Rightarrow> client \<Rightarrow> client" where
  "luftpd_handle_syst os = respond os ''215 UNIX Type: L8''"

definition luftpd_handle_type :: "os \<Rightarrow> string \<Rightarrow> client \<Rightarrow> client" where
  "luftpd_handle_type os arg c =
     (if c_strcaseeq arg ''A'' \<or> c_strcaseeq arg ''ASCII'' then
        respond os ''200 Switching to ASCII mode'' (c\<lparr>transfer_type := ASCII\<rparr>)
      else if c_strcaseeq arg ''I'' \<or> c_strcaseeq arg ''BINARY'' then
        respond os ''200 Switching to Binary mode'' (c\<lparr>transfer_type := BINARY\<rparr>)
      else respond os ''500 Unrecognized TYPE command'' c)"

definition luftpd_handle_feat :: "os \<Rightarrow> client \<Rightarrow> client" where
  "luftpd_handle_feat os c =
     respond os ''211 End'' (respond os '' SIZE'' (respond os '' PASV'' (respond os ''211-Features:'' c)))"

section \<open>The thread\<close>

text \<open>All commands but \<open>QUIT\<close>.\<close>

definition dispatch :: "os \<Rightarrow> string \<Rightarrow> string \<Rightarrow> client \<Rightarrow> client" where
  "dispatch os cmd arg c =
     (if cmd = ''USER'' then respond os ''331 User name okay, need password'' c
      else if cmd = ''PASS'' then respond os ''230 User logged in, proceed'' c
      else if cmd = ''SYST'' then luftpd_handle_syst os c
      else if cmd = ''FEAT'' then luftpd_handle_feat os c
      else if cmd = ''PWD'' \<or> cmd = ''XPWD'' then respond os (''257 \"'' @ current_dir c @ ''\"'') c
      else if cmd = ''CWD'' then luftpd_handle_cwd os arg c
      else if cmd = ''TYPE'' then luftpd_handle_type os arg c
      else if cmd = ''PASV'' then luftpd_enter_pasv_mode os c
      else if cmd = ''LIST'' \<or> cmd = ''NLST'' then luftpd_handle_list os arg c
      else if cmd = ''RETR'' then luftpd_handle_retr os arg c
      else if cmd = ''SIZE'' then luftpd_handle_size os arg c
      else respond os ''502 Command not implemented'' c)"

fun client_loop :: "os \<Rightarrow> string list \<Rightarrow> client \<Rightarrow> client" where
  "client_loop os [] c = c"
| "client_loop os (b # bs) c =
     (if \<not> is_active c then c
      else
        (case luftpd_parse_command b of (cmd, arg) \<Rightarrow>
           if cmd = ''QUIT'' then respond os ''221 Goodbye'' c
           else client_loop os bs (dispatch os cmd arg c)))"

definition luftpd_handle_client :: "os \<Rightarrow> string list \<Rightarrow> client \<Rightarrow> client" where
  "luftpd_handle_client os received c =
     lufptd_close_client (client_loop os received (respond os ''220 Welcome to Luftpd FTP Server'' c))"

text \<open>The client as \<open>luftpd_start_server\<close> sets it up.\<close>

definition new_client :: "luftpd_config \<Rightarrow> int \<Rightarrow> client" where
  "new_client cfg fd = \<lparr>control_sock = fd, data_sock = -1, pasv_sock = -1, is_active = True, current_dir = ''/'',
     transfer_type = BINARY, config = cfg, trace = [], now = 0\<rparr>"

section \<open>Descriptors\<close>

primrec opens :: "event list \<Rightarrow> int multiset" where
  "opens [] = {#}"
| "opens (e # es) = (case e of Opened fd \<Rightarrow> {#fd#} | _ \<Rightarrow> {#}) + opens es"

primrec closes :: "event list \<Rightarrow> int multiset" where
  "closes [] = {#}"
| "closes (e # es) = (case e of Closed fd \<Rightarrow> {#fd#} | _ \<Rightarrow> {#}) + closes es"

lemma opens_append [simp]: "opens (a @ b) = opens a + opens b"
  by (induction a) simp_all

lemma closes_append [simp]: "closes (a @ b) = closes a + closes b"
  by (induction a) simp_all

definition held :: "client \<Rightarrow> int multiset" where
  "held c = mset (filter (\<lambda>fd. fd \<noteq> -1) [control_sock c, data_sock c, pasv_sock c])"

text \<open>The descriptors in the client's fields are those it started with and those it got, less those it
  closed.\<close>

definition balanced :: "int multiset \<Rightarrow> client \<Rightarrow> bool" where
  "balanced k c \<longleftrightarrow> k + opens (trace c) = closes (trace c) + held c"

text \<open>\<open>socket\<close> and \<open>accept\<close> return -1 on failure.\<close>

definition fds_ok :: "os \<Rightarrow> bool" where
  "fds_ok os \<longleftrightarrow> (\<forall>t. -1 \<le> sock_at os t \<and> -1 \<le> accept_at os t)"

lemma tick_simps [simp]:
  "control_sock (tick c) = control_sock c" "data_sock (tick c) = data_sock c" "pasv_sock (tick c) = pasv_sock c"
  "is_active (tick c) = is_active c" "current_dir (tick c) = current_dir c" "config (tick c) = config c"
  "trace (tick c) = trace c" "now (tick c) = Suc (now c)" "balanced k (tick c) = balanced k c"
  by (simp_all add: tick_def balanced_def held_def)

lemma note_event_simps [simp]:
  "control_sock (note_event e c) = control_sock c" "data_sock (note_event e c) = data_sock c"
  "pasv_sock (note_event e c) = pasv_sock c" "is_active (note_event e c) = is_active c"
  "current_dir (note_event e c) = current_dir c" "config (note_event e c) = config c"
  "trace (note_event e c) = trace c @ [e]" "now (note_event e c) = now c"
  by (simp_all add: note_event_def)

lemma do_send_simps [simp]:
  "control_sock (do_send os fd bs c) = control_sock c" "data_sock (do_send os fd bs c) = data_sock c"
  "pasv_sock (do_send os fd bs c) = pasv_sock c" "is_active (do_send os fd bs c) = is_active c"
  "current_dir (do_send os fd bs c) = current_dir c" "config (do_send os fd bs c) = config c"
  "trace (do_send os fd bs c) = trace c @ [Sent fd bs (send_at os (now c) fd)]"
  "now (do_send os fd bs c) = Suc (now c)" "balanced k (do_send os fd bs c) = balanced k c"
  by (simp_all add: do_send_def balanced_def held_def)

lemma respond_simps [simp]:
  "control_sock (respond os m c) = control_sock c" "data_sock (respond os m c) = data_sock c"
  "pasv_sock (respond os m c) = pasv_sock c" "is_active (respond os m c) = is_active c"
  "current_dir (respond os m c) = current_dir c" "config (respond os m c) = config c"
  "trace (respond os m c) = trace c @ [Sent (control_sock c) (response_bytes m) (send_at os (now c) (control_sock c))]"
  "now (respond os m c) = Suc (now c)" "balanced k (respond os m c) = balanced k c"
  by (simp_all add: respond_def)

text \<open>Trying ports changes nothing but the time.\<close>

lemma bind_ports_later: "\<exists>n. snd (bind_ports os ps c) = c\<lparr>now := n\<rparr>"
proof (induction ps arbitrary: c)
  case Nil
  show ?case by (intro exI [of _ "now c"]) simp
next
  case (Cons q ps)
  from Cons.IH [of "tick c"] show ?case by (auto simp: tick_def)
qed

lemma bind_ports_keeps:
  assumes "bind_ports os ps c = (r, c')" "\<And>n. P (c\<lparr>now := n\<rparr>)"
  shows "P c'"
  using assms bind_ports_later [of os ps c] by auto

lemma balanced_close_client:
  assumes "balanced k c"
  shows "balanced k (lufptd_close_client c) \<and> held (lufptd_close_client c) = {#} \<and> data_sock (lufptd_close_client c) = -1"
  using assms by (simp add: lufptd_close_client_def balanced_def held_def Let_def)

lemma balanced_close_pasv: "balanced k c \<Longrightarrow> pasv_sock c \<noteq> -1 \<Longrightarrow> balanced k (close_pasv c)"
  by (simp add: close_pasv_def balanced_def held_def)

lemma balanced_close_data: "balanced k c \<Longrightarrow> data_sock c \<noteq> -1 \<Longrightarrow> balanced k (close_data c)"
  by (simp add: close_data_def balanced_def held_def)

lemma close_data_fields [simp]: "data_sock (close_data c) = -1" "data_sock (close_pasv c) = data_sock c"
  by (simp_all add: close_data_def close_pasv_def)

text \<open>Between two commands no data connection is open.\<close>

definition client_inv :: "int multiset \<Rightarrow> client \<Rightarrow> bool" where
  "client_inv k c \<longleftrightarrow> balanced k c \<and> data_sock c = -1"

lemma client_inv_simps [simp]:
  "client_inv k (respond os m c) = client_inv k c" "client_inv k (tick c) = client_inv k c"
  "client_inv k (c\<lparr>current_dir := d\<rparr>) = client_inv k c" "client_inv k (c\<lparr>transfer_type := t\<rparr>) = client_inv k c"
  by (simp_all add: client_inv_def balanced_def held_def)

lemma client_inv_create:
  assumes "client_inv k c" "fds_ok os" "lufptd_create_data_connection os c = (rc, c')"
  shows "balanced k c' \<and> (if rc = 0 then data_sock c' \<noteq> -1 else client_inv k c')"
proof -
  have "-1 \<le> accept_at os (Suc (now c))" using assms(2) by (simp add: fds_ok_def)
  then have "accept_at os (Suc (now c)) = -1 \<or> 0 \<le> accept_at os (Suc (now c))" by linarith
  then show ?thesis
    using assms by (auto simp: lufptd_create_data_connection_def client_inv_def balanced_def held_def got_fd_def Let_def
        split: if_splits)
qed

lemma client_inv_pasv:
  assumes "client_inv k c" "fds_ok os"
  shows "client_inv k (luftpd_enter_pasv_mode os c)"
proof -
  define c1 where "c1 = (if pasv_sock c \<noteq> -1 then close_pasv c else c)"
  define fd where "fd = sock_at os (now c1)"
  define c2 where "c2 = got_fd fd ((tick c1)\<lparr>pasv_sock := fd\<rparr>)"
  have "-1 \<le> fd" using assms(2) by (simp add: fds_ok_def fd_def)
  then have fd: "fd = -1 \<or> 0 \<le> fd" by linarith
  have "client_inv k c1 \<and> pasv_sock c1 = -1"
    using assms(1) balanced_close_pasv by (auto simp: c1_def client_inv_def close_pasv_def)
  then have c2: "client_inv k c2" "pasv_sock c2 = fd"
    using fd by (auto simp: c2_def got_fd_def client_inv_def balanced_def held_def)
  have "client_inv k (close_pasv c3)" if "client_inv k c3" "pasv_sock c3 \<noteq> -1" for c3
    using that balanced_close_pasv by (simp add: client_inv_def)
  moreover have "client_inv k c3 \<and> pasv_sock c3 = fd" if "bind_ports os ps c2 = (r, c3)" for ps r c3
    by (rule bind_ports_keeps [OF that]) (use c2 in \<open>simp add: client_inv_def balanced_def held_def\<close>)
  ultimately show ?thesis
    using c2 fd unfolding luftpd_enter_pasv_mode_def c1_def [symmetric] Let_def fd_def [symmetric] c2_def [symmetric]
    by (auto split: option.split prod.split)
qed

lemma send_blocks_keeps: "balanced k (send_blocks os b c) = balanced k c \<and> data_sock (send_blocks os b c) = data_sock c"
proof (induction os b c rule: send_blocks.induct)
  case (1 os b c)
  then show ?case by (subst (1 2) send_blocks.simps) (simp add: Let_def)
qed

lemma list_entries_keep:
  "balanced k (fold (list_entry os p) ns c) = balanced k c \<and> data_sock (fold (list_entry os p) ns c) = data_sock c"
proof (induction ns arbitrary: c)
  case (Cons n ns)
  have "balanced k (list_entry os p n c) = balanced k c \<and> data_sock (list_entry os p n c) = data_sock c"
    by (simp add: list_entry_def split: option.split)
  then show ?case using Cons.IH [of "list_entry os p n c"] by simp
qed simp

lemma client_inv_closed: "balanced k c \<Longrightarrow> client_inv k (lufptd_close_client c)"
  using balanced_close_client by (simp add: client_inv_def)

lemma client_inv_done: "balanced k c \<Longrightarrow> data_sock c \<noteq> -1 \<Longrightarrow> client_inv k (close_data c)"
  using balanced_close_data by (simp add: client_inv_def)

lemma client_inv_path:
  assumes "client_inv k c" "\<And>p c'. client_inv k c' \<Longrightarrow> client_inv k (f p c')"
  shows "client_inv k (with_path os arg f c)"
  using assms by (simp add: with_path_def split: sum.split)

lemma client_inv_dispatch:
  assumes c: "client_inv k c" and os: "fds_ok os"
  shows "client_inv k (dispatch os cmd arg c)"
proof -
  have "client_inv k (luftpd_handle_cwd os arg c)"
    unfolding luftpd_handle_cwd_def by (rule client_inv_path [OF c]) (simp add: Let_def split: option.split ftype.split)
  moreover have "client_inv k (luftpd_handle_list os arg c)"
    unfolding luftpd_handle_list_def
    by (rule client_inv_path [OF c])
      (auto simp: Let_def list_entries_keep intro!: client_inv_closed client_inv_done
        split: option.split ftype.split prod.split if_splits dest!: client_inv_create [OF _ os, rotated])
  moreover have "client_inv k (luftpd_handle_retr os arg c)"
    unfolding luftpd_handle_retr_def
    by (rule client_inv_path [OF c])
      (auto simp: Let_def send_blocks_keeps intro!: client_inv_closed client_inv_done
        split: option.split ftype.split prod.split if_splits dest!: client_inv_create [OF _ os, rotated])
  moreover have "client_inv k (luftpd_handle_size os arg c)"
    unfolding luftpd_handle_size_def by (rule client_inv_path [OF c]) (simp split: option.split ftype.split)
  ultimately show ?thesis
    using c client_inv_pasv [OF c os]
    by (simp add: dispatch_def luftpd_handle_syst_def luftpd_handle_feat_def luftpd_handle_type_def)
qed

lemma client_inv_loop: "client_inv k c \<Longrightarrow> fds_ok os \<Longrightarrow> client_inv k (client_loop os bs c)"
  by (induction os bs c rule: client_loop.induct) (simp_all add: client_inv_dispatch split: prod.split)

text \<open>A client that is alone in its slot: over a whole session the descriptors that are closed are exactly the
  control connection and those that \<open>socket\<close> and \<open>accept\<close> returned, and its fields hold none at the end.\<close>

lemma luftpd_client_descriptors:
  assumes "fds_ok os" "fd \<noteq> -1"
  shows "closes (trace (luftpd_handle_client os received (new_client cfg fd))) =
      {#fd#} + opens (trace (luftpd_handle_client os received (new_client cfg fd))) \<and>
     held (luftpd_handle_client os received (new_client cfg fd)) = {#}"
proof -
  have "client_inv {#fd#} (respond os ''220 Welcome to Luftpd FTP Server'' (new_client cfg fd))"
    using assms(2) by (simp add: client_inv_def balanced_def held_def new_client_def)
  from client_inv_loop [OF this assms(1), of received]
  have "balanced {#fd#} (client_loop os received (respond os ''220 Welcome to Luftpd FTP Server'' (new_client cfg fd)))"
    by (simp add: client_inv_def)
  from balanced_close_client [OF this] show ?thesis
    by (simp add: luftpd_handle_client_def balanced_def)
qed

section \<open>A root that cannot be reached\<close>

text \<open>The root directory is not the host's root, the host's root is what it is, and resolved paths are
  canonical.\<close>

definition plain_root :: "os \<Rightarrow> string \<Rightarrow> bool" where
  "plain_root os dir \<longleftrightarrow> (\<forall>t. real_at os t ''/'' = Some ''/'' \<and> real_at os t (drop_slash dir) \<noteq> Some ''/'' \<and>
     (\<forall>p q. real_at os t p = Some q \<longrightarrow> canonical q))"

lemma resolve_at_top:
  assumes "plain_root os (root_of c)" "current_dir c = ''/''"
  shows "\<exists>e. resolve os arg c = Inl e"
proof (rule ccontr)
  assume "\<not> ?thesis"
  then obtain p where "resolve os arg c = Inr p" by (cases "resolve os arg c") auto
  then obtain rt where r: "real_at os (now c) (drop_slash (root_of c)) = Some rt" "starts_with ''/'' rt"
    using resolve_parts [of "real_at os (now c)" "root_of c" "''/''" arg PATH_MAX p] assms
    by (auto simp: resolve_def plain_root_def)
  then have "canonical rt" "rt \<noteq> ''/''" using assms(1) by (auto simp: plain_root_def)
  then show False
    using canonical_root(1) [of rt] r(2) by (cases rt) (auto simp: starts_with_def)
qed

definition path_commands :: "string set" where
  "path_commands = {''CWD'', ''LIST'', ''NLST'', ''RETR'', ''SIZE''}"

lemma dispatch_at_top:
  assumes "plain_root os (root_of c)" "current_dir c = ''/''" "cmd \<in> path_commands"
  shows "dispatch os cmd arg c = respond os ''550 Failed to resolve path'' (tick c)"
proof -
  have "with_path os arg f c = respond os ''550 Failed to resolve path'' (tick c)" for f
    using resolve_at_top [OF assms(1,2), of arg] by (auto simp: with_path_def)
  then show ?thesis using assms(3) unfolding path_commands_def
    by (elim insertE emptyE) (simp_all add: dispatch_def luftpd_handle_cwd_def luftpd_handle_list_def
        luftpd_handle_retr_def luftpd_handle_size_def)
qed

text \<open>Only the control connection is written to.\<close>

definition only_control :: "int \<Rightarrow> luftpd_config \<Rightarrow> client \<Rightarrow> bool" where
  "only_control fd cfg c \<longleftrightarrow> control_sock c = fd \<and> current_dir c = ''/'' \<and> config c = cfg \<and>
     (\<forall>f bs n. Sent f bs n \<in> set (trace c) \<longrightarrow> f = fd)"

lemma only_control_simps:
  "only_control fd cfg c \<Longrightarrow> only_control fd cfg (respond os m c)"
  "only_control fd cfg c \<Longrightarrow> only_control fd cfg (tick c)"
  "only_control fd cfg c \<Longrightarrow> only_control fd cfg (got_fd d c)"
  "only_control fd cfg c \<Longrightarrow> only_control fd cfg (close_pasv c)"
  "only_control fd cfg c \<Longrightarrow> only_control fd cfg (c\<lparr>pasv_sock := d\<rparr>)"
  "only_control fd cfg c \<Longrightarrow> only_control fd cfg (c\<lparr>transfer_type := t\<rparr>)"
  "only_control fd cfg c \<Longrightarrow> only_control fd cfg (c\<lparr>now := n\<rparr>)"
  by (auto simp: only_control_def got_fd_def close_pasv_def)

lemma only_control_pasv: "only_control fd cfg c \<Longrightarrow> only_control fd cfg (luftpd_enter_pasv_mode os c)"
  unfolding luftpd_enter_pasv_mode_def Let_def
  by (auto split: option.split prod.split intro!: only_control_simps
      dest!: bind_ports_keeps [where P = "only_control fd cfg", OF _ only_control_simps(7)])

lemma only_control_dispatch:
  assumes "only_control fd cfg c" "plain_root os (c_str (root_dir cfg))"
  shows "only_control fd cfg (dispatch os cmd arg c)"
proof (cases "cmd \<in> path_commands")
  case True
  then show ?thesis using dispatch_at_top [of os c cmd arg] assms by (simp add: only_control_def)
next
  case False
  then show ?thesis using assms(1) only_control_pasv [OF assms(1)]
    by (simp add: dispatch_def path_commands_def luftpd_handle_syst_def luftpd_handle_feat_def luftpd_handle_type_def
        only_control_simps)
qed

lemma only_control_loop:
  "only_control fd cfg c \<Longrightarrow> plain_root os (c_str (root_dir cfg)) \<Longrightarrow> only_control fd cfg (client_loop os bs c)"
  by (induction os bs c rule: client_loop.induct)
    (simp_all add: only_control_dispatch only_control_simps split: prod.split)

lemma close_client_trace:
  "current_dir (lufptd_close_client c) = current_dir c"
  "Sent f bs n \<in> set (trace (lufptd_close_client c)) \<longleftrightarrow> Sent f bs n \<in> set (trace c)"
  by (simp_all add: lufptd_close_client_def Let_def)

section \<open>Transfers\<close>

text \<open>The blocks of a transfer whose sends succeed.\<close>

definition data_events :: "int \<Rightarrow> (string \<times> int) list \<Rightarrow> event list" where
  "data_events fd bl = map (\<lambda>(b, n). Sent fd b n) bl"

lemma send_blocks_socks:
  "control_sock (send_blocks os b c) = control_sock c \<and> pasv_sock (send_blocks os b c) = pasv_sock c"
proof (induction os b c rule: send_blocks.induct)
  case (1 os b c)
  then show ?case by (subst (1 2) send_blocks.simps) (simp add: Let_def)
qed

lemma send_blocks_fields [simp]:
  "control_sock (send_blocks os b c) = control_sock c" "pasv_sock (send_blocks os b c) = pasv_sock c"
  "data_sock (send_blocks os b c) = data_sock c"
  using send_blocks_socks send_blocks_keeps by simp_all

lemma send_blocks_all:
  assumes "\<forall>t. 0 \<le> send_at os t (data_sock c)"
  shows "\<exists>bl. trace (send_blocks os b c) = trace c @ data_events (data_sock c) bl \<and> concat (map fst bl) = b \<and>
     list_all (\<lambda>x. length (fst x) \<le> 4096) bl"
  using assms
proof (induction os b c rule: send_blocks.induct)
  case (1 os b c)
  show ?case
  proof (cases "b = []")
    case True
    then show ?thesis by (intro exI [of _ "[]"]) (simp add: send_blocks.simps data_events_def)
  next
    case False
    let ?c = "do_send os (data_sock c) (take 4096 b) c"
    obtain bl where "trace (send_blocks os (drop 4096 b) ?c) = trace ?c @ data_events (data_sock c) bl"
        "concat (map fst bl) = drop 4096 b" "list_all (\<lambda>x. length (fst x) \<le> 4096) bl"
      using 1(1) [OF False refl refl] 1(2) by (auto simp: not_less)
    moreover have "\<not> send_at os (now c) (data_sock c) < 0" using 1(2) by (simp add: not_less)
    ultimately show ?thesis
      using False by (intro exI [of _ "(take 4096 b, send_at os (now c) (data_sock c)) # bl"])
        (simp add: send_blocks.simps [of os b c] data_events_def Let_def not_less)
  qed
qed

definition is_sent :: "event \<Rightarrow> bool" where
  "is_sent e = (case e of Sent _ _ _ \<Rightarrow> True | _ \<Rightarrow> False)"

section \<open>Properties\<close>

definition demo_os :: os where
  "demo_os = \<lparr>real_at = (\<lambda>_ p. if p \<in> {''/'', ''/tmp/luftp_root'', ''/tmp/luftp_root/a''} then Some p else None),
     stat_at = (\<lambda>_ _. Some (Reg, 5, 0)), opendir_at = (\<lambda>_ _. None), fopen_at = (\<lambda>_ _. Some ''hello''),
     sock_at = (\<lambda>_. 7), bind_at = (\<lambda>_ _. True), listen_at = (\<lambda>_. True), select_at = (\<lambda>_. 1),
     accept_at = (\<lambda>_. 8), send_at = (\<lambda>_ _. 1), stale = (\<lambda>_. []), mtime_str = (\<lambda>_. ''Jan 01 00:00''),
     inet_bytes = (\<lambda>_. [127, 0, 0, 1])\<rparr>"

text \<open>C17. The server serves nothing. If the root directory is any directory but the host's own root, then in
  every session each command that takes a path is answered with \<open>550 Failed to resolve path\<close>, the
  current directory stays what it is, and no byte is ever sent but on the control connection: the
  directory inside of the root is resolved as if it were a path of the host.\<close>

theorem luftpd_serves_nothing:
  assumes "plain_root os (c_str (root_dir cfg))"
  shows "(\<forall>f bs n. Sent f bs n \<in> set (trace (luftpd_handle_client os received (new_client cfg fd))) \<longrightarrow> f = fd) \<and>
     current_dir (luftpd_handle_client os received (new_client cfg fd)) = ''/'' \<and>
     (\<forall>c cmd arg. config c = cfg \<and> current_dir c = ''/'' \<and> cmd \<in> path_commands \<longrightarrow>
        dispatch os cmd arg c = respond os ''550 Failed to resolve path'' (tick c))"
proof -
  have "only_control fd cfg (respond os ''220 Welcome to Luftpd FTP Server'' (new_client cfg fd))"
    by (simp add: only_control_def new_client_def)
  from only_control_loop [OF this assms, of received] show ?thesis
    using dispatch_at_top assms
    by (auto simp: luftpd_handle_client_def only_control_def close_client_trace)
qed


lemma demo_root: "c_str (root_dir LUFTPD_CONFIG_INITIALIZER) = ''/tmp/luftp_root''" "drop_slash ''/tmp/luftp_root'' = ''/tmp/luftp_root''"
  by (simp_all add: LUFTPD_CONFIG_INITIALIZER_def LUFTPD_DEFAULT_ROOT_DIR_def c_str_def drop_slash_def)

theorem luftpd_serves_nothing_witness:
  "current_dir (luftpd_handle_client demo_os [''CWD a''] (new_client LUFTPD_CONFIG_INITIALIZER 4)) = ''/'' \<and>
     dispatch demo_os ''RETR'' ''a'' (new_client LUFTPD_CONFIG_INITIALIZER 4) =
       respond demo_os ''550 Failed to resolve path'' (tick (new_client LUFTPD_CONFIG_INITIALIZER 4))"
proof -
  have n: "list_all is_name [''tmp'', ''luftp_root'']" "list_all is_name [''tmp'', ''luftp_root'', ''a'']"
    by (simp_all add: is_name_def)
  have "canonical ''/tmp/luftp_root''" "canonical ''/tmp/luftp_root/a''" "canonical ''/''"
    using canonical_join [OF _ n(1)] canonical_join [OF _ n(2)] by (simp_all add: canonical_def [of "''/''"])
  then have "plain_root demo_os (c_str (root_dir LUFTPD_CONFIG_INITIALIZER))"
    unfolding demo_root plain_root_def by (simp add: demo_os_def demo_root)
  from luftpd_serves_nothing [OF this] show ?thesis by (simp add: path_commands_def new_client_def)
qed

text \<open>C21. A transfer. If the path of a RETR resolves to a regular file, a client connects to the passive
  socket, the file can be opened and no send fails, then the answer 150 is followed by the whole content
  of the file on the data connection, in blocks of at most 4096 bytes, and by the answer 226; the
  passive socket and the data connection are closed. (A send that takes less than its block is
  not noticed: the bytes are those handed to \<open>send\<close>.)\<close>

theorem luftpd_retr_transfers:
  assumes "resolve os arg c = Inr p" "stat_at os (now c + 1) p = Some (Reg, x)" "pasv_sock c \<noteq> -1"
    "0 < select_at os (now c + 2)" "accept_at os (now c + 3) = d" "0 \<le> d" "fopen_at os (now c + 5) p = Some content"
    "\<forall>t. 0 \<le> send_at os t d"
  shows "\<exists>bl n n'. trace (dispatch os ''RETR'' arg c) = trace c @
       [Opened d, Closed (pasv_sock c), Sent (control_sock c) (response_bytes ''150 Opening data connection for file transfer'') n] @
       data_events d bl @ [Closed d, Sent (control_sock c) (response_bytes ''226 Transfer complete'') n'] \<and>
     concat (map fst bl) = content \<and> list_all (\<lambda>x. length (fst x) \<le> 4096) bl \<and>
     data_sock (dispatch os ''RETR'' arg c) = -1 \<and> pasv_sock (dispatch os ''RETR'' arg c) = -1"
proof -
  define c1 where "c1 = (do_close (pasv_sock c) (got_fd d ((tick (tick (tick (tick c))))\<lparr>data_sock := d\<rparr>)))\<lparr>pasv_sock := -1\<rparr>"
  have create: "lufptd_create_data_connection os (tick (tick c)) = (0, c1)"
    using assms(3-6) by (simp add: lufptd_create_data_connection_def c1_def Let_def got_fd_def eval_nat_numeral)
  have c1: "control_sock c1 = control_sock c" "data_sock c1 = d" "pasv_sock c1 = -1" "now c1 = now c + 4"
      "trace c1 = trace c @ [Opened d, Closed (pasv_sock c)]"
    using assms(6) by (simp_all add: c1_def got_fd_def)
  define c2 where "c2 = tick (respond os ''150 Opening data connection for file transfer'' c1)"
  have fo: "fopen_at os (Suc (now c1)) p = Some content" using assms(7) c1(4) by (simp add: eval_nat_numeral)
  have run: "dispatch os ''RETR'' arg c = respond os ''226 Transfer complete'' (close_data (send_blocks os content c2))"
    using assms(1,2) create fo by (simp add: dispatch_def luftpd_handle_retr_def with_path_def c2_def Let_def)
  have c2: "data_sock c2 = d" "control_sock c2 = control_sock c" "pasv_sock c2 = -1"
    by (simp_all add: c2_def c1)
  obtain bl where "trace (send_blocks os content c2) = trace c2 @ data_events d bl" "concat (map fst bl) = content"
      "list_all (\<lambda>x. length (fst x) \<le> 4096) bl"
    using send_blocks_all [of os c2 content] assms(8) c2(1) by auto
  then show ?thesis
    unfolding run by (intro exI [of _ bl]) (simp add: c2 close_data_def c2_def c1)
qed

definition served :: client where
  "served = (new_client (LUFTPD_CONFIG_INITIALIZER\<lparr>root_dir := ''/''\<rparr>) 4)\<lparr>pasv_sock := 7\<rparr>"

theorem luftpd_retr_transfers_witness:
  "\<exists>bl n n'. trace (dispatch demo_os ''RETR'' ''tmp/luftp_root/a'' served) =
       [Opened 8, Closed 7, Sent 4 (response_bytes ''150 Opening data connection for file transfer'') n] @
       data_events 8 bl @ [Closed 8, Sent 4 (response_bytes ''226 Transfer complete'') n'] \<and> concat (map fst bl) = ''hello''"
proof -
  have "resolve demo_os ''tmp/luftp_root/a'' served = Inr ''/tmp/luftp_root/a''"
    by code_simp
  from luftpd_retr_transfers [OF this, of "(5, 0)" 8 "''hello''"] show ?thesis
    by (simp add: demo_os_def served_def new_client_def) blast
qed

text \<open>A passive mode that fails is not answered. If no port of the range can be bound, PASV sends nothing
  at all: the client waits for an answer that never comes.\<close>

lemma luftpd_pasv_failure_silent:
  assumes "\<forall>t q. \<not> bind_at os t q"
  shows "filter is_sent (trace (dispatch os ''PASV'' arg c)) = filter is_sent (trace c)"
proof -
  have bind: "\<exists>n. bind_ports os ps c = (None, c\<lparr>now := n\<rparr>)" for ps c
  proof (induction ps arbitrary: c)
    case Nil
    show ?case by (intro exI [of _ "now c"]) simp
  next
    case (Cons q ps)
    from Cons.IH [of "tick c"] assms show ?case by (auto simp: tick_def)
  qed
  have failed: "filter is_sent (trace (case bind_ports os ps d of (None, d) \<Rightarrow> close_pasv d | (Some port, d) \<Rightarrow> f port d)) =
      filter is_sent (trace d)" for ps d f
    using bind [of ps d] by (auto simp: close_pasv_def is_sent_def)
  have "filter is_sent (trace (luftpd_enter_pasv_mode os c)) = filter is_sent (trace c)"
    unfolding luftpd_enter_pasv_mode_def Let_def by (simp add: failed) (simp add: close_pasv_def got_fd_def is_sent_def)
  then show ?thesis by (simp add: dispatch_def)
qed

lemma luftpd_pasv_failure_silent_witness:
  "filter is_sent (trace (dispatch (demo_os\<lparr>bind_at := \<lambda>_ _. False\<rparr>) ''PASV'' [] served)) = []"
  using luftpd_pasv_failure_silent [of "demo_os\<lparr>bind_at := \<lambda>_ _. False\<rparr>" "[]" served]
  by (simp add: served_def new_client_def)

end
