(* ===== verification/Luftpd_Table.thy ===== *)
theory Luftpd_Table
  imports Luftpd_Client
begin

text \<open>
  The table of clients of the file server, \<open>g_clients\<close> and \<open>g_client_count\<close> (\<open>luftpd/src/luftpd.c\<close>): the
  accept loop of \<open>luftpd_start_server\<close>, which puts a client into the table and starts its thread, and the end
  of \<open>luftpd_handle_client\<close>, which takes it out.

  A slot is a client with the identifier of its thread. A thread keeps the pointer it was started with: the
  position in the array, so what it works on is the content of that slot at the time. Both operations hold the
  mutex and are one step. \<open>abs_table\<close> is the intended content: the list of the clients in the table.
\<close>

section \<open>The table\<close>

record slot =
  thread_id :: int
  cl :: client

record table =
  slots :: "slot list"
  g_client_count :: nat

text \<open>A connection that was accepted: \<open>tid\<close> is the identifier of the thread that was created, if it was;
  \<open>n\<close> is the number of the \<open>send\<close>, if there is one. What the main thread does to the socket is the list of
  events. The configuration's \<open>max_connections\<close> is the size of the array.\<close>

definition on_accept :: "os \<Rightarrow> luftpd_config \<Rightarrow> nat \<Rightarrow> int \<Rightarrow> int option \<Rightarrow> table \<Rightarrow> event list \<times> table" where
  "on_accept os cfg n client_sock tid t =
     (if max_connections cfg \<le> int (g_client_count t) then
        ([Sent client_sock (response_bytes ''421 Too many connections, try again later'') (send_at os n client_sock),
          Closed client_sock], t)
      else
        let i = g_client_count t;
            t = t\<lparr>slots := (slots t)[i := \<lparr>thread_id = 0, cl = new_client cfg client_sock\<rparr>]\<rparr>
        in (case tid of
              Some k \<Rightarrow> ([],
                t\<lparr>slots := (slots t)[i := (slots t ! i)\<lparr>thread_id := k\<rparr>], g_client_count := Suc i\<rparr>)
            | None \<Rightarrow> ([Closed client_sock], t)))"

text \<open>The inner loop of the removal, for \<open>j\<close> from \<open>i\<close> on.\<close>

definition shift_down :: "nat \<Rightarrow> nat \<Rightarrow> slot list \<Rightarrow> slot list" where
  "shift_down i n xs = fold (\<lambda>j xs. xs[j := xs ! Suc j]) [i..<n - 1] xs"

text \<open>The removal of the client that the pointer \<open>p\<close> points to.\<close>

definition remove_client :: "nat \<Rightarrow> table \<Rightarrow> table" where
  "remove_client p t =
     (case find (\<lambda>i. thread_id (slots t ! i) = thread_id (slots t ! p)) [0..<g_client_count t] of
        None \<Rightarrow> t
      | Some i \<Rightarrow> t\<lparr>slots := shift_down i (g_client_count t) (slots t), g_client_count := g_client_count t - 1\<rparr>)"

section \<open>The list of clients\<close>

definition abs_table :: "table \<Rightarrow> slot list" where
  "abs_table t = take (g_client_count t) (slots t)"

definition delete_at :: "nat \<Rightarrow> 'a list \<Rightarrow> 'a list" where
  "delete_at i xs = take i xs @ drop (Suc i) xs"

definition table_inv :: "luftpd_config \<Rightarrow> table \<Rightarrow> bool" where
  "table_inv cfg t \<longleftrightarrow> int (length (slots t)) = max_connections cfg \<and> g_client_count t \<le> length (slots t) \<and>
     distinct (map thread_id (abs_table t))"

lemma shift_down_nth:
  assumes "n \<le> length xs" "i < n"
  shows "shift_down i n xs = take i xs @ take (n - Suc i) (drop (Suc i) xs) @ drop (n - 1) xs"
  using assms
proof (induction "n - 1 - i" arbitrary: i xs)
  case 0
  then have "i = n - 1" by simp
  then show ?case using 0 by (simp add: shift_down_def)
next
  case (Suc m)
  then have i: "i < n - 1" "Suc i < n" "Suc i < length xs" by auto
  have "shift_down i n xs = shift_down (Suc i) n (xs[i := xs ! Suc i])"
    using i(1) by (simp add: shift_down_def upt_conv_Cons)
  also have "\<dots> = take (Suc i) (xs[i := xs ! Suc i]) @ take (n - Suc (Suc i)) (drop (Suc (Suc i)) xs) @ drop (n - 1) xs"
    using Suc(1) [of "Suc i" "xs[i := xs ! Suc i]"] Suc(2-4) i by (simp add: drop_update_cancel)
  also have "take (Suc i) (xs[i := xs ! Suc i]) = take i xs @ [xs ! Suc i]"
    using i by (simp add: take_Suc_conv_app_nth)
  also have "take (n - Suc i) (drop (Suc i) xs) = xs ! Suc i # take (n - Suc (Suc i)) (drop (Suc (Suc i)) xs)"
    using i by (metis Cons_nth_drop_Suc Suc_diff_Suc take_Suc_Cons)
  ultimately show ?case by simp
qed

lemma find_thread:
  assumes "distinct (map thread_id (take n xs))" "p < n" "n \<le> length xs"
  shows "find (\<lambda>i. thread_id (xs ! i) = thread_id (xs ! p)) [0..<n] = Some p"
proof -
  have "thread_id (xs ! i) = thread_id (xs ! p) \<longleftrightarrow> i = p" if "i < n" for i
    using assms that nth_eq_iff_index_eq [OF assms(1), of i p] by simp
  then show ?thesis using assms(2) by (auto simp: find_Some_iff)
qed

lemma remove_client_slots:
  assumes "table_inv cfg t" "p < g_client_count t"
  shows "slots (remove_client p t) = take p (slots t) @
      take (g_client_count t - Suc p) (drop (Suc p) (slots t)) @ drop (g_client_count t - 1) (slots t)"
    "g_client_count (remove_client p t) = g_client_count t - 1"
  using assms find_thread [of "g_client_count t" "slots t" p] shift_down_nth [of "g_client_count t" "slots t" p]
  by (simp_all add: remove_client_def table_inv_def abs_table_def)

lemma remove_client_length:
  assumes "table_inv cfg t" "p < g_client_count t"
  shows "length (slots (remove_client p t)) = length (slots t)"
proof -
  have "g_client_count t \<le> length (slots t)" using assms(1) by (simp add: table_inv_def)
  then show ?thesis using assms(2) by (simp add: remove_client_slots(1) [OF assms] min_def; linarith)
qed

lemma remove_client_abs:
  assumes "table_inv cfg t" "p < g_client_count t"
  shows "abs_table (remove_client p t) = delete_at p (abs_table t)"
proof -
  define n xs where "n = g_client_count t" and "xs = slots t"
  have n: "n \<le> length xs" "p < n" using assms by (simp_all add: table_inv_def n_def xs_def)
  have "min (length xs) p = p" "min (length xs - Suc p) (n - Suc p) = n - Suc p" using n by simp_all
  then have "length (take p xs @ take (n - Suc p) (drop (Suc p) xs)) = n - 1" using n by simp
  then have "take (n - 1) ((take p xs @ take (n - Suc p) (drop (Suc p) xs)) @ drop (n - 1) xs) =
      take p xs @ take (n - Suc p) (drop (Suc p) xs)"
    by (metis append_eq_conv_conj)
  moreover have "delete_at p (take n xs) = take p xs @ take (n - Suc p) (drop (Suc p) xs)"
    using n by (simp add: delete_at_def drop_take)
  ultimately show ?thesis
    unfolding abs_table_def remove_client_slots [OF assms] n_def xs_def by simp
qed

lemma distinct_delete_at: "distinct (delete_at i xs)" if "distinct xs"
proof -
  have "distinct (take i xs @ drop i xs)" using that by simp
  moreover have "set (drop (Suc i) xs) \<subseteq> set (drop i xs)" by (rule set_drop_subset_set_drop) simp
  ultimately show ?thesis unfolding distinct_append delete_at_def using that by (simp add: distinct_drop) blast
qed

lemma delete_at_map: "map f (delete_at i xs) = delete_at i (map f xs)"
  by (simp add: delete_at_def take_map drop_map)

lemma remove_client_inv:
  assumes "table_inv cfg t" "p < g_client_count t"
  shows "table_inv cfg (remove_client p t)"
proof -
  have "distinct (map thread_id (abs_table (remove_client p t)))"
    using assms(1) by (simp add: remove_client_abs [OF assms] delete_at_map distinct_delete_at table_inv_def)
  moreover have "g_client_count (remove_client p t) \<le> length (slots (remove_client p t))"
    using assms(1) unfolding remove_client_slots(2) [OF assms] remove_client_length [OF assms] table_inv_def by linarith
  ultimately show ?thesis
    using assms(1) by (simp add: table_inv_def remove_client_length [OF assms])
qed

lemma on_accept_abs:
  assumes "table_inv cfg t" "int (g_client_count t) < max_connections cfg" "on_accept os cfg n fd (Some k) t = (ev, t')"
  shows "abs_table t' = abs_table t @ [\<lparr>thread_id = k, cl = new_client cfg fd\<rparr>] \<and> ev = [] \<and>
     length (slots t') = length (slots t) \<and> g_client_count t' = Suc (g_client_count t)"
  using assms by (auto simp: on_accept_def abs_table_def table_inv_def take_Suc_conv_app_nth Let_def)

section \<open>Properties\<close>

text \<open>C18. The table holds the clients. Taken as the list of its clients, the table does what it is meant to
  do: a connection is answered 421 and closed when the table is full, otherwise it is put at the end if its thread starts;
  the end of a thread takes out exactly the client in its slot and keeps the order of the others; the
  thread identifiers stay distinct.\<close>

theorem luftpd_table_refines:
  assumes "table_inv cfg t" "p < g_client_count t" "k \<notin> thread_id ` set (abs_table t)"
  shows "abs_table (remove_client p t) = delete_at p (abs_table t) \<and> table_inv cfg (remove_client p t) \<and>
     (if int (length (abs_table t)) < max_connections cfg
      then \<exists>t'. on_accept os cfg n fd (Some k) t = ([], t') \<and> table_inv cfg t' \<and>
             abs_table t' = abs_table t @ [\<lparr>thread_id = k, cl = new_client cfg fd\<rparr>]
      else on_accept os cfg n fd (Some k) t = ([Sent fd (response_bytes ''421 Too many connections, try again later'')
        (send_at os n fd), Closed fd], t))"
proof -
  have len: "length (abs_table t) = g_client_count t" using assms(1) by (simp add: abs_table_def table_inv_def)
  obtain ev t' where t': "on_accept os cfg n fd (Some k) t = (ev, t')" by (cases "on_accept os cfg n fd (Some k) t")
  show ?thesis
  proof (cases "int (g_client_count t) < max_connections cfg")
    case True
    note a = on_accept_abs [OF assms(1) True t']
    have "table_inv cfg t'" using a assms(1,3) True by (simp add: table_inv_def)
    then show ?thesis using a t' True len remove_client_abs [OF assms(1,2)] remove_client_inv [OF assms(1,2)] by simp
  next
    case False
    then show ?thesis using len remove_client_abs [OF assms(1,2)] remove_client_inv [OF assms(1,2)]
      by (simp add: on_accept_def)
  qed
qed

text \<open>C37. But the threads of the others lose their clients. When the client of slot \<open>p\<close> leaves, the thread of
  every later slot \<open>j\<close> but the last finds the client of the next slot under its pointer, so what it answers
  goes to that client's socket; and the thread of the last slot finds the next client to connect.\<close>

theorem luftpd_removal_moves_clients:
  assumes "table_inv cfg t" "p < j" "j < g_client_count t"
  shows "(if Suc j < g_client_count t
      then slots (remove_client p t) ! j = slots t ! Suc j \<and>
        trace (dispatch os ''PWD'' arg (cl (slots (remove_client p t) ! j))) =
          trace (cl (slots t ! Suc j)) @ [Sent (control_sock (cl (slots t ! Suc j)))
            (response_bytes (''257 \"'' @ current_dir (cl (slots t ! Suc j)) @ ''\"''))
            (send_at os (now (cl (slots t ! Suc j))) (control_sock (cl (slots t ! Suc j))))]
      else cl (slots (snd (on_accept os cfg n fd (Some k) (remove_client p t))) ! j) = new_client cfg fd)"
proof -
  let ?n = "g_client_count t"
  have n: "?n \<le> length (slots t)" "p < ?n" using assms by (auto simp: table_inv_def)
  note r = remove_client_slots [OF assms(1) n(2)]
  show ?thesis
  proof (cases "Suc j < ?n")
    case True
    then have "slots (remove_client p t) ! j = slots t ! Suc j"
      using assms(2) n by (simp add: r(1) nth_append min_def)
    then show ?thesis using True by (simp add: dispatch_def)
  next
    case False
    then have j: "j = ?n - 1" "0 < ?n" using assms(3) by auto
    have len: "length (slots (remove_client p t)) = length (slots t)" using n by (simp add: r(1))
    have "int (?n - 1) < max_connections cfg" using assms(1) j n by (simp add: table_inv_def)
    then show ?thesis using False j n len by (simp add: on_accept_def r(2) Let_def)
  qed
qed

text \<open>And the wrong client leaves the table. If the clients of slots \<open>p\<close> and \<open>p + 1\<close> leave in this order
  and there is one in slot \<open>p + 2\<close>, the second removal takes out the client of slot \<open>p + 2\<close>, whose thread still
  runs, and the client of slot \<open>p + 1\<close>, whose thread has ended, stays in the table.\<close>

lemma luftpd_removal_evicts:
  assumes "table_inv cfg t" "p + 2 < g_client_count t"
  shows "abs_table (remove_client (Suc p) (remove_client p t)) =
     take p (abs_table t) @ abs_table t ! Suc p # drop (p + 3) (abs_table t)"
proof -
  let ?t = "remove_client p t" and ?xs = "abs_table t"
  have p: "p < g_client_count t" and len: "p + 2 < length ?xs"
    using assms by (simp_all add: abs_table_def table_inv_def)
  have "Suc p < g_client_count ?t" using assms(2) by (simp add: remove_client_slots(2) [OF assms(1) p])
  then have "abs_table (remove_client (Suc p) ?t) = delete_at (Suc p) (delete_at p ?xs)"
    by (simp add: remove_client_abs [OF remove_client_inv [OF assms(1) p]] remove_client_abs [OF assms(1) p])
  also have "drop (Suc p) ?xs = ?xs ! Suc p # drop (Suc (Suc p)) ?xs" using len by (simp add: Cons_nth_drop_Suc)
  then have "delete_at (Suc p) (delete_at p ?xs) = take p ?xs @ ?xs ! Suc p # drop (p + 3) ?xs"
    using len by (simp add: delete_at_def eval_nat_numeral)
  finally show ?thesis .
qed

definition three_clients :: table where
  "three_clients =
     \<lparr>slots = map (\<lambda>i. \<lparr>thread_id = 100 + i, cl = new_client LUFTPD_CONFIG_INITIALIZER (4 + i)\<rparr>) [0, 1, 2, 3, 4, 5, 6, 7, 8, 9],
      g_client_count = 3\<rparr>"

lemma three_clients: "table_inv LUFTPD_CONFIG_INITIALIZER three_clients" "g_client_count three_clients = 3"
  by (simp_all add: table_inv_def three_clients_def abs_table_def LUFTPD_CONFIG_INITIALIZER_def)

theorem luftpd_table_refines_witness:
  "abs_table (remove_client 0 three_clients) = delete_at 0 (abs_table three_clients) \<and>
   (\<exists>t'. on_accept demo_os LUFTPD_CONFIG_INITIALIZER 0 9 (Some 200) three_clients = ([], t'))"
proof -
  have "200 \<notin> thread_id ` set (abs_table three_clients)" "length (abs_table three_clients) = 3"
    "max_connections LUFTPD_CONFIG_INITIALIZER = 10"
    by (simp_all add: abs_table_def three_clients_def LUFTPD_CONFIG_INITIALIZER_def)
  with luftpd_table_refines [OF three_clients(1), where p = 0 and k = 200 and fd = 9 and os = demo_os and n = 0] three_clients(2) show ?thesis by auto
qed

theorem luftpd_removal_moves_clients_witness:
  "control_sock (cl (slots (remove_client 0 three_clients) ! 1)) = 6 \<and>
   cl (slots (snd (on_accept demo_os LUFTPD_CONFIG_INITIALIZER 0 9 (Some 200) (remove_client 0 three_clients))) ! 2) =
     new_client LUFTPD_CONFIG_INITIALIZER 9"
  using luftpd_removal_moves_clients [OF three_clients(1), where p = 0 and j = 1 and os = demo_os and arg = "[]"]
    luftpd_removal_moves_clients [OF three_clients(1), where p = 0 and j = 2 and os = demo_os and arg = "[]" and n = 0 and fd = 9 and k = 200] three_clients(2)
  by (simp add: three_clients_def new_client_def eval_nat_numeral)

lemma luftpd_removal_evicts_witness:
  "abs_table (remove_client 1 (remove_client 0 three_clients)) = [slots three_clients ! 1]"
  using luftpd_removal_evicts [OF three_clients(1), of 0] three_clients(2)
  by (simp add: abs_table_def three_clients_def eval_nat_numeral)

end
