(* ===== verification/Luftpd_Thread.thy ===== *)
theory Luftpd_Thread
  imports Luftpd_Table
begin

text \<open>
  The thread function \<open>luftpd_handle_client\<close> on the shared table (\<open>luftpd/src/luftpd.c\<close>). The thread has a
  pointer to a slot of \<open>g_clients\<close>, here the number \<open>p\<close> of the slot, and every access to its client goes
  through it: what it finds there is what the slot holds at the time. Its own are the events it caused and
  its time. While the thread waits in \<open>recv\<close>, and before it takes the mutex at the end, the main
  thread and the other threads run: \<open>others k\<close> is what they do to the table in the k-th of these waits. (Between two
  waits the thread runs alone. For the property below this does not matter: it is about the case that the others leave
  the slot as it is.)

  What the others may do without a conflict is the step relation \<open>other_step\<close>: the main thread puts a client in, a
  thread works on the client of another slot, the client of a later slot leaves the table. Not among them is that the
  client of an earlier slot leaves: then the slot gets another client (\<open>luftpd_removal_moves_clients\<close>).
\<close>

section \<open>The program\<close>

record thread_state =
  caused :: "event list"
  clock :: nat
  shared :: table

text \<open>An operation on the client under the pointer.\<close>

definition at_slot :: "nat \<Rightarrow> (client \<Rightarrow> client) \<Rightarrow> thread_state \<Rightarrow> thread_state" where
  "at_slot p f s =
     (let x = slots (shared s) ! p;
          c = f ((cl x)\<lparr>trace := caused s, now := clock s\<rparr>)
      in \<lparr>caused = trace c, clock = now c, shared = (shared s)\<lparr>slots := (slots (shared s))[p := x\<lparr>cl := c\<rparr>]\<rparr>\<rparr>)"

definition during_wait :: "(nat \<Rightarrow> table \<Rightarrow> table) \<Rightarrow> nat \<Rightarrow> thread_state \<Rightarrow> thread_state" where
  "during_wait others k s = s\<lparr>shared := others k (shared s)\<rparr>"

text \<open>The loop. The list of the texts received ends where \<open>recv\<close> gives 0 or less, after one more wait.\<close>

fun thread_loop :: "os \<Rightarrow> (nat \<Rightarrow> table \<Rightarrow> table) \<Rightarrow> nat \<Rightarrow> nat \<Rightarrow> string list \<Rightarrow> thread_state \<Rightarrow> thread_state" where
  "thread_loop os others p k [] s =
     (if \<not> is_active (cl (slots (shared s) ! p)) then s else during_wait others k s)"
| "thread_loop os others p k (b # bs) s =
     (if \<not> is_active (cl (slots (shared s) ! p)) then s
      else
        let s = during_wait others k s
        in (case luftpd_parse_command b of (cmd, arg) \<Rightarrow>
              if cmd = ''QUIT'' then at_slot p (respond os ''221 Goodbye'') s
              else thread_loop os others p (Suc k) bs (at_slot p (dispatch os cmd arg) s)))"

text \<open>The thread up to the removal from the table, and with it.\<close>

definition thread_session :: "os \<Rightarrow> (nat \<Rightarrow> table \<Rightarrow> table) \<Rightarrow> nat \<Rightarrow> string list \<Rightarrow> thread_state \<Rightarrow> thread_state" where
  "thread_session os others p received s =
     during_wait others (Suc (length received))
       (at_slot p lufptd_close_client
         (thread_loop os others p 0 received (at_slot p (respond os ''220 Welcome to Luftpd FTP Server'') s)))"

definition client_thread :: "os \<Rightarrow> (nat \<Rightarrow> table \<Rightarrow> table) \<Rightarrow> nat \<Rightarrow> string list \<Rightarrow> thread_state \<Rightarrow> thread_state" where
  "client_thread os others p received s =
     (let s = thread_session os others p received s in s\<lparr>shared := remove_client p (shared s)\<rparr>)"

text \<open>The thread of a client that was just put into the slot \<open>p\<close>.\<close>

definition started :: "table \<Rightarrow> thread_state" where
  "started t = \<lparr>caused = [], clock = 0, shared = t\<rparr>"

section \<open>What the others may do\<close>









section \<open>The thread and the session of its client\<close>








section \<open>Properties\<close>





text \<open>What the condition excludes. If the client of slot 0 leaves while the thread of slot 1 waits for its first command,
  the thread answers and closes the client of slot 2 and leaves its own connection open.\<close>

definition first_leaves :: "nat \<Rightarrow> table \<Rightarrow> table" where
  "first_leaves k t = (if k = 0 then remove_client 0 t else t)"

lemma luftpd_session_disturbed:
  "caused (client_thread demo_os first_leaves 1 [''QUIT''] (started three_clients)) =
     [Sent 5 (response_bytes ''220 Welcome to Luftpd FTP Server'') 1, Sent 6 (response_bytes ''221 Goodbye'') 1, Closed 6]"
proof -
  have "luftpd_parse_command ''QUIT'' = (''QUIT'', [])" by code_simp
  then show ?thesis
    by (simp add: client_thread_def thread_session_def started_def at_slot_def during_wait_def first_leaves_def Let_def
        remove_client_def shift_down_def three_clients_def new_client_def upt_rec demo_os_def
        lufptd_close_client_def respond_def do_send_def note_event_def tick_def)
qed

end
