(* ===== verification/Luftpd_Server.thy ===== *)
theory Luftpd_Server
  imports Luftpd_Table
begin

text \<open>
  The file server as a whole: the accept loop of \<open>luftpd_start_server\<close> and any number of client threads
  (\<open>luftpd/src/luftpd.c\<close>), in every interleaving. The state is the table of clients and, for each running thread, the
  pointer it was started with, as a position in the array.

  What a thread does between its start and its end it does to the client under its pointer, and to nothing else that is
  shared: a step \<open>Work\<close> changes that client in any way at all, so it stands for any part of any command. The two
  operations on the table, \<open>on_accept\<close> and \<open>remove_client\<close>, hold the mutex and are one step each. Thread
  identifiers are arbitrary: the code keeps them cut to an \<open>int\<close>.
\<close>

section \<open>The server\<close>

record ftp_server =
  tab :: table
  threads :: "nat list"

definition ftp_start :: "slot list \<Rightarrow> ftp_server" where
  "ftp_start mem = \<lparr>tab = \<lparr>slots = mem, g_client_count = 0\<rparr>, threads = []\<rparr>"

text \<open>A connection was accepted; if a thread was started for it, it got the next position.\<close>

definition accepted :: "os \<Rightarrow> luftpd_config \<Rightarrow> nat \<Rightarrow> int \<Rightarrow> int option \<Rightarrow> ftp_server \<Rightarrow> ftp_server" where
  "accepted os cfg n client_sock tid s =
     (let i = g_client_count (tab s); t = snd (on_accept os cfg n client_sock tid (tab s))
      in s\<lparr>tab := t, threads := (if i < g_client_count t then i # threads s else threads s)\<rparr>)"

definition worked :: "nat \<Rightarrow> client \<Rightarrow> ftp_server \<Rightarrow> ftp_server" where
  "worked p c s = s\<lparr>tab := (tab s)\<lparr>slots := (slots (tab s))[p := (slots (tab s) ! p)\<lparr>cl := c\<rparr>]\<rparr>\<rparr>"

definition finished :: "nat \<Rightarrow> ftp_server \<Rightarrow> ftp_server" where
  "finished p s = s\<lparr>tab := remove_client p (tab s), threads := remove1 p (threads s)\<rparr>"

inductive ftp_step :: "os \<Rightarrow> luftpd_config \<Rightarrow> ftp_server \<Rightarrow> ftp_server \<Rightarrow> bool" for os cfg where
  Accept_failed: "ftp_step os cfg s s"
| Accept: "ftp_step os cfg s (accepted os cfg n client_sock tid s)"
| Work: "p \<in> set (threads s) \<Longrightarrow> ftp_step os cfg s (worked p c s)"
| Finish: "p \<in> set (threads s) \<Longrightarrow> ftp_step os cfg s (finished p s)"

inductive_cases ftp_stepE: "ftp_step os cfg s s'"

text \<open>The states of a server whose array came from \<open>malloc\<close> with any contents.\<close>

inductive ftp_reach :: "os \<Rightarrow> luftpd_config \<Rightarrow> ftp_server \<Rightarrow> bool" for os cfg where
  Init: "int (length mem) = max_connections cfg \<Longrightarrow> ftp_reach os cfg (ftp_start mem)"
| Step: "ftp_reach os cfg s \<Longrightarrow> ftp_step os cfg s s' \<Longrightarrow> ftp_reach os cfg s'"

lemma ftp_reach_steps: "(ftp_step os cfg)\<^sup>*\<^sup>* s s' \<Longrightarrow> ftp_reach os cfg s \<Longrightarrow> ftp_reach os cfg s'"
  by (induction rule: rtranclp_induct) (auto intro: ftp_reach.Step)

section \<open>The count and the threads\<close>

text \<open>The places that are taken and that no running thread will give back.\<close>

definition lost :: "ftp_server \<Rightarrow> int" where
  "lost s = int (g_client_count (tab s)) - int (length (threads s))"

definition ftp_inv :: "luftpd_config \<Rightarrow> ftp_server \<Rightarrow> bool" where
  "ftp_inv cfg s \<longleftrightarrow> int (length (slots (tab s))) = max_connections cfg \<and>
     g_client_count (tab s) \<le> length (slots (tab s)) \<and> 0 \<le> lost s \<and>
     (\<forall>p \<in> set (threads s). p < length (slots (tab s)))"

lemma length_shift_down [simp]: "length (shift_down i n xs) = length xs"
proof -
  have "length (fold (\<lambda>j xs. xs[j := xs ! Suc j]) js xs) = length xs" for js
    by (induction js arbitrary: xs) simp_all
  then show ?thesis by (simp add: shift_down_def)
qed

lemma remove_client_count:
  "length (slots (remove_client p t)) = length (slots t)"
  "g_client_count (remove_client p t) \<le> g_client_count t"
  "g_client_count t \<le> Suc (g_client_count (remove_client p t))"
  by (auto simp: remove_client_def split: option.split)

lemma on_accept_count:
  fixes t :: table and os cfg n fd tid
  defines "t' \<equiv> snd (on_accept os cfg n fd tid t)"
  shows "length (slots t') = length (slots t)"
    "g_client_count t' = g_client_count t \<or> g_client_count t' = Suc (g_client_count t) \<and> int (g_client_count t) < max_connections cfg"
  unfolding t'_def by (auto simp: on_accept_def Let_def split: option.split)

lemma ftp_step_inv:
  assumes "ftp_step os cfg s s'" "ftp_inv cfg s"
  shows "ftp_inv cfg s' \<and> lost s \<le> lost s'"
  using assms(1)
proof cases
  case (Accept n fd tid)
  then show ?thesis using assms(2) on_accept_count [of os cfg n fd tid "tab s"]
    by (auto simp: accepted_def Let_def ftp_inv_def lost_def)
next
  case (Work p c)
  then show ?thesis using assms(2) by (simp add: worked_def ftp_inv_def lost_def)
next
  case (Finish p)
  then have "1 \<le> length (threads s)" by (cases "threads s") auto
  then have "int (length (remove1 p (threads s))) = int (length (threads s)) - 1"
    using Finish(2) by (simp add: length_remove1)
  with Finish show ?thesis using assms(2) remove_client_count [where p = p and t = "tab s"]
    by (auto simp: finished_def ftp_inv_def lost_def dest: notin_set_remove1)
qed (use assms in simp)

lemma ftp_reach_inv: "ftp_reach os cfg s \<Longrightarrow> ftp_inv cfg s"
  by (induction rule: ftp_reach.induct) (auto simp: ftp_inv_def ftp_start_def lost_def dest: ftp_step_inv)

lemma lost_never_back:
  "(ftp_step os cfg)\<^sup>*\<^sup>* s s' \<Longrightarrow> ftp_reach os cfg s \<Longrightarrow> lost s \<le> lost s'"
proof (induction rule: rtranclp_induct)
  case (step y z)
  then show ?case using ftp_step_inv [OF step(2) ftp_reach_inv] ftp_reach_steps [OF step(1)] by fastforce
qed simp


section \<open>Losing places\<close>

lemma find_position:
  assumes "i < n" "f i" "\<And>j. j < i \<Longrightarrow> \<not> f j"
  shows "find f [0..<n] = Some i"
  using assms by (auto simp: find_Some_iff intro!: exI [of _ i])

text \<open>The end of a thread whose client is in the table at position \<open>i\<close>, or not at all.\<close>

lemma remove_client_at:
  assumes "i < g_client_count t" "thread_id (slots t ! i) = thread_id (slots t ! p)"
    "\<And>j. j < i \<Longrightarrow> thread_id (slots t ! j) \<noteq> thread_id (slots t ! p)"
  shows "remove_client p t = t\<lparr>slots := shift_down i (g_client_count t) (slots t), g_client_count := g_client_count t - 1\<rparr>"
  using find_position [of i "g_client_count t" "\<lambda>i. thread_id (slots t ! i) = thread_id (slots t ! p)"] assms
  by (simp add: remove_client_def)

lemma remove_client_none:
  assumes "\<And>j. j < g_client_count t \<Longrightarrow> thread_id (slots t ! j) \<noteq> thread_id (slots t ! p)"
  shows "remove_client p t = t"
proof -
  have "find (\<lambda>i. thread_id (slots t ! i) = thread_id (slots t ! p)) [0..<g_client_count t] = None"
    using assms by (auto simp: find_None_iff)
  then show ?thesis by (simp add: remove_client_def)
qed

text \<open>A state of the server with its parts given one by one, and the three ways it moves below.\<close>

definition srv_at :: "slot list \<Rightarrow> nat \<Rightarrow> nat list \<Rightarrow> ftp_server" where
  "srv_at ys n ps = \<lparr>tab = \<lparr>slots = ys, g_client_count = n\<rparr>, threads = ps\<rparr>"

lemma srv_at_sel: "slots (tab (srv_at ys n ps)) = ys" "g_client_count (tab (srv_at ys n ps)) = n" "threads (srv_at ys n ps) = ps"
  by (simp_all add: srv_at_def)

lemma step_accept:
  assumes "int n < max_connections cfg" "n < length ys"
  shows "ftp_step os cfg (srv_at ys n ps) (srv_at (ys[n := \<lparr>thread_id = k, cl = new_client cfg fd\<rparr>]) (Suc n) (n # ps))"
  using assms Accept [of os cfg "srv_at ys n ps" 0 fd "Some k"] by (simp add: accepted_def on_accept_def Let_def srv_at_def)

lemma step_finish:
  assumes "p \<in> set ps" "i < n" "thread_id (ys ! i) = thread_id (ys ! p)" "\<And>j. j < i \<Longrightarrow> thread_id (ys ! j) \<noteq> thread_id (ys ! p)"
  shows "ftp_step os cfg (srv_at ys n ps) (srv_at (shift_down i n ys) (n - 1) (remove1 p ps))"
  using Finish [of p "srv_at ys n ps" os cfg] remove_client_at [of i "tab (srv_at ys n ps)" p] assms
  by (simp add: finished_def srv_at_def)

lemma step_finish_lost:
  assumes "p \<in> set ps" "\<And>j. j < n \<Longrightarrow> thread_id (ys ! j) \<noteq> thread_id (ys ! p)"
  shows "ftp_step os cfg (srv_at ys n ps) (srv_at ys n (remove1 p ps))"
  using Finish [of p "srv_at ys n ps" os cfg] remove_client_none [of "tab (srv_at ys n ps)" p] assms
  by (simp add: finished_def srv_at_def)

text \<open>Three connections on two free places: the first client leaves, the third takes the place that has become
  free and with it the slot that the second thread's pointer refers to, and then the second and the third leave.\<close>

lemma round_loses_place:
  assumes "Suc n < length ys" "int (length ys) = max_connections cfg" "ftp_reach os cfg (srv_at ys n [])"
  shows "\<exists>ys'. length ys' = length ys \<and> ftp_reach os cfg (srv_at ys' (Suc n) [])"
proof -
  define k where "k = 1 + Max ((\<lambda>j. thread_id (ys ! j)) ` {..<n})"
  have k: "thread_id (ys ! j) < k" if "j < n" for j
  proof -
    have "thread_id (ys ! j) \<le> Max ((\<lambda>j. thread_id (ys ! j)) ` {..<n})" by (rule Max_ge) (use that in auto)
    then show ?thesis unfolding k_def by linarith
  qed
  define a b c :: slot where "a = \<lparr>thread_id = k, cl = new_client cfg 0\<rparr>"
    and "b = \<lparr>thread_id = k + 1, cl = new_client cfg 0\<rparr>" and "c = \<lparr>thread_id = k + 2, cl = new_client cfg 0\<rparr>"
  let ?m = "Suc n"
  have max: "int n < max_connections cfg" "int ?m < max_connections cfg" using assms(1,2) by linarith+
  have len: "n < length ys" "?m < length (ys[n := x])" for x using assms(1) by simp_all
  have low: "thread_id (ys ! j) \<noteq> k + i" if "j < n" "0 \<le> i" for i j using k [OF that(1)] that(2) by simp
  have "ftp_reach os cfg (srv_at (ys[n := a]) ?m [n])"
    using ftp_reach.Step [OF assms(3) step_accept [OF max(1) len(1)]] by (simp add: a_def)
  from ftp_reach.Step [OF this step_accept [OF max(2) len(2)]]
  have 2: "ftp_reach os cfg (srv_at (ys[n := a, ?m := b]) (Suc ?m) [?m, n])" by (simp add: b_def)
  have "ftp_step os cfg (srv_at (ys[n := a, ?m := b]) (Suc ?m) [?m, n])
      (srv_at (shift_down n (Suc ?m) (ys[n := a, ?m := b])) (Suc ?m - 1) (remove1 n [?m, n]))"
    by (rule step_finish) (use assms(1) low [of _ 0] in \<open>auto simp: nth_list_update a_def\<close>)
  moreover have "shift_down n (Suc ?m) (ys[n := a, ?m := b]) = ys[n := b, ?m := b]"
    using assms(1) by (simp add: shift_down_def nth_list_update list_update_swap)
  ultimately have "ftp_reach os cfg (srv_at (ys[n := b, ?m := b]) ?m [?m])"
    using ftp_reach.Step [OF 2] by simp
  from ftp_reach.Step [OF this step_accept [OF max(2)]] assms(1)
  have 4: "ftp_reach os cfg (srv_at (ys[n := b, ?m := c]) (Suc ?m) [?m, ?m])" by (simp add: c_def)
  have "ftp_step os cfg (srv_at (ys[n := b, ?m := c]) (Suc ?m) [?m, ?m])
      (srv_at (shift_down ?m (Suc ?m) (ys[n := b, ?m := c])) (Suc ?m - 1) (remove1 ?m [?m, ?m]))"
    by (rule step_finish) (use assms(1) low [of _ 2] in \<open>auto simp: nth_list_update b_def c_def less_Suc_eq\<close>)
  then have 5: "ftp_reach os cfg (srv_at (ys[n := b, ?m := c]) ?m [?m])"
    using ftp_reach.Step [OF 4] by (simp add: shift_down_def)
  have "ftp_step os cfg (srv_at (ys[n := b, ?m := c]) ?m [?m]) (srv_at (ys[n := b, ?m := c]) ?m (remove1 ?m [?m]))"
    by (rule step_finish_lost) (use assms(1) low [of _ 2] in \<open>auto simp: nth_list_update b_def c_def less_Suc_eq\<close>)
  from ftp_reach.Step [OF 5 this] show ?thesis by (intro exI [of _ "ys[n := b, ?m := c]"]) simp
qed

lemma all_but_one_lost:
  fixes mem :: "slot list"
  assumes "int (length mem) = max_connections cfg" "n < length mem"
  shows "\<exists>ys. length ys = length mem \<and> ftp_reach os cfg (srv_at ys n [])"
  using assms(2)
proof (induction n)
  case 0
  have "ftp_reach os cfg (srv_at mem 0 [])" using Init [OF assms(1)] by (simp add: ftp_start_def srv_at_def)
  then show ?case by auto
next
  case (Suc n)
  then obtain ys where "length ys = length mem" "ftp_reach os cfg (srv_at ys n [])" by auto
  with round_loses_place [of n ys cfg os] Suc.prems assms(1) show ?case by auto
qed

section \<open>Properties\<close>

text \<open>C19. The limit on clients. In every interleaving of the accept loop and the client threads, no more threads
  run than there are entries in the table, and no more entries than the configuration allows; the array never
  changes its length, and the pointer of every running thread is inside of it.\<close>

theorem luftpd_client_limit:
  assumes "ftp_reach os cfg s"
  shows "length (threads s) \<le> g_client_count (tab s) \<and> int (g_client_count (tab s)) \<le> max_connections cfg \<and>
     int (length (slots (tab s))) = max_connections cfg \<and> (\<forall>p \<in> set (threads s). p < length (slots (tab s)))"
  using ftp_reach_inv [OF assms] by (auto simp: ftp_inv_def lost_def)

text \<open>C20. Places are lost for good. Because the entries move under the threads' pointers, a server that allows
  at least one client can come into a state in which no thread runs and which it never leaves to serve
  more than one client at a time, whatever happens afterwards.\<close>

theorem luftpd_places_lost:
  assumes "1 \<le> max_connections cfg"
  shows "\<exists>s. ftp_reach os cfg s \<and> threads s = [] \<and> (\<forall>s'. (ftp_step os cfg)\<^sup>*\<^sup>* s s' \<longrightarrow> length (threads s') \<le> 1)"
proof -
  define m where "m = nat (max_connections cfg - 1)"
  have m: "max_connections cfg = int (Suc m)" using assms by (simp add: m_def)
  let ?mem = "replicate (Suc m) (undefined :: slot)"
  obtain ys where s: "ftp_reach os cfg (srv_at ys m [])"
    using all_but_one_lost [of ?mem cfg m os] m by auto
  have "length (threads s') \<le> 1" if "(ftp_step os cfg)\<^sup>*\<^sup>* (srv_at ys m []) s'" for s'
  proof -
    have "int m \<le> lost s'" using lost_never_back [OF that s] by (simp add: lost_def srv_at_sel)
    moreover have "int (g_client_count (tab s')) \<le> int (Suc m)"
      using ftp_reach_inv [OF ftp_reach_steps [OF that s]] m by (simp add: ftp_inv_def)
    ultimately show ?thesis by (simp add: lost_def)
  qed
  with s show ?thesis by (intro exI [of _ "srv_at ys m []"]) (simp add: srv_at_sel)
qed

theorem luftpd_client_limit_witness:
  "\<exists>s. ftp_reach demo_os LUFTPD_CONFIG_INITIALIZER s \<and> threads s = [0] \<and> g_client_count (tab s) = 1 \<and>
     length (slots (tab s)) = 10"
proof -
  have c: "max_connections LUFTPD_CONFIG_INITIALIZER = 10" by (simp add: LUFTPD_CONFIG_INITIALIZER_def)
  let ?mem = "replicate 10 (undefined :: slot)"
  have "ftp_reach demo_os LUFTPD_CONFIG_INITIALIZER (srv_at ?mem 0 [])"
    using Init [of ?mem LUFTPD_CONFIG_INITIALIZER demo_os] c by (simp add: ftp_start_def srv_at_def)
  from ftp_reach.Step [OF this step_accept [of 0 LUFTPD_CONFIG_INITIALIZER ?mem demo_os "[]" 7 5]]
  obtain ys where s: "ftp_reach demo_os LUFTPD_CONFIG_INITIALIZER (srv_at ys 1 [0])" using c by auto
  with luftpd_client_limit [OF s] c show ?thesis by (intro exI [of _ "srv_at ys 1 [0]"]) (simp add: srv_at_sel)
qed

theorem luftpd_places_lost_witness:
  "\<exists>s. ftp_reach demo_os LUFTPD_CONFIG_INITIALIZER s \<and> threads s = [] \<and>
     \<not> (\<exists>s'. (ftp_step demo_os LUFTPD_CONFIG_INITIALIZER)\<^sup>*\<^sup>* s s' \<and> 1 < length (threads s'))"
  using luftpd_places_lost [of LUFTPD_CONFIG_INITIALIZER demo_os] by (fastforce simp: LUFTPD_CONFIG_INITIALIZER_def)

end
