(* ===== verification/Start_Up.thy ===== *)
theory Start_Up
  imports Lucpd_Cfg_Load Luftpd_Cfg
begin

text \<open>
  How the two daemons come up: \<open>main\<close> of \<open>lucpd/src/lucpd.c\<close> up to its accept loop, and \<open>main\<close> and
  \<open>luftpd_start_server\<close> of \<open>luftpd/src/luftpd.c\<close> up to theirs, on top of the loads of the configuration.

  What the system answers is the record \<open>start_os\<close>; \<open>inet\<close> is \<open>inet_addr\<close>, which the programs take from the
  C library. What a program does to its socket is a list of events, in which the port is the number that
  \<open>htons\<close> is applied to. The result is the descriptor that the accept loop runs on, \<open>None\<close> if the
  program ends instead. \<open>setsockopt\<close> and \<open>mkdir\<close>, whose results are not looked at, signal handlers and messages
  are left out.
\<close>

section \<open>The programs\<close>

record start_os =
  socket_call :: int
  bind_call :: int
  listen_call :: int
  malloc_call :: bool

datatype start_event = Bind_to int u32 u16 | Connect_to int u32 u16 | Listen_on int int | Close_fd int

definition lucpd_listen :: "start_os \<Rightarrow> (string \<Rightarrow> u32) \<Rightarrow> lucpd_config \<Rightarrow> int option \<times> start_event list" where
  "lucpd_listen os inet cfg =
     (let listen_fd = socket_call os in
      if listen_fd < 0 then (None, [])
      else
        let ev = [Bind_to listen_fd (inet (c_str (net_ip (network cfg)))) (net_port (network cfg))] in
        if bind_call os < 0 then (None, ev @ [Close_fd listen_fd])
        else
          let ev = ev @ [Listen_on listen_fd (max_clients (network cfg))] in
          if listen_call os < 0 then (None, ev @ [Close_fd listen_fd])
          else (Some listen_fd, ev))"

definition lucpd_main_start ::
  "bool \<Rightarrow> (string \<Rightarrow> string) \<Rightarrow> char \<Rightarrow> (string \<Rightarrow> string option) \<Rightarrow> start_os \<Rightarrow> (string \<Rightarrow> u32) \<Rightarrow> string list \<Rightarrow>
     int option \<times> start_event list" where
  "lucpd_main_start schar freed junk fs os inet args =
     (case lucpd_cfg_load_with_entryArgs schar freed junk fs (Some zero_config) args of
        (_, Some cfg) \<Rightarrow> lucpd_listen os inet cfg
      | (_, None) \<Rightarrow> (None, []))"

definition luftpd_listen :: "start_os \<Rightarrow> (string \<Rightarrow> u32) \<Rightarrow> luftpd_config \<Rightarrow> int option \<times> start_event list" where
  "luftpd_listen os inet cfg =
     (let server_sock = socket_call os in
      if server_sock < 0 then (None, [])
      else
        let ev = [Bind_to server_sock (inet (c_str (f_ip cfg))) (f_port cfg)] in
        if bind_call os < 0 then (None, ev @ [Close_fd server_sock])
        else
          let ev = ev @ [Listen_on server_sock (max_connections cfg)] in
          if listen_call os < 0 then (None, ev @ [Close_fd server_sock])
          else if \<not> malloc_call os then (None, ev @ [Close_fd server_sock])
          else (Some server_sock, ev))"

definition luftpd_main_start ::
  "bool \<Rightarrow> (string \<Rightarrow> string) \<Rightarrow> (string \<Rightarrow> string) \<Rightarrow> char \<Rightarrow> char \<Rightarrow> (string \<Rightarrow> string option) \<Rightarrow> luftpd_config \<Rightarrow>
     start_os \<Rightarrow> (string \<Rightarrow> u32) \<Rightarrow> string list \<Rightarrow> int option \<times> start_event list" where
  "luftpd_main_start schar freed ptr junk1 junk2 fs g os inet args =
     (case luftpd_main_config schar freed ptr junk1 junk2 fs g args of
        None \<Rightarrow> (None, [])
      | Some cfg \<Rightarrow> luftpd_listen os inet cfg)"

section \<open>Properties\<close>

text \<open>Without a configuration file and without arguments the daemon listens where its defaults say.\<close>

lemma lucpd_listens_default:
  assumes "fs LUCPD_DEFAULT_CFG_FILE = None" "0 \<le> socket_call os" "0 \<le> bind_call os" "0 \<le> listen_call os"
  shows "lucpd_main_start schar freed junk fs os inet [] =
     (Some (socket_call os), [Bind_to (socket_call os) (inet LUCPD_DEFAULT_IP) (of_int LUCPD_DEFAULT_PORT), Listen_on (socket_call os) 10])"
proof -
  have "c_str (net_ip (network (set_default_config zero_config))) = LUCPD_DEFAULT_IP"
    by (simp add: default_texts LUCPD_DEFAULT_IP_def)
  then show ?thesis using assms
    by (simp add: lucpd_main_start_def lucpd_cfg_load_with_entryArgs_def set_file_and_port_def lucpd_cfg_load_with_file_def
        lucfg_open_def lucpd_listen_def Let_def) (simp add: set_default_config_def)
qed

text \<open>A program that does not come up closes the socket it got, once, as the last thing it does.\<close>

definition gives_up :: "start_os \<Rightarrow> start_event list \<Rightarrow> bool" where
  "gives_up os ev \<longleftrightarrow> (if socket_call os < 0 then ev = []
     else \<exists>ev'. ev = ev' @ [Close_fd (socket_call os)] \<and> (\<forall>fd. Close_fd fd \<notin> set ev'))"

lemma lucpd_listen_cases:
  "lucpd_listen os inet cfg = (r, ev) \<Longrightarrow>
     (case r of
        Some fd \<Rightarrow> 0 \<le> fd \<and> fd = socket_call os \<and>
          ev = [Bind_to fd (inet (c_str (net_ip (network cfg)))) (net_port (network cfg)), Listen_on fd (max_clients (network cfg))]
      | None \<Rightarrow> gives_up os ev)"
  by (auto simp: lucpd_listen_def gives_up_def Let_def append_eq_Cons_conv split: if_splits)

lemma luftpd_listen_cases:
  "luftpd_listen os inet cfg = (r, ev) \<Longrightarrow>
     (case r of
        Some fd \<Rightarrow> 0 \<le> fd \<and> fd = socket_call os \<and>
          ev = [Bind_to fd (inet (c_str (f_ip cfg))) (f_port cfg), Listen_on fd (max_connections cfg)]
      | None \<Rightarrow> gives_up os ev)"
  by (auto simp: luftpd_listen_def gives_up_def Let_def append_eq_Cons_conv split: if_splits)

text \<open>C34. What the upload daemon listens on. Let the arguments be the options \<open>opts\<close>, each a path or a port from 1 to
  65535, and then nothing or something that is no such option, and let \<open>path\<close>, \<open>port\<close> and \<open>given\<close> be the last path and the last
  port of the options and whether there was a port. Then the daemon comes up exactly if the three calls for its
  socket succeed. If it does, it is bound to the address that the configuration file at \<open>path\<close> sets, or else the built-in one,
  and to the port \<open>port\<close> if one was given, otherwise to the built-in port 32100 (or to 0 if the file has an empty text for the
  port; no number in the file has an effect), and it listens with the built-in limit of 10 waiting connections. If it does
  not come up, it closes its socket, if it got one.\<close>

theorem lucpd_listens:
  assumes "list_all opt_ok opts" "rest = [] \<or> malformed rest"
    "fold opt_set opts (LUCPD_DEFAULT_CFG_FILE, LUCPD_DEFAULT_PORT, False) = (path, port, given)"
    "lucpd_main_start schar freed junk fs os inet (concat (map opt_args opts) @ rest) = (r, ev)"
  shows "\<exists>rc c. lucpd_cfg_load_with_file schar freed junk fs (Some zero_config) path = (rc, Some c) \<and>
     (lucfg_open schar freed junk (fs path) = None \<longrightarrow> c_str (net_ip (network c)) = LUCPD_DEFAULT_IP) \<and>
     (net_port (network c) = of_int LUCPD_DEFAULT_PORT \<or>
        net_port (network c) = 0 \<and> port_blank schar freed junk (fs path)) \<and>
     r = (if 0 \<le> socket_call os \<and> 0 \<le> bind_call os \<and> 0 \<le> listen_call os then Some (socket_call os) else None) \<and>
     (case r of
        Some fd \<Rightarrow> ev = [Bind_to fd (inet (c_str (net_ip (network c)))) (if given then of_int port else net_port (network c)),
          Listen_on fd 10]
      | None \<Rightarrow> gives_up os ev)"
proof -
  obtain rc c where c: "lucpd_cfg_load_with_file schar freed junk fs (Some zero_config) path = (rc, Some c)" "numbers_default c"
    using load_numbers by blast
  let ?c = "if given then on_network (\<lambda>n. n\<lparr>net_port := of_int port\<rparr>) c else c"
  have l: "lucpd_listen os inet ?c = (r, ev)"
    using assms(4) unfolding lucpd_main_start_def lucpd_cfg_command_line [OF assms(1-3)] c(1) by simp
  have n: "max_clients (network ?c) = 10" "net_ip (network ?c) = net_ip (network c)"
      "net_port (network ?c) = (if given then of_int port else net_port (network c))"
    using c(2) by (simp_all add: numbers_default_def)
  have "c_str (net_ip (network c)) = LUCPD_DEFAULT_IP" if "lucfg_open schar freed junk (fs path) = None"
    using c(1) that by (auto simp: lucpd_cfg_load_with_file_def default_texts LUCPD_DEFAULT_IP_def)
  moreover have "r = (if 0 \<le> socket_call os \<and> 0 \<le> bind_call os \<and> 0 \<le> listen_call os then Some (socket_call os) else None)"
    using l by (auto simp: lucpd_listen_def Let_def split: if_splits)
  ultimately show ?thesis
    using c(1) load_port [OF c(1)] lucpd_listen_cases [OF l] unfolding n
    by (intro exI [of _ rc] exI [of _ c]) (auto split: option.splits)
qed

definition up_os :: start_os where
  "up_os = \<lparr>socket_call = 3, bind_call = 0, listen_call = 0, malloc_call = True\<rparr>"

definition loopback :: "string \<Rightarrow> u32" where
  "loopback a = (if a = ''127.0.0.1'' then 0x0100007F else 0)"

theorem lucpd_listens_witness:
  "lucpd_main_start True id NUL (\<lambda>p. None) up_os loopback [''-p'', ''80'', ''-c'', ''a.conf'', ''-p'', ''81'', ''-x''] =
     (Some 3, [Bind_to 3 0x0100007F 81, Listen_on 3 10])"
proof -
  have p: "c_atoi ''80'' = 80" "c_atoi ''81'' = 81" by code_simp+
  have o: "list_all opt_ok [Opt_p ''80'', Opt_c ''a.conf'', Opt_p ''81'']" "[''-x''] = [] \<or> malformed [''-x'']"
    "fold opt_set [Opt_p ''80'', Opt_c ''a.conf'', Opt_p ''81''] (LUCPD_DEFAULT_CFG_FILE, LUCPD_DEFAULT_PORT, False) =
       (''a.conf'', 81, True)"
    by (simp_all add: p malformed_def)
  obtain r ev where r: "lucpd_main_start True id NUL (\<lambda>p. None) up_os loopback
      (concat (map opt_args [Opt_p ''80'', Opt_c ''a.conf'', Opt_p ''81'']) @ [''-x'']) = (r, ev)" by fastforce
  from lucpd_listens [OF o r] have "r = Some 3 \<and> ev = [Bind_to 3 (loopback ''127.0.0.1'') 81, Listen_on 3 10]"
    by (auto simp: lucfg_open_def up_os_def LUCPD_DEFAULT_IP_def)
  then show ?thesis using r by (simp add: loopback_def)
qed

text \<open>C35. The configuration file that is named on the command line decides only whether the file server
  comes up. If it comes up with some arguments, then with any others it either does the same or ends
  without even asking for a socket (because the file they name cannot be loaded).\<close>

theorem luftpd_listens:
  assumes "luftpd_main_start schar freed ptr junk1 junk2 fs g os inet args = (Some fd, ev)"
  shows "luftpd_main_start schar freed ptr junk1 junk2 fs g os inet args' \<in> {(Some fd, ev), (None, [])} \<and>
     (\<exists>c. ev = [Bind_to fd (inet (c_str (f_ip c))) (f_port c), Listen_on fd (max_connections c)] \<and>
        Some c = snd (luftpd_cfg_load_with_file schar freed ptr junk2 fs (Some g) (Some LUFTPD_DEFAULT_CONFIG_FILE)))"
proof -
  obtain c where c: "luftpd_main_config schar freed ptr junk1 junk2 fs g args = Some c" "luftpd_listen os inet c = (Some fd, ev)"
    using assms by (auto simp: luftpd_main_start_def split: option.splits)
  have b: "Some c = snd (luftpd_cfg_load_with_file schar freed ptr junk2 fs (Some g) (Some LUFTPD_DEFAULT_CONFIG_FILE))"
    using luftpd_main_ignores_file [OF c(1)] by blast
  have "luftpd_main_config schar freed ptr junk1 junk2 fs g args' \<in> {None, Some c}"
  proof (cases "luftpd_main_config schar freed ptr junk1 junk2 fs g args'")
    case (Some c')
    then show ?thesis using luftpd_main_ignores_file [OF Some, of g] b by simp
  qed simp
  then have "luftpd_main_start schar freed ptr junk1 junk2 fs g os inet args' \<in> {(Some fd, ev), (None, [])}"
    using c(2) unfolding luftpd_main_start_def by (metis insertCI insertE option.case(1,2) singletonD)
  then show ?thesis using luftpd_listen_cases [OF c(2)] b by auto
qed

theorem luftpd_listens_witness:
  "\<exists>ev. luftpd_main_start True id low_pointer NUL NUL (one_file LUFTPD_DEFAULT_CONFIG_FILE []) LUFTPD_CONFIG_INITIALIZER
       up_os (\<lambda>a. 0) [] = (Some 3, ev) \<and>
     luftpd_main_start True id low_pointer NUL NUL (one_file LUFTPD_DEFAULT_CONFIG_FILE []) LUFTPD_CONFIG_INITIALIZER
       up_os (\<lambda>a. 0) [''other.conf''] \<in> {(Some 3, ev), (None, [])}"
proof -
  let ?start = "luftpd_main_start True id low_pointer NUL NUL (one_file LUFTPD_DEFAULT_CONFIG_FILE []) LUFTPD_CONFIG_INITIALIZER
       up_os (\<lambda>a. 0)"
  have "lucfg_open True id NUL (one_file LUFTPD_DEFAULT_CONFIG_FILE [] LUFTPD_DEFAULT_CONFIG_FILE) = Some empty_handle"
    by (simp add: one_file_def lucfg_open_def fgets_lines.simps)
  then have "\<exists>ev. ?start [] = (Some 3, ev)"
    by (simp add: luftpd_main_start_def luftpd_main_config_def luftpd_cfg_load_with_file_def luftpd_listen_def up_os_def Let_def)
  then obtain ev where "?start [] = (Some 3, ev)" by blast
  with luftpd_listens [OF this, of "[''other.conf'']"] show ?thesis by blast
qed

end
