(* ===== verification/Lucp_Demo.thy ===== *)
theory Lucp_Demo
  imports Lucpd_Session "HOL-Library.Monad_Syntax"
begin

text \<open>
  The two demonstration programs, \<open>demo/lucp_client_demo.c\<close> and \<open>demo/lucp_server_demo.c\<close>, from the
  connected socket on, and the conversation of the client with the daemon's session thread.

  A program's state is the record \<open>peer\<close>: its network context, the frame it receives into, the frame
  it sends from, and the socket. The random numbers are arguments. The client's \<open>payload\<close> array is not
  initialised: \<open>mem\<close> is the memory from the start of that array on, in which \<open>strlen\<close> looks for a NUL.
  Output to the terminal and to the log, and the pause of 700 ms, are left out.
\<close>

section \<open>The programs\<close>

record peer =
  p_ctx :: net_ctx
  p_in :: lucp_frame
  p_out :: lucp_frame
  p_sk :: sock

text \<open>\<open>lucp_frame_make\<close> into the outgoing frame and \<open>lucp_net_send\<close>, whose result is not looked at.\<close>

definition say :: "bool \<Rightarrow> u32 \<Rightarrow> byte \<Rightarrow> byte \<Rightarrow> byte list option \<Rightarrow> u16 \<Rightarrow> peer \<Rightarrow> peer option" where
  "say be seq mt stat text_ptr len p = do {
     f \<leftarrow> lucp_frame_make (Some (p_out p)) seq mt stat text_ptr len;
     (r, k) \<leftarrow> lucp_net_send be (Some (p_ctx p)) (Some f) (p_sk p);
     Some (p\<lparr>p_out := f, p_sk := k\<rparr>)
   }"

definition hear :: "bool \<Rightarrow> peer \<Rightarrow> (int \<times> peer) option" where
  "hear be p =
     (case lucp_net_recv be (Some (p_ctx p)) (Some (p_in p)) (p_sk p) of
        Some (r, Some c, Some f, k) \<Rightarrow> Some (r, p\<lparr>p_ctx := c, p_in := f, p_sk := k\<rparr>)
      | _ \<Rightarrow> None)"

text \<open>\<open>select\<close> on the socket, then the receive of a frame of the expected type.\<close>

definition wait_for :: "bool \<Rightarrow> byte \<Rightarrow> peer \<Rightarrow> (bool \<times> peer) option" where
  "wait_for be mt p =
     (case sel (p_sk p) of
        [] \<Rightarrow> None
      | ev # evs \<Rightarrow>
          let p = p\<lparr>p_sk := (p_sk p)\<lparr>sel := evs\<rparr>\<rparr> in
          if ev = Sel_Ready then do {
            (r, p) \<leftarrow> hear be p;
            Some (r = 0 \<and> msgType (p_in p) = mt, p)
          }
          else Some (False, p))"

definition strlen_at :: "byte list \<Rightarrow> nat" where
  "strlen_at mem = length (takeWhile (\<lambda>b. b \<noteq> 0) mem)"

definition print_into :: "string \<Rightarrow> byte list \<Rightarrow> byte list" where
  "print_into s mem = put_bytes 0 (bytes_of s @ [0]) mem"

definition simulate_ftp_login :: "nat \<Rightarrow> byte list \<Rightarrow> byte \<times> byte list" where
  "simulate_ftp_login r mem =
     (if r mod 10 < 8 then (1, mem) else (0x20, print_into ''FTP login failed: bad credentials'' mem))"

definition simulate_ftp_download :: "nat \<Rightarrow> byte list \<Rightarrow> byte \<times> byte list" where
  "simulate_ftp_download r mem =
     (if r mod 10 < 8 then (1, mem) else (0x21, print_into ''FTP download failed: network error'' mem))"

definition demo_client ::
  "bool \<Rightarrow> nat \<Rightarrow> nat \<Rightarrow> byte list \<Rightarrow> net_ctx \<Rightarrow> lucp_frame \<Rightarrow> lucp_frame \<Rightarrow> int \<Rightarrow> sock \<Rightarrow> (int \<times> peer) option" where
  "demo_client be r1 r2 mem ctx req reply sockfd k = do {
     c \<leftarrow> lucp_net_ctx_init (Some ctx) sockfd;
     p \<leftarrow> say be 10001 0x01 0 (Some (bytes_of ''Request log preparation'')) 23
            \<lparr>p_ctx = c, p_in = reply, p_out = req, p_sk = k\<rparr>;
     (ok, p) \<leftarrow> wait_for be 0x02 p;
     if \<not> ok then Some (1, p) else do {
       (ok, p) \<leftarrow> wait_for be 0x03 p;
       if \<not> ok \<or> status (p_in p) \<noteq> 1 then Some (1, p) else do {
         let (stat, payload) = simulate_ftp_login r1 mem;
         p \<leftarrow> say be 10001 0x04 stat (Some payload) (of_nat (strlen_at payload)) p;
         if stat \<noteq> 1 then Some (1, p) else do {
           let (stat, payload) = simulate_ftp_download r2 payload;
           p \<leftarrow> say be 10001 0x05 stat (Some payload) (of_nat (strlen_at payload)) p;
           Some (0, p)
         }
       }
     }
   }"

definition simulate_log_prep :: "nat \<Rightarrow> byte \<times> byte list" where
  "simulate_log_prep r =
     (let r = r mod 10; payload = replicate 256 0 in
      if r < 8 then (1, print_into ''demo_logfile_20250925.log'' payload)
      else if r = 8 then (0x10, print_into ''Archive failed: disk full'' payload)
      else (0x11, print_into ''FTP upload failed: connection timeout'' payload))"

definition demo_server ::
  "bool \<Rightarrow> nat \<Rightarrow> net_ctx \<Rightarrow> lucp_frame \<Rightarrow> lucp_frame \<Rightarrow> int \<Rightarrow> sock \<Rightarrow> (int \<times> peer) option" where
  "demo_server be r ctx frame reply connfd k = do {
     c \<leftarrow> lucp_net_ctx_init (Some ctx) connfd;
     (rc, p) \<leftarrow> hear be \<lparr>p_ctx = c, p_in = frame, p_out = reply, p_sk = k\<rparr>;
     if rc = 0 \<and> msgType (p_in p) = 0x01 then do {
       p \<leftarrow> say be (seq_num (p_in p)) 0x02 1 None 0 p;
       let (stat, payload) = simulate_log_prep r;
       p \<leftarrow> say be (seq_num (p_in p)) 0x03 stat (Some payload) (of_nat (strlen_at payload)) p;
       (rc, p) \<leftarrow> hear be p;
       if rc = 0 \<and> msgType (p_in p) = 0x04 then do {
         (rc, p) \<leftarrow> hear be p;
         Some (0, p)
       }
       else Some (0, p)
     }
     else Some (0, p)
   }"

section \<open>Speaking and listening\<close>

text \<open>A peer that can go on: its buffers have their sizes, and the socket takes \<open>m\<close> more bytes.\<close>

definition peer_ok :: "nat \<Rightarrow> peer \<Rightarrow> bool" where
  "peer_ok m p \<longleftrightarrow> net_inv (p_ctx p) \<and> length (textInfo (p_in p)) = LUCP_MAX_TEXTINFO_LEN \<and>
     length (textInfo (p_out p)) = LUCP_MAX_TEXTINFO_LEN \<and> list_all progress (wr (p_sk p)) \<and> m \<le> accepts (wr (p_sk p))"

definition heard :: "peer \<Rightarrow> byte list" where
  "heard p = pending (p_ctx p) @ delivered (rx (p_sk p))"

lemma say_completes:
  assumes "peer_ok (1024 + m) p" "case t of Some u \<Rightarrow> unat n \<le> length u | None \<Rightarrow> n = 0"
  obtains f es where "say be seq mt x t n p = Some (p\<lparr>p_out := f, p_sk := (p_sk p)\<lparr>wr := es, tx := tx (p_sk p) @ wire f\<rparr>\<rparr>)"
    "valid_frame f" "seq_num f = seq" "msgType f = mt" "status f = x" "version_major f = LUCP_VER_MAJOR"
    "text_of f = (case t of Some u \<Rightarrow> take (min (unat n) LUCP_MAX_TEXTINFO_LEN) u | None \<Rightarrow> [])"
    "peer_ok m (p\<lparr>p_out := f, p_sk := (p_sk p)\<lparr>wr := es, tx := tx (p_sk p) @ wire f\<rparr>\<rparr>)"
proof -
  have l: "length (textInfo (p_out p)) = LUCP_MAX_TEXTINFO_LEN" using assms(1) by (simp add: peer_ok_def)
  obtain f where f: "lucp_frame_make (Some (p_out p)) seq mt x t n = Some f" "valid_frame f" "seq_num f = seq"
      "msgType f = mt" "status f = x" "version_major f = LUCP_VER_MAJOR"
      "text_of f = (case t of Some u \<Rightarrow> take (min (unat n) LUCP_MAX_TEXTINFO_LEN) u | None \<Rightarrow> [])"
  proof (cases t)
    case None
    then show thesis using that l assms(2)
      by (auto simp: lucp_frame_make_def valid_frame_def wf_frame_def text_of_def Let_def)
  next
    case (Some u)
    then show thesis using lucp_frame_make_valid [OF l, of n u seq mt x] that assms(2) by auto
  qed
  have w: "wf_frame f" "length (wire f) \<le> 1024" using f(2) length_wire_le by (auto simp: valid_frame_def)
  obtain es where "lucp_net_send be (Some (p_ctx p)) (Some f) (p_sk p) = Some (0, (p_sk p)\<lparr>wr := es, tx := tx (p_sk p) @ wire f\<rparr>)"
     "list_all progress es" "accepts (wr (p_sk p)) - accepts es \<le> length (wire f)"
    using lucp_net_send_completes [OF w(1), of "p_sk p" be "p_ctx p"] assms(1) w(2) by (auto simp: peer_ok_def)
  moreover from this have "peer_ok m (p\<lparr>p_out := f, p_sk := (p_sk p)\<lparr>wr := es, tx := tx (p_sk p) @ wire f\<rparr>\<rparr>)"
    using assms(1) w f(2) by (auto simp: peer_ok_def valid_frame_def wf_frame_def)
  ultimately show thesis using that [of f es] f by (simp add: say_def)
qed

lemma hear_frame:
  assumes "peer_ok m p" "valid_frame f" "quiet (rx (p_sk p))" "heard p = wire f @ rest"
  obtains c es where "hear be p = Some (0, p\<lparr>p_ctx := c, p_in := received f (p_in p), p_sk := (p_sk p)\<lparr>rx := es\<rparr>\<rparr>)"
    "quiet es" "pending c @ delivered es = rest"
    "peer_ok m (p\<lparr>p_ctx := c, p_in := received f (p_in p), p_sk := (p_sk p)\<lparr>rx := es\<rparr>\<rparr>)"
proof -
  obtain c es where r: "lucp_net_recv be (Some (p_ctx p)) (Some (p_in p)) (p_sk p) =
       Some (0, Some c, Some (received f (p_in p)), (p_sk p)\<lparr>rx := es\<rparr>)"
      "net_inv c" "quiet es" "pending c @ delivered es = rest"
    using lucp_net_recv_frame [of "p_ctx p" f "p_in p" "p_sk p" rest be] assms by (auto simp: peer_ok_def heard_def)
  moreover have "peer_ok m (p\<lparr>p_ctx := c, p_in := received f (p_in p), p_sk := (p_sk p)\<lparr>rx := es\<rparr>\<rparr>)"
    using assms(1) r(2) received_valid [OF assms(2), of "p_in p"] by (simp add: peer_ok_def)
  ultimately show thesis using that by (simp add: hear_def)
qed

lemma wait_for_frame:
  assumes "peer_ok m p" "valid_frame f" "quiet (rx (p_sk p))" "heard p = wire f @ rest" "sel (p_sk p) = Sel_Ready # evs"
  obtains c es where "wait_for be mt p = Some (msgType f = mt,
        p\<lparr>p_ctx := c, p_in := received f (p_in p), p_sk := (p_sk p)\<lparr>sel := evs, rx := es\<rparr>\<rparr>)"
    "quiet es" "pending c @ delivered es = rest"
    "peer_ok m (p\<lparr>p_ctx := c, p_in := received f (p_in p), p_sk := (p_sk p)\<lparr>sel := evs, rx := es\<rparr>\<rparr>)"
proof -
  let ?p = "p\<lparr>p_sk := (p_sk p)\<lparr>sel := evs\<rparr>\<rparr>"
  have q: "peer_ok m ?p" "quiet (rx (p_sk ?p))" "heard ?p = wire f @ rest"
    using assms by (simp_all add: peer_ok_def heard_def)
  obtain c es where
    "hear be ?p = Some (0, ?p\<lparr>p_ctx := c, p_in := received f (p_in ?p), p_sk := (p_sk ?p)\<lparr>rx := es\<rparr>\<rparr>)"
    "quiet es" "pending c @ delivered es = rest"
    "peer_ok m (?p\<lparr>p_ctx := c, p_in := received f (p_in ?p), p_sk := (p_sk ?p)\<lparr>rx := es\<rparr>\<rparr>)"
    by (rule hear_frame [OF q(1) assms(2) q(2,3), of be])
  then show thesis
    using that [of es c] assms(2,5) by (simp add: wait_for_def received_def)
qed

lemma strlen_fits: "unat (of_nat (strlen_at mem) :: u16) \<le> length mem"
proof -
  have "unat (of_nat (strlen_at mem) :: u16) \<le> strlen_at mem" by (simp add: unat_of_nat)
  then show ?thesis using length_takeWhile_le [of "\<lambda>b. b \<noteq> 0" mem] unfolding strlen_at_def by linarith
qed

lemma received_fields [simp]: "status (received f g) = status f" "msgType (received f g) = msgType f"
  "seq_num (received f g) = seq_num f"
  by (simp_all add: received_def)

text \<open>The client's part of a successful conversation.\<close>

lemma demo_client_run:
  assumes "length (textInfo f) = LUCP_MAX_TEXTINFO_LEN" "length (textInfo g) = LUCP_MAX_TEXTINFO_LEN"
    "quiet (rx k)" "delivered (rx k) = wire a @ wire b @ rest" "sel k = Sel_Ready # Sel_Ready # evs"
    "list_all progress (wr k)" "3072 \<le> accepts (wr k)"
    "is_ack sa a" "is_notify sb b" "status b = LUCP_STAT_SUCCESS" "r1 mod 10 < 8"
  obtains p r l d where "demo_client be r1 r2 mem ctx f g n k = Some (0, p)"
    "tx (p_sk p) = tx k @ wire r @ wire l @ wire d" "heard p = rest"
    "is_request r" "valid_frame r" "seq_num r = 10001" "version_major r = LUCP_VER_MAJOR"
    "text_of r = bytes_of ''Request log preparation''"
    "good_result LUCP_MTYP_FTP_LOGIN_RESULT l" "valid_frame l" "seq_num l = 10001"
    "msgType d = LUCP_MTYP_FTP_DOWNLOAD_RESULT" "valid_frame d" "seq_num d = 10001"
    "status d = (if r2 mod 10 < 8 then LUCP_STAT_SUCCESS else 0x21)"
proof -
  define c0 where "c0 = ctx\<lparr>fd := n, rbuf_len := 0, rbuf := replicate RBUF_SIZE 0\<rparr>"
  define p0 where "p0 = \<lparr>p_ctx = c0, p_in = g, p_out = f, p_sk = k\<rparr>"
  have init: "lucp_net_ctx_init (Some ctx) n = Some c0" by (simp add: lucp_net_ctx_init_def c0_def)
  have c0: "net_inv c0" "pending c0 = []" using init_inv [OF init] by simp_all
  have va: "valid_frame a" "msgType a = 0x02" "valid_frame b" "msgType b = 0x03" "status b = 1"
    using assms(8-10) by (simp_all add: is_ack_def is_notify_def lucp_consts)
  have "peer_ok (1024 + 2048) p0" using c0 assms(1,2,6,7) by (simp add: peer_ok_def p0_def)
  then obtain r es where r: "say be 10001 0x01 0 (Some (bytes_of ''Request log preparation'')) 23 p0 =
        Some (p0\<lparr>p_out := r, p_sk := (p_sk p0)\<lparr>wr := es, tx := tx (p_sk p0) @ wire r\<rparr>\<rparr>)"
      "valid_frame r" "seq_num r = 10001" "msgType r = 0x01" "version_major r = LUCP_VER_MAJOR"
      "text_of r = take (min (unat (23 :: u16)) LUCP_MAX_TEXTINFO_LEN) (bytes_of ''Request log preparation'')"
      "peer_ok 2048 (p0\<lparr>p_out := r, p_sk := (p_sk p0)\<lparr>wr := es, tx := tx (p_sk p0) @ wire r\<rparr>\<rparr>)"
    by (rule say_completes [where t = "Some (bytes_of ''Request log preparation'')" and n = 23 and be = be
          and seq = 10001 and mt = "0x01" and x = 0]) (auto simp: bytes_of_def)
  define p1 where "p1 = p0\<lparr>p_out := r, p_sk := (p_sk p0)\<lparr>wr := es, tx := tx (p_sk p0) @ wire r\<rparr>\<rparr>"
  have p1: "peer_ok 2048 p1" "quiet (rx (p_sk p1))" "heard p1 = wire a @ wire b @ rest" "sel (p_sk p1) = Sel_Ready # Sel_Ready # evs"
    using r(7) assms(3-5) c0 by (simp_all add: p1_def p0_def heard_def)
  from wait_for_frame [OF p1(1) va(1) p1(2,3,4), of be "0x02"] obtain c1 e1 where
    w1: "wait_for be 0x02 p1 = Some (msgType a = 0x02,
        p1\<lparr>p_ctx := c1, p_in := received a (p_in p1), p_sk := (p_sk p1)\<lparr>sel := Sel_Ready # evs, rx := e1\<rparr>\<rparr>)"
    "quiet e1" "pending c1 @ delivered e1 = wire b @ rest"
    "peer_ok 2048 (p1\<lparr>p_ctx := c1, p_in := received a (p_in p1), p_sk := (p_sk p1)\<lparr>sel := Sel_Ready # evs, rx := e1\<rparr>\<rparr>)"
    by blast
  define p2 where "p2 = p1\<lparr>p_ctx := c1, p_in := received a (p_in p1), p_sk := (p_sk p1)\<lparr>sel := Sel_Ready # evs, rx := e1\<rparr>\<rparr>"
  have p2: "peer_ok 2048 p2" "quiet (rx (p_sk p2))" "heard p2 = wire b @ rest" "sel (p_sk p2) = Sel_Ready # evs"
    using w1 by (simp_all add: p2_def heard_def)
  from wait_for_frame [OF p2(1) va(3) p2(2,3,4), of be "0x03"] obtain c2 e2 where
    w2: "wait_for be 0x03 p2 = Some (msgType b = 0x03,
        p2\<lparr>p_ctx := c2, p_in := received b (p_in p2), p_sk := (p_sk p2)\<lparr>sel := evs, rx := e2\<rparr>\<rparr>)"
    "quiet e2" "pending c2 @ delivered e2 = rest"
    "peer_ok 2048 (p2\<lparr>p_ctx := c2, p_in := received b (p_in p2), p_sk := (p_sk p2)\<lparr>sel := evs, rx := e2\<rparr>\<rparr>)"
    by blast
  define p3 where "p3 = p2\<lparr>p_ctx := c2, p_in := received b (p_in p2), p_sk := (p_sk p2)\<lparr>sel := evs, rx := e2\<rparr>\<rparr>"
  have p3: "peer_ok (1024 + 1024) p3" "heard p3 = rest" "status (p_in p3) = 1" "tx (p_sk p3) = tx k @ wire r"
    using w2 va(5) by (simp_all add: p3_def heard_def p2_def p1_def p0_def)
  obtain l el where l: "say be 10001 0x04 1 (Some mem) (of_nat (strlen_at mem)) p3 =
        Some (p3\<lparr>p_out := l, p_sk := (p_sk p3)\<lparr>wr := el, tx := tx (p_sk p3) @ wire l\<rparr>\<rparr>)"
      "valid_frame l" "seq_num l = 10001" "msgType l = 0x04" "status l = 1"
      "peer_ok 1024 (p3\<lparr>p_out := l, p_sk := (p_sk p3)\<lparr>wr := el, tx := tx (p_sk p3) @ wire l\<rparr>\<rparr>)"
    by (rule say_completes [OF p3(1), where t = "Some mem" and n = "of_nat (strlen_at mem)" and be = be and seq = 10001 and mt = "0x04" and x = 1]) (use strlen_fits in auto)
  define p4 where "p4 = p3\<lparr>p_out := l, p_sk := (p_sk p3)\<lparr>wr := el, tx := tx (p_sk p3) @ wire l\<rparr>\<rparr>"
  have p4: "peer_ok (1024 + 0) p4" "heard p4 = rest" "tx (p_sk p4) = tx k @ wire r @ wire l"
    using l(6) p3 by (simp_all add: p4_def heard_def)
  obtain x t where x: "simulate_ftp_download r2 mem = (x, t)" "x = (if r2 mod 10 < 8 then 1 else 0x21)"
    by (cases "simulate_ftp_download r2 mem") (auto simp: simulate_ftp_download_def split: if_splits)
  obtain d ed where d: "say be 10001 0x05 x (Some t) (of_nat (strlen_at t)) p4 =
        Some (p4\<lparr>p_out := d, p_sk := (p_sk p4)\<lparr>wr := ed, tx := tx (p_sk p4) @ wire d\<rparr>\<rparr>)"
      "valid_frame d" "seq_num d = 10001" "msgType d = 0x05" "status d = x"
    by (rule say_completes [OF p4(1), where t = "Some t" and n = "of_nat (strlen_at t)" and be = be and seq = 10001 and mt = "0x05" and x = x]) (use strlen_fits in auto)
  define p5 where "p5 = p4\<lparr>p_out := d, p_sk := (p_sk p4)\<lparr>wr := ed, tx := tx (p_sk p4) @ wire d\<rparr>\<rparr>"
  have "demo_client be r1 r2 mem ctx f g n k = Some (0, p5)"
    unfolding demo_client_def init p0_def [symmetric] r(1) p1_def [symmetric] w1(1) p2_def [symmetric] w2(1) p3_def [symmetric]
      Option.bind.simps(2)
    using va assms(11) p3(3) l(1) d(1) x(1)
    by (simp add: simulate_ftp_login_def p4_def [symmetric] p5_def [symmetric] w2(1) p3_def [symmetric])
  moreover have "tx (p_sk p5) = tx k @ wire r @ wire l @ wire d" "heard p5 = rest"
    using p4 by (simp_all add: p5_def heard_def)
  moreover have "text_of r = bytes_of ''Request log preparation''"
    unfolding r(6) by (simp add: lucp_consts bytes_of_def)
  ultimately show thesis
    using that [of p5 r l d] r l d x(2) by (simp add: is_request_def good_result_def lucp_consts)
qed

text \<open>A single read that fits takes all of it.\<close>

lemma recv_single:
  assumes "lucp_net_recv be (Some c) (Some g) s = Some (0, Some c', Some g', s')" "rbuf_len c = 0"
    "rx s = [Rd_Data bs]" "length bs \<le> RBUF_SIZE"
  shows "rx s' = []"
proof -
  have "lucp_frame_unpack be (Some g) (Some (rbuf c)) 0 = (0, Some g)" by (simp add: lucp_frame_unpack_def)
  then obtain es where "recv_loop be [Rd_Data bs] c g = Some (0, c', g', es)" "s' = s\<lparr>rx := es\<rparr>"
    using assms(1-3) by (auto simp: lucp_net_recv_def)
  then show ?thesis using assms(2,4)
    by (auto simp: recv_loop.simps [of be "[Rd_Data bs]"] Let_def split: if_splits prod.splits option.splits)
qed

text \<open>The demonstration server's preparation of the log gives what the daemon's gives.\<close>

lemma simulate_log_prep_result:
  assumes "simulate_log_prep r = (x, t)"
  shows "x = fst (prep_result (r mod 10)) \<and> take (strlen_at t) t = bytes_of (snd (prep_result (r mod 10))) \<and>
     strlen_at t < 256"
proof -
  have "strlen_at (print_into ''demo_logfile_20250925.log'' (replicate 256 0)) = 25"
    "take 25 (print_into ''demo_logfile_20250925.log'' (replicate 256 0)) = bytes_of ''demo_logfile_20250925.log''"
    "strlen_at (print_into ''Archive failed: disk full'' (replicate 256 0)) = 25"
    "take 25 (print_into ''Archive failed: disk full'' (replicate 256 0)) = bytes_of ''Archive failed: disk full''"
    "strlen_at (print_into ''FTP upload failed: connection timeout'' (replicate 256 0)) = 37"
    "take 37 (print_into ''FTP upload failed: connection timeout'' (replicate 256 0)) = bytes_of ''FTP upload failed: connection timeout''"
    by code_simp+
  then show ?thesis using assms
    by (auto simp: simulate_log_prep_def prep_result_def lucp_consts Let_def split: if_splits)
qed

lemma demo_server_run:
  assumes "length (textInfo f) = LUCP_MAX_TEXTINFO_LEN" "length (textInfo g) = LUCP_MAX_TEXTINFO_LEN"
    "quiet (rx k)" "delivered (rx k) = wire r @ wire l @ wire d @ rest"
    "is_request r" "valid_frame r" "valid_frame l" "msgType l = LUCP_MTYP_FTP_LOGIN_RESULT" "valid_frame d"
    "list_all progress (wr k)" "2048 \<le> accepts (wr k)"
  obtains p a b where "demo_server be r1 ctx f g n k = Some (0, p)"
    "tx (p_sk p) = tx k @ wire a @ wire b" "heard p = rest" "is_ack (seq_num r) a" "status a = LUCP_STAT_SUCCESS"
    "is_notify (seq_num r) b" "status b = fst (prep_result (r1 mod 10))" "text_of b = bytes_of (snd (prep_result (r1 mod 10)))"
proof -
  define c0 where "c0 = ctx\<lparr>fd := n, rbuf_len := 0, rbuf := replicate RBUF_SIZE 0\<rparr>"
  define p0 where "p0 = \<lparr>p_ctx = c0, p_in = f, p_out = g, p_sk = k\<rparr>"
  have init: "lucp_net_ctx_init (Some ctx) n = Some c0" by (simp add: lucp_net_ctx_init_def c0_def)
  have c0: "net_inv c0" "pending c0 = []" using init_inv [OF init] by simp_all
  have p0: "peer_ok (1024 + 1024) p0" "quiet (rx (p_sk p0))" "heard p0 = wire r @ (wire l @ wire d @ rest)"
    using c0 assms(1-4,10,11) by (simp_all add: peer_ok_def p0_def heard_def)
  obtain c1 e1 where h1: "hear be p0 = Some (0, p0\<lparr>p_ctx := c1, p_in := received r (p_in p0), p_sk := (p_sk p0)\<lparr>rx := e1\<rparr>\<rparr>)"
      "quiet e1" "pending c1 @ delivered e1 = wire l @ wire d @ rest"
      "peer_ok (1024 + 1024) (p0\<lparr>p_ctx := c1, p_in := received r (p_in p0), p_sk := (p_sk p0)\<lparr>rx := e1\<rparr>\<rparr>)"
    by (rule hear_frame [OF p0(1) assms(6) p0(2,3), of be])
  define p1 where "p1 = p0\<lparr>p_ctx := c1, p_in := received r (p_in p0), p_sk := (p_sk p0)\<lparr>rx := e1\<rparr>\<rparr>"
  have p1: "peer_ok (1024 + 1024) p1" "msgType (p_in p1) = 1" "seq_num (p_in p1) = seq_num r"
    using h1(4) assms(5) by (simp_all add: p1_def is_request_def lucp_consts)
  obtain a ea where a: "say be (seq_num r) 0x02 1 None 0 p1 =
        Some (p1\<lparr>p_out := a, p_sk := (p_sk p1)\<lparr>wr := ea, tx := tx (p_sk p1) @ wire a\<rparr>\<rparr>)"
      "valid_frame a" "seq_num a = seq_num r" "msgType a = 0x02" "status a = 1"
      "peer_ok 1024 (p1\<lparr>p_out := a, p_sk := (p_sk p1)\<lparr>wr := ea, tx := tx (p_sk p1) @ wire a\<rparr>\<rparr>)"
    by (rule say_completes [OF p1(1), where t = None and n = 0 and be = be and seq = "seq_num r" and mt = "0x02" and x = 1]) auto
  define p2 where "p2 = p1\<lparr>p_out := a, p_sk := (p_sk p1)\<lparr>wr := ea, tx := tx (p_sk p1) @ wire a\<rparr>\<rparr>"
  have p2: "peer_ok (1024 + 0) p2" "seq_num (p_in p2) = seq_num r" using a(6) p1(3) by (simp_all add: p2_def)
  obtain x t where x: "simulate_log_prep r1 = (x, t)" by (cases "simulate_log_prep r1")
  note prep = simulate_log_prep_result [OF x]
  obtain b eb where b: "say be (seq_num r) 0x03 x (Some t) (of_nat (strlen_at t)) p2 =
        Some (p2\<lparr>p_out := b, p_sk := (p_sk p2)\<lparr>wr := eb, tx := tx (p_sk p2) @ wire b\<rparr>\<rparr>)"
      "valid_frame b" "seq_num b = seq_num r" "msgType b = 0x03" "status b = x"
      "text_of b = take (min (unat (of_nat (strlen_at t) :: u16)) LUCP_MAX_TEXTINFO_LEN) t"
      "peer_ok 0 (p2\<lparr>p_out := b, p_sk := (p_sk p2)\<lparr>wr := eb, tx := tx (p_sk p2) @ wire b\<rparr>\<rparr>)"
    by (rule say_completes [OF p2(1), where t = "Some t" and n = "of_nat (strlen_at t)" and be = be and seq = "seq_num r"
          and mt = "0x03" and x = x]) (use strlen_fits in auto)
  define p3 where "p3 = p2\<lparr>p_out := b, p_sk := (p_sk p2)\<lparr>wr := eb, tx := tx (p_sk p2) @ wire b\<rparr>\<rparr>"
  have p3: "peer_ok 0 p3" "quiet (rx (p_sk p3))" "heard p3 = wire l @ (wire d @ rest)" "tx (p_sk p3) = tx k @ wire a @ wire b"
    using b(7) h1(2,3) by (simp_all add: p3_def p2_def p1_def p0_def heard_def)
  obtain c4 e4 where h4: "hear be p3 = Some (0, p3\<lparr>p_ctx := c4, p_in := received l (p_in p3), p_sk := (p_sk p3)\<lparr>rx := e4\<rparr>\<rparr>)"
      "quiet e4" "pending c4 @ delivered e4 = wire d @ rest"
      "peer_ok 0 (p3\<lparr>p_ctx := c4, p_in := received l (p_in p3), p_sk := (p_sk p3)\<lparr>rx := e4\<rparr>\<rparr>)"
    by (rule hear_frame [OF p3(1) assms(7) p3(2,3), of be])
  define p4 where "p4 = p3\<lparr>p_ctx := c4, p_in := received l (p_in p3), p_sk := (p_sk p3)\<lparr>rx := e4\<rparr>\<rparr>"
  have p4: "peer_ok 0 p4" "quiet (rx (p_sk p4))" "heard p4 = wire d @ rest" "msgType (p_in p4) = 4"
    using h4(2-4) assms(8) by (simp_all add: p4_def heard_def lucp_consts)
  obtain c5 e5 where h5: "hear be p4 = Some (0, p4\<lparr>p_ctx := c5, p_in := received d (p_in p4), p_sk := (p_sk p4)\<lparr>rx := e5\<rparr>\<rparr>)"
      "pending c5 @ delivered e5 = rest"
    by (rule hear_frame [OF p4(1) assms(9) p4(2,3), of be])
  define p5 where "p5 = p4\<lparr>p_ctx := c5, p_in := received d (p_in p4), p_sk := (p_sk p4)\<lparr>rx := e5\<rparr>\<rparr>"
  have "demo_server be r1 ctx f g n k = Some (0, p5)"
    unfolding demo_server_def init p0_def [symmetric] h1(1) p1_def [symmetric] Option.bind.simps(2)
    by (simp add: p1 p2 a(1) p2_def [symmetric] x b(1) p3_def [symmetric] h4(1) p4_def [symmetric] p4 h5(1) p5_def [symmetric])
  moreover have "tx (p_sk p5) = tx k @ wire a @ wire b" "heard p5 = rest"
    using p3(4) h5(2) by (simp_all add: p5_def p4_def heard_def)
  moreover have "text_of b = bytes_of (snd (prep_result (r1 mod 10)))"
    unfolding b(6) using prep by (simp add: unat_of_nat lucp_consts min_def)
  ultimately show thesis
    using that [of p5 a b] a b prep by (simp add: is_ack_def is_notify_def lucp_consts)
qed

section \<open>Properties\<close>

text \<open>C6. The demonstration client and the daemon understand each other. If the client gets any
  acknowledgement and any successful notification, and both its simulated steps succeed, then the
  bytes it has sent, cut into reads in whatever way and on a host of whatever byte order, drive a session
  of the daemon to its completion; the session answers with an acknowledgement and a successful
  notification, so with frames of the kind the client needed. (The sockets take what is written, the client is
  never kept waiting longer than it is ready to, the session is in time, and its log preparation succeeds.)\<close>

theorem lucpd_serves_demo_client:
  assumes "length (textInfo fc) = LUCP_MAX_TEXTINFO_LEN" "length (textInfo gc) = LUCP_MAX_TEXTINFO_LEN"
    "quiet (rx kc)" "delivered (rx kc) = wire a @ wire b" "sel kc = Sel_Ready # Sel_Ready # evs" "tx kc = []"
    "list_all progress (wr kc)" "3072 \<le> accepts (wr kc)"
    "is_ack sa a" "is_notify sb b" "status b = LUCP_STAT_SUCCESS" "r1 mod 10 < 8" "r2 mod 10 < 8"
    "demo_client be r1 r2 mem ctx fc gc nc kc = Some (rc, p)"
    "length (textInfo f) = LUCP_MAX_TEXTINFO_LEN" "length (textInfo g) = LUCP_MAX_TEXTINFO_LEN"
    "quiet (rx ks)" "delivered (rx ks) = tx (p_sk p)" "list_all progress (wr ks)" "53 \<le> accepts (wr ks)"
    "\<And>i. up e i" "dice e 0 mod 10 < 8" "\<And>i. i \<in> {0, 2, 4, 6, 8} \<Longrightarrow> in_time_at cfg e i"
  shows "rc = 0 \<and> (\<exists>s a' b'. session_thread be' cfg e c f g n ks = Some s \<and> st s = SESSION_COMPLETED \<and>
     input s = [] \<and> tx (sk s) = tx ks @ wire a' @ wire b' \<and> is_ack 10001 a' \<and> is_notify 10001 b' \<and>
     status b' = LUCP_STAT_SUCCESS)"
proof -
  have all: "delivered (rx kc) = wire a @ wire b @ []" using assms(4) by simp
  obtain p' r l d where run: "demo_client be r1 r2 mem ctx fc gc nc kc = Some (0, p')" "tx (p_sk p') = tx kc @ wire r @ wire l @ wire d"
      "is_request r" "valid_frame r" "seq_num r = 10001" "version_major r = LUCP_VER_MAJOR"
      "good_result LUCP_MTYP_FTP_LOGIN_RESULT l" "valid_frame l" "msgType d = LUCP_MTYP_FTP_DOWNLOAD_RESULT" "valid_frame d"
      "status d = (if r2 mod 10 < 8 then LUCP_STAT_SUCCESS else 0x21)"
    by (rule demo_client_run [OF assms(1,2,3) all assms(5,7-12), of be r2 mem ctx nc]) blast
  then have del: "delivered (rx ks) = wire r @ wire l @ wire d @ []" "rc = 0" and d: "good_result LUCP_MTYP_FTP_DOWNLOAD_RESULT d"
    using assms(6,13,14,18) by (simp_all add: good_result_def)
  obtain s a' b' where "session_thread be' cfg e c f g n ks = Some s" "st s = SESSION_COMPLETED"
      "tx (sk s) = tx ks @ wire a' @ wire b'" "is_ack (seq_num r) a'" "is_notify (seq_num r) b'"
      "status b' = LUCP_STAT_SUCCESS" "input s = []"
    by (rule thread_upload [OF assms(15-17) del(1) run(4,3) _ run(8,7,10) d assms(19-23), of be' c n]) (use run(6) in blast)+
  then show ?thesis using run(5) del(2) by auto
qed

definition ack_frame :: lucp_frame where
  "ack_frame = blank_frame\<lparr>magic := LUCP_MAGIC, version_major := 1, seq_num := 10001, msgType := 2, status := 1\<rparr>"

definition notify_frame :: lucp_frame where
  "notify_frame = ack_frame\<lparr>msgType := 3\<rparr>"

lemma demo_frames: "is_ack 10001 ack_frame" "is_notify 10001 notify_frame" "status notify_frame = LUCP_STAT_SUCCESS"
  by (simp_all add: is_ack_def is_notify_def ack_frame_def notify_frame_def valid_frame_def wf_frame_def blank_frame_def lucp_consts)

definition client_sock :: sock where
  "client_sock = \<lparr>rx = [Rd_Data (wire ack_frame), Rd_Data (wire notify_frame)], wr = replicate 3072 (Wr_Accept 500),
     sel = [Sel_Ready, Sel_Ready], tx = []\<rparr>"

lemma client_sock: "quiet (rx client_sock)" "delivered (rx client_sock) = wire ack_frame @ wire notify_frame"
    "sel client_sock = Sel_Ready # Sel_Ready # []" "tx client_sock = []" "list_all progress (wr client_sock)"
    "3072 \<le> accepts (wr client_sock)"
  by (simp_all add: client_sock_def list_all_iff accepts_def)

theorem lucpd_serves_demo_client_witness:
  "\<exists>p. demo_client True 0 0 (replicate 256 0) fresh_ctx blank_frame blank_frame 3 client_sock = Some (0, p) \<and>
     (\<exists>s. session_thread False talk_config steady_env fresh_ctx blank_frame blank_frame 4
            (talk\<lparr>rx := [Rd_Data (tx (p_sk p))]\<rparr>) = Some s \<and> st s = SESSION_COMPLETED)"
proof -
  have all: "delivered (rx client_sock) = wire ack_frame @ wire notify_frame @ []" using client_sock(2) by simp
  obtain p r l d where p: "demo_client True 0 0 (replicate 256 0) fresh_ctx blank_frame blank_frame 3 client_sock = Some (0, p)"
      "tx (p_sk p) = tx client_sock @ wire r @ wire l @ wire d"
    by (rule demo_client_run [OF blank_text blank_text client_sock(1) all client_sock(3,5,6) demo_frames, of 0 True 0 "replicate 256 0" fresh_ctx 3]) simp_all
  have "tx (p_sk p) \<noteq> []" using p(2) by simp
  then show ?thesis
    using lucpd_serves_demo_client [OF blank_text blank_text client_sock demo_frames _ _ p(1) blank_text blank_text,
        of "talk\<lparr>rx := [Rd_Data (tx (p_sk p))]\<rparr>" steady_env talk_config False fresh_ctx 4] p(1)
    by (simp add: in_time_at_def steady talk_config steady_up) blast
qed

text \<open>The demonstration client misses a notification that comes early. If the acknowledgement and
  the notification arrive together, the first receive puts both in the context's buffer, \<open>select\<close>
  then finds nothing on the socket, and the client gives up with the notification in its buffer.\<close>

lemma demo_client_misses_notification:
  assumes "length (textInfo f) = LUCP_MAX_TEXTINFO_LEN" "length (textInfo g) = LUCP_MAX_TEXTINFO_LEN"
    "rx k = [Rd_Data (wire a @ wire b)]" "sel k = [Sel_Ready, Sel_Timeout]"
    "list_all progress (wr k)" "1024 \<le> accepts (wr k)" "is_ack sa a" "is_notify sb b"
  shows "\<exists>p r. demo_client be r1 r2 mem ctx f g n k = Some (1, p) \<and> pending (p_ctx p) = wire b \<and>
     rx (p_sk p) = [] \<and> tx (p_sk p) = tx k @ wire r \<and> is_request r"
proof -
  define c0 where "c0 = ctx\<lparr>fd := n, rbuf_len := 0, rbuf := replicate RBUF_SIZE 0\<rparr>"
  define p0 where "p0 = \<lparr>p_ctx = c0, p_in = g, p_out = f, p_sk = k\<rparr>"
  have init: "lucp_net_ctx_init (Some ctx) n = Some c0" by (simp add: lucp_net_ctx_init_def c0_def)
  have c0: "net_inv c0" "pending c0 = []" "rbuf_len c0 = 0" using init_inv [OF init] by (simp_all add: c0_def)
  have va: "valid_frame a" "msgType a = 0x02" "valid_frame b"
    using assms(7,8) by (simp_all add: is_ack_def is_notify_def lucp_consts)
  have "peer_ok (1024 + 0) p0" using c0 assms(1,2,5,6) by (simp add: peer_ok_def p0_def)
  then obtain r es where r: "say be 10001 0x01 0 (Some (bytes_of ''Request log preparation'')) 23 p0 =
        Some (p0\<lparr>p_out := r, p_sk := (p_sk p0)\<lparr>wr := es, tx := tx (p_sk p0) @ wire r\<rparr>\<rparr>)"
      "valid_frame r" "msgType r = 0x01"
      "peer_ok 0 (p0\<lparr>p_out := r, p_sk := (p_sk p0)\<lparr>wr := es, tx := tx (p_sk p0) @ wire r\<rparr>\<rparr>)"
    by (rule say_completes [where t = "Some (bytes_of ''Request log preparation'')" and n = 23 and be = be
          and seq = 10001 and mt = "0x01" and x = 0]) (auto simp: bytes_of_def)
  define p1 where "p1 = p0\<lparr>p_out := r, p_sk := (p_sk p0)\<lparr>wr := es, tx := tx (p_sk p0) @ wire r\<rparr>\<rparr>"
  define p1' where "p1' = p1\<lparr>p_sk := (p_sk p1)\<lparr>sel := [Sel_Timeout]\<rparr>\<rparr>"
  have p1: "peer_ok 0 p1'" "quiet (rx (p_sk p1'))" "heard p1' = wire a @ wire b"
    using r(4) assms(3) c0 by (simp_all add: p1'_def p1_def p0_def heard_def peer_ok_def)
  obtain c1 e1 where h: "hear be p1' = Some (0, p1'\<lparr>p_ctx := c1, p_in := received a (p_in p1'), p_sk := (p_sk p1')\<lparr>rx := e1\<rparr>\<rparr>)"
      "pending c1 @ delivered e1 = wire b"
    by (rule hear_frame [OF p1(1) va(1) p1(2,3), of be])
  have "length (wire a @ wire b) \<le> RBUF_SIZE"
    using length_wire_le [of a] length_wire_le [of b] va by (simp add: valid_frame_def)
  then have e1: "e1 = []"
    using h(1) recv_single [of be c0 g "p_sk p1'" c1 "received a g" "(p_sk p1')\<lparr>rx := e1\<rparr>" "wire a @ wire b"] c0(3) assms(3)
    by (auto simp: hear_def p1'_def p1_def p0_def split: option.splits)
  define p2 where "p2 = p1'\<lparr>p_ctx := c1, p_in := received a (p_in p1'), p_sk := (p_sk p1')\<lparr>rx := e1\<rparr>\<rparr>"
  have w1: "wait_for be 0x02 p1 = Some (True, p2)"
    using h(1) va(2) assms(4) by (simp add: wait_for_def p1'_def [symmetric] p2_def [symmetric])
      (simp add: p1_def p0_def p1'_def p2_def)
  have w2: "wait_for be 0x03 p2 = Some (False, p2\<lparr>p_sk := (p_sk p2)\<lparr>sel := []\<rparr>\<rparr>)"
    by (simp add: wait_for_def p2_def p1'_def)
  have "demo_client be r1 r2 mem ctx f g n k = Some (1, p2\<lparr>p_sk := (p_sk p2)\<lparr>sel := []\<rparr>\<rparr>)"
    unfolding demo_client_def init p0_def [symmetric] r(1) p1_def [symmetric] w1 Option.bind.simps(2)
    by (simp add: w2)
  moreover have "pending (p_ctx p2) = wire b" "rx (p_sk p2) = []" "tx (p_sk p2) = tx k @ wire r"
    using h(2) e1 by (simp_all add: p2_def p1'_def p1_def p0_def)
  moreover have "is_request r" using r(2,3) by (simp add: is_request_def lucp_consts)
  ultimately show ?thesis by auto
qed

lemma demo_client_misses_notification_witness:
  "\<exists>p. demo_client False 0 0 (replicate 256 0) fresh_ctx blank_frame blank_frame 3
        (client_sock\<lparr>rx := [Rd_Data (wire ack_frame @ wire notify_frame)], sel := [Sel_Ready, Sel_Timeout]\<rparr>) = Some (1, p) \<and>
     pending (p_ctx p) = wire notify_frame"
  using demo_client_misses_notification [OF blank_text blank_text _ _ _ _ demo_frames(1,2),
      of "client_sock\<lparr>rx := [Rd_Data (wire ack_frame @ wire notify_frame)], sel := [Sel_Ready, Sel_Timeout]\<rparr>"
        False 0 0 "replicate 256 0" fresh_ctx 3] client_sock(5,6)
  by auto

end
