(* ===== verification/Demo_Main.thy ===== *)
theory Demo_Main
  imports Lucp_Demo Start_Up Lucpd_Utils
begin

text \<open>
  The demonstration programs from their start to their end (\<open>demo/lucp_client_demo.c\<close>,
  \<open>demo/lucp_server_demo.c\<close>): the sockets around the conversations of theory Lucp_Demo.

  \<open>demo_os\<close> adds to what the system answers a daemon at its start what it answers to \<open>inet_pton\<close>, \<open>connect\<close> and
  \<open>accept\<close>. The result of a program is its exit code, what it did to its sockets, and the bytes it sent; \<open>None\<close>
  if it waits for ever.
\<close>

section \<open>The programs\<close>

record demo_os = start_os +
  pton_call :: int
  connect_call :: int
  accept_call :: int

definition DEMO_SERVER_IP :: string where "DEMO_SERVER_IP = ''127.0.0.1''"
definition DEMO_SERVER_PORT :: u16 where "DEMO_SERVER_PORT = 32100"
definition DEMO_PORT :: u16 where "DEMO_PORT = 23456"

definition demo_client_main ::
  "bool \<Rightarrow> demo_os \<Rightarrow> (string \<Rightarrow> u32) \<Rightarrow> nat \<Rightarrow> nat \<Rightarrow> byte list \<Rightarrow> net_ctx \<Rightarrow> lucp_frame \<Rightarrow> lucp_frame \<Rightarrow> sock \<Rightarrow>
     (int \<times> start_event list \<times> byte list) option" where
  "demo_client_main be os inet r1 r2 mem ctx req reply k =
     (let sockfd = socket_call os in
      if sockfd < 0 then Some (1, [], tx k)
      else if pton_call os \<noteq> 1 then Some (1, [Close_fd sockfd], tx k)
      else
        let ev = [Connect_to sockfd (inet DEMO_SERVER_IP) DEMO_SERVER_PORT] in
        if connect_call os < 0 then Some (1, ev @ [Close_fd sockfd], tx k)
        else do {
          (rc, p) \<leftarrow> demo_client be r1 r2 mem ctx req reply sockfd k;
          Some (rc, ev @ [Close_fd sockfd], tx (p_sk p))
        })"

definition demo_server_main ::
  "bool \<Rightarrow> demo_os \<Rightarrow> nat \<Rightarrow> net_ctx \<Rightarrow> lucp_frame \<Rightarrow> lucp_frame \<Rightarrow> sock \<Rightarrow>
     (int \<times> start_event list \<times> byte list) option" where
  "demo_server_main be os r ctx frame reply k =
     (let listenfd = socket_call os in
      if listenfd < 0 then Some (1, [], tx k)
      else
        let ev = [Bind_to listenfd 0 DEMO_PORT] in
        if bind_call os < 0 then Some (1, ev @ [Close_fd listenfd], tx k)
        else
          let ev = ev @ [Listen_on listenfd 1] in
          if listen_call os < 0 then Some (1, ev @ [Close_fd listenfd], tx k)
          else
            let connfd = accept_call os in
            if connfd < 0 then Some (1, ev @ [Close_fd listenfd], tx k)
            else do {
              (rc, p) \<leftarrow> demo_server be r ctx frame reply connfd k;
              Some (0, ev @ [Close_fd connfd, Close_fd listenfd], tx (p_sk p))
            })"

text \<open>The client registers its own handler for the messages of the library.\<close>

definition demo_handle_lucp_log :: log_callback where
  "demo_handle_lucp_log level name n logmsg t =
     (let level_str = (if level = LUCP_LOG_DEBUG then ''DEBUG'' else if level = LUCP_LOG_INFO then ''INFO''
                       else if level = LUCP_LOG_WARN then ''WARN'' else if level = LUCP_LOG_ERROR then ''ERROR''
                       else ''UNKNOWN'');
          fmt = ''[%s] (%s:%d) %s'' @ end_line;
          args = [C_string level_str, C_string name, C_int n, C_string logmsg]
      in if level = LUCP_LOG_ERROR \<or> level = LUCP_LOG_WARN then c_fprintf_err fmt args t
         else c_fprintf_out fmt args t)"

lemma demo_handler_is_daemons: "demo_handle_lucp_log = handle_lucp_log"
  by (intro ext) (simp add: demo_handle_lucp_log_def handle_lucp_log_def level_str_def)

section \<open>Sockets\<close>

definition closed :: "start_event list \<Rightarrow> int list" where
  "closed ev = concat (map (\<lambda>e. case e of Close_fd d \<Rightarrow> [d] | _ \<Rightarrow> []) ev)"

text \<open>A program that ends closes what it got, once.\<close>

lemma demo_client_main_closes:
  "demo_client_main be os inet r1 r2 mem ctx req reply k = Some (rc, ev, out) \<Longrightarrow>
     closed ev = (if socket_call os < 0 then [] else [socket_call os])"
  by (auto simp: demo_client_main_def closed_def Let_def split: if_splits bind_splits)

lemma demo_server_main_closes:
  "demo_server_main be os r ctx frame reply k = Some (rc, ev, out) \<Longrightarrow>
     closed ev = (if socket_call os < 0 then []
       else if 0 \<le> bind_call os \<and> 0 \<le> listen_call os \<and> 0 \<le> accept_call os then [accept_call os, socket_call os]
       else [socket_call os])"
  by (auto simp: demo_server_main_def closed_def Let_def split: if_splits bind_splits)

text \<open>The client connects to where the daemon listens by default, and not to where the demonstration server does.\<close>

lemma demo_client_finds_daemon:
  assumes "demo_client_main be os inet r1 r2 mem ctx req reply k = Some (rc, ev, out)" "Connect_to d a p \<in> set ev"
    "fs LUCPD_DEFAULT_CFG_FILE = None" "0 \<le> socket_call os'" "0 \<le> bind_call os'" "0 \<le> listen_call os'"
  shows "Bind_to (socket_call os') a p \<in> set (snd (lucpd_main_start schar freed junk fs os' inet []))"
    "demo_server_main be os'' r ctx' frame reply' k' = Some (rc', ev', out') \<Longrightarrow> Bind_to d' a' p \<notin> set ev'"
proof -
  have c: "a = inet DEMO_SERVER_IP" "p = DEMO_SERVER_PORT"
    using assms(1,2) by (auto simp: demo_client_main_def Let_def split: if_splits bind_splits)
  show "Bind_to (socket_call os') a p \<in> set (snd (lucpd_main_start schar freed junk fs os' inet []))"
    using lucpd_listens_default [where fs = fs, OF assms(3-6), of schar freed junk inet] c
    by (simp add: DEMO_SERVER_IP_def DEMO_SERVER_PORT_def LUCPD_DEFAULT_IP_def LUCPD_DEFAULT_PORT_def)
  show "Bind_to d' a' p \<notin> set ev'" if "demo_server_main be os'' r ctx' frame reply' k' = Some (rc', ev', out')"
    using that c(2) by (auto simp: demo_server_main_def Let_def DEMO_PORT_def DEMO_SERVER_PORT_def split: if_splits bind_splits)
qed

end
