(* ===== verification/Spec2Isabelle.thy ===== *)
theory Spec2Isabelle
  imports Lucp_Upload Lucpd_Server Lucpd_Rate Lucpd_Cfg_Load Luftpd_Thread Luftpd_Server Start_Up Demo_Main
begin

text \<open>
  \<^bold>\<open>A model of LUCP, the log upload control protocol.\<close>

  \<^bold>\<open>The program.\<close> A vehicle's client asks the daemon \<open>lucpd\<close> to prepare a log file, fetches the file
  from the small FTP server \<open>luftpd\<close>, and reports what came of it. Client and daemon talk in frames of the
  library \<open>lucplib\<close>; both servers read their settings with the library \<open>lucfg\<close>.

  \<^bold>\<open>The theories\<close>, from the bottom up (paths are below \<open>src/\<close>):
  \<^item> Prelude: bytes, words, integers in memory in either byte order, C strings.
  \<^item> Codec: two interfaces, as locales. \<open>frame_codec\<close>: what an encoding of messages promises to the reader of
    a stream. \<open>frame_source\<close>: what an operation that reads one message promises to its callers.
  \<^item> Lucp_Frame: the frame, \<open>lucp_frame_pack\<close>, \<open>lucp_frame_unpack\<close> and \<open>lucp_frame_make\<close>
    (\<open>lucplib/lucp.h\<close>, \<open>lucplib/lucp.c\<close>); an interpretation of \<open>frame_codec\<close>.
  \<^item> Lucp_Net: \<open>lucp_net_ctx_t\<close> and the calls that send, receive and send again (\<open>lucplib/lucp.c\<close>); an
    interpretation of \<open>frame_source\<close>. The socket is the list of what its next reads, writes and selects answer.
  \<^item> Lucp_Log: the log messages of the library and the callback that gets them (\<open>lucplib/lucp.c\<close>), over the part of
    \<open>vsnprintf\<close> that the programs use. Lucpd_Utils: the daemon's handler of these messages, its own log functions and
    its clock (\<open>lucpd/src/lucpd_utils.c\<close>).
  \<^item> Lucpd_Cfg, Lucpd_Cfg_Load: the daemon's settings, their defaults, file and command line
    (\<open>lucpd/src/lucpd_cfg.c\<close>).
  \<^item> Lucpd_Session: the state machine \<open>session_thread\<close> (\<open>lucpd/src/lucpd.c\<close>); one definition per case of
    its \<open>switch\<close>. Lucpd_Protocol: the protocol of a session as a function of the frames, which the thread refines.
    Lucp_Upload: a session together with a client that sends its request with retries.
    Lucpd_Server: the accept loop, the threads and the signal handler of the same file, as a step relation in which a
    step is one access to what they share.
    Lucpd_Rate: \<open>check_rate_limit\<close> (\<open>lucpd/src/lucpd_utils.c\<close>), which the daemon does not call.
  \<^item> Lucfg_Double, Lucfg_Expr, Lucfg: the configuration library (\<open>third_party/lucfg/src/lucfg.c\<close>): its numbers
    in binary64, the expression parser, and the store with its loader and getters (the locale \<open>shadowing_store\<close>).
  \<^item> Luftpd_Path: \<open>luftpd_resolve_path\<close>; Luftpd_Utils: command lines and responses
    (\<open>luftpd/src/luftpd_utils.c\<close>). Luftpd_Cfg: the settings (\<open>luftpd/src/luftpd_cfg.c\<close>).
  \<^item> Luftpd_Client: every command handler, and the session of one client that nobody else touches
    (\<open>luftpd/src/luftpd.c\<close>). Luftpd_Table: the array of clients that the accept loop and the threads share. Luftpd_Thread:
    the thread of a client on its slot of this array, and what the others may do to the array without disturbing it.
    Luftpd_Server: the loop and the threads of any number of clients as a step relation.
  \<^item> Start_Up: how both daemons come up, from the command line to the accept loop.
  \<^item> Lucp_Demo: the demonstration client and server (\<open>demo/\<close>) and the client's talk with the daemon. Demo_Main: both
    programs from start to end, with their sockets.

  \<^bold>\<open>How state corresponds.\<close> A C structure is a record, a buffer the list of all its cells, an unsigned type a
  word of its width. A call that may block for ever is a partial function: \<open>None\<close> is blocking. A return
  code is the C \<open>int\<close>. What comes from outside (the answers of the system calls, the clock, the random numbers,
  the byte order, memory that is not initialised) is an argument of the model, so a theorem holds for all of it.

  \<^bold>\<open>What is shown.\<close>
  \<^item> Frames: pack and unpack against the wire form, the round trip on hosts of any byte order, and that nothing but
    a frame unpacks.
  \<^item> Network layer: frames are reassembled from a stream that is cut in any way; a stream read by successive calls is
    the stream that was sent, and whatever fails, what is read is a front part of what was sent; the context's
    invariant; corrupted headers; partial writes; when the retries succeed, what they guarantee and what they miss.
  \<^item> Session: that it implements the protocol, for every list of frames; what a session has read and
    written in each state (whole frames where no write fails), that a completed one saw the three right frames in their order, that a fair client
    completes it, that it ends when its connection does, that a silent client keeps it for ever, and the timeout's
    arithmetic.
  \<^item> Accept loop: the limit on sessions in every interleaving, and how failed thread creations use it up.
  \<^item> Configuration: a rendered file is read back by the documented lookup, as long as its names are spelled as they
    are asked for, and where the code departs from that lookup; expressions are evaluated; which settings reach
    the programs, and that what is loaded is well formed; where the daemons listen.
  \<^item> File server: the path resolution refines one that goes name by name, and an accepted path goes down from the
    root; a session closes what it opened, once, unless the table moves its client; what \<open>RETR\<close> transfers; the table of clients as a list, and what the removal
    of a client does to the threads of the others; the limit on clients in every interleaving, and how places are lost.
  \<^item> Composition: the bytes of the demonstration client complete a session of the daemon, and it connects to where
    the daemon listens by default; a request that is sent again after timeouts is served once, at both ends.

  \<^bold>\<open>Bounds, fuel and termination.\<close> The receive loop ends because each read takes bytes or an event from a finite
  list (\<open>recv_loop\<close>, a measure); the session loop because each turn advances the state or shortens the input
  (\<open>turn_rel\<close>); the sending of a file because each block shortens it. The expression parser has fuel,
  \<open>expr_fuel\<close>, one more than the length of the text: \<open>expr_parse_total\<close> shows that it always gives a result, and
  that more changes nothing. Integers that can wrap are words, or cut with \<open>sint\<close> as in the timeout.

  \<^bold>\<open>Not modelled.\<close>
  \<^item> The messages that the programs print and the calls of the log functions in the midst of other functions: output
    only, with no effect on the state. What is printed by such a call is modelled by itself.
  \<^item> Failures of \<open>malloc\<close> and the mutexes of \<open>lucfg\<close> (its calls are atomic in the model), the depth of the C stack.
  \<^item> In Luftpd_Thread the other threads act only where the thread waits for a command or for the mutex, not within a
    command; the properties are about others that leave the slot as it is, where this makes no difference.
  \<^item> The logging service \<open>third_party/m_log\<close> and the test programs.
  \<^item> Signals other than those with a handler (a write to a connection that was closed raises SIGPIPE, which ends the
    program); the numbers of the daemon's descriptors (that its listening socket is closed twice after a signal is
    counted only).
\<close>

end
